(* ===== verification/Prelude.thy ===== *)
theory Prelude
  imports Main "HOL-Library.Word"
begin

text \<open>
  What every component of the link controller shares: the C types the code uses and the
  conversions between them, \<open>errno\<close>, the device status of \<open>include/cliserv.h\<close>, and the
  generic lemmas on lists that carry the proofs about linked lists.

  C's \<open>int\<close> is modelled by HOL's \<open>int\<close>, with the narrowing written out
  (\<open>c_int\<close>, \<open>c_ushort\<close>) at the places where the code narrows; \<open>time_t\<close> is an \<open>int\<close>
  (64 bit in the code, its range is not reached by adding a timeout to a clock value).
  An IPv4 address is a \<open>32 word\<close> and a port a \<open>16 word\<close>, as in \<open>struct sockaddr_in\<close>.
\<close>

section \<open>Collections of facts\<close>

named_theorems frame_simps \<open>fields an operation leaves unchanged\<close>
named_theorems effect_simps \<open>closed forms of the list and link operations\<close>
named_theorems protocol_defs \<open>the literals of the wire protocol\<close>

section \<open>C types\<close>

type_synonym in_addr = "32 word"
type_synonym port = "16 word"

record sockaddr_in =
  sin_addr :: in_addr
  sin_port :: port

datatype errno =
    E0 | EINTR | ENOENT | ENXIO | ENOMEM | ENODEV | EINVAL | ENOTSUP | EALREADY
  | ECONNREFUSED | ENOMSG | EBADFD | EPROTONOSUPPORT | ETIMEDOUT | EOTHER nat

datatype device_status_t =
    LINK_DOWN | LINK_UP | LINK_CONNECTING | LINK_DISCONNECTING

text \<open>Conversion to a 32-bit signed \<open>int\<close> and to a 16-bit \<open>unsigned short\<close>.\<close>

definition c_int :: "int \<Rightarrow> int" where
  "c_int x = signed_take_bit 31 x"

definition c_ushort :: "int \<Rightarrow> port" where
  "c_ushort x = word_of_int x"

lemma c_int_id: "- (2 ^ 31) \<le> x \<Longrightarrow> x < 2 ^ 31 \<Longrightarrow> c_int x = x"
  unfolding c_int_def by (rule signed_take_bit_int_eq_self) simp_all

lemma c_int_bounds: "- (2 ^ 31) \<le> c_int x \<and> c_int x < 2 ^ 31"
  unfolding c_int_def
  using signed_take_bit_int_less_exp [of 31 x] signed_take_bit_int_greater_eq_minus_exp [of 31 x]
  by simp

section \<open>Buffer sizes of cliserv.h\<close>

definition MAX_SEND_BUFFER :: nat where
  "MAX_SEND_BUFFER = 400"

definition MAX_RECV_BUFFER :: nat where
  "MAX_RECV_BUFFER = 400"

section \<open>Lists\<close>

text \<open>Removing one occurrence from a list without repetitions removes the element.\<close>

lemma set_remove1_distinct [simp]: "distinct xs \<Longrightarrow> set (remove1 x xs) = set xs - {x}"
  by (rule set_remove1_eq)

lemma remove1_absent [simp]: "x \<notin> set xs \<Longrightarrow> remove1 x xs = xs"
  by (rule remove1_idem)

lemma distinct_snoc [simp]: "distinct (xs @ [x]) \<longleftrightarrow> distinct xs \<and> x \<notin> set xs"
  by auto

lemma set_butlast_subset: "x \<in> set (butlast xs) \<Longrightarrow> x \<in> set xs"
  by (rule in_set_butlastD)

lemma find_None_set: "List.find P xs = None \<longleftrightarrow> (\<forall>x \<in> set xs. \<not> P x)"
  by (auto simp: find_None_iff)

lemma find_Some_set: "List.find P xs = Some x \<Longrightarrow> x \<in> set xs \<and> P x"
  by (auto simp: find_Some_iff)

lemma find_unique:
  assumes "x \<in> set xs" "P x" and uniq: "\<And>y. y \<in> set xs \<Longrightarrow> P y \<Longrightarrow> y = x"
  shows "List.find P xs = Some x"
proof (cases "List.find P xs")
  case None
  with assms(1,2) show ?thesis by (auto simp: find_None_set)
next
  case (Some y)
  then have "y \<in> set xs \<and> P y" by (rule find_Some_set)
  with uniq have "y = x" by blast
  with Some show ?thesis by simp
qed

lemma find_cong_set: "(\<And>x. x \<in> set xs \<Longrightarrow> P x = Q x) \<Longrightarrow> List.find P xs = List.find Q xs"
  by (induction xs) auto

text \<open>The last element's successor closes a search that ran to the end.\<close>

lemma find_append_None: "List.find P xs = None \<Longrightarrow> List.find P (xs @ ys) = List.find P ys"
  by (induction xs) (auto split: if_splits)

lemma find_append_Some: "List.find P xs = Some y \<Longrightarrow> List.find P (xs @ ys) = Some y"
  by (induction xs) (auto split: if_splits)

text \<open>Prefix tests in the manner of \<open>strncmp (s, p, strlen (p)) == 0\<close> on C strings.\<close>

definition starts_with :: "string \<Rightarrow> string \<Rightarrow> bool" where
  "starts_with p s \<longleftrightarrow> take (length p) s = p"

lemma starts_with_append [simp]: "starts_with p (p @ s)"
  by (simp add: starts_with_def)

lemma starts_with_iff: "starts_with p s \<longleftrightarrow> (\<exists>t. s = p @ t)"
  unfolding starts_with_def by (metis append_eq_conv_conj append_take_drop_id)

lemma starts_with_Nil [simp]: "starts_with [] s"
  by (simp add: starts_with_def)

lemma starts_with_Cons [simp]:
  "starts_with (c # p) s \<longleftrightarrow> (case s of [] \<Rightarrow> False | d # t \<Rightarrow> d = c \<and> starts_with p t)"
  by (cases s) (auto simp: starts_with_def)

text \<open>The C string held by a byte array: the bytes before the first NUL.\<close>

definition NUL :: char where
  "NUL = CHR 0x00"

definition c_string :: "char list \<Rightarrow> string" where
  "c_string bs = takeWhile (\<lambda>c. c \<noteq> NUL) bs"

lemma c_string_no_NUL [simp]: "NUL \<notin> set (c_string bs)"
  by (auto simp: c_string_def dest: set_takeWhileD)

lemma c_string_terminated [simp]: "NUL \<notin> set s \<Longrightarrow> c_string (s @ NUL # junk) = s"
  unfolding c_string_def by (subst takeWhile_append2) auto

lemma c_string_id [simp]: "NUL \<notin> set s \<Longrightarrow> c_string s = s"
  unfolding c_string_def by (rule takeWhile_eq_all_conv [THEN iffD2]) auto

end
