(* ===== verification/Protocol.thy ===== *)
theory Protocol
  imports Prelude
begin

text \<open>
  The wire protocol of \<open>include/protocol.h\<close>: every message is a C string in one UDP
  datagram, told apart by its prefix. The literals are built as the header builds them, by
  concatenating the prefix of the sender with the command. The lemmas show that the
  prefixes the dispatchers test one after the other exclude each other, so the order of the
  tests in the code does not matter.
\<close>

section \<open>Literals\<close>

definition TAB :: string where
  "TAB = [CHR 0x09]"

definition NL :: string where
  "NL = [CHR 0x0A]"

definition NOTIFY_PREFIX :: string where [protocol_defs]:
  "NOTIFY_PREFIX = ''NOTIFY ''"
definition NOTIFY_ISUP :: string where [protocol_defs]:
  "NOTIFY_ISUP = NOTIFY_PREFIX @ ''ISUP ''"
definition NOTIFY_ISDOWN :: string where [protocol_defs]:
  "NOTIFY_ISDOWN = NOTIFY_PREFIX @ ''ISDOWN ''"

definition CLIENT_PREFIX :: string where [protocol_defs]:
  "CLIENT_PREFIX = ''CLIENT ''"
definition CLIENT_PING :: string where [protocol_defs]:
  "CLIENT_PING = CLIENT_PREFIX @ ''PING''"
definition CLIENT_DEVICES :: string where [protocol_defs]:
  "CLIENT_DEVICES = CLIENT_PREFIX @ ''DEVICES''"
definition CLIENT_UP :: string where [protocol_defs]:
  "CLIENT_UP = CLIENT_PREFIX @ ''UP ''"
definition CLIENT_DOWN :: string where [protocol_defs]:
  "CLIENT_DOWN = CLIENT_PREFIX @ ''DOWN ''"
definition CLIENT_FORCE_DOWN :: string where [protocol_defs]:
  "CLIENT_FORCE_DOWN = CLIENT_PREFIX @ ''FORCE_DOWN ''"
definition CLIENT_STATUS :: string where [protocol_defs]:
  "CLIENT_STATUS = CLIENT_PREFIX @ ''STATUS ''"
definition CLIENT_CLIENT_STATUS :: string where [protocol_defs]:
  "CLIENT_CLIENT_STATUS = CLIENT_PREFIX @ ''CLIENT_STATUS''"

definition SERVER_PREFIX :: string where [protocol_defs]:
  "SERVER_PREFIX = ''SERVER ''"
definition SERVER_DEVICES :: string where [protocol_defs]:
  "SERVER_DEVICES = SERVER_PREFIX @ ''DEVICES ''"
definition SERVER_STATUS_PREFIX :: string where [protocol_defs]:
  "SERVER_STATUS_PREFIX = SERVER_PREFIX @ ''STATUS ''"
definition SERVER_STATUS_UP :: string where [protocol_defs]:
  "SERVER_STATUS_UP = TAB @ ''UP ''"
definition SERVER_STATUS_DOWN :: string where [protocol_defs]:
  "SERVER_STATUS_DOWN = TAB @ ''DOWN''"
definition SERVER_STATUS_CONNECTING :: string where [protocol_defs]:
  "SERVER_STATUS_CONNECTING = TAB @ ''CONNECTING''"
definition SERVER_STATUS_DISCONNECTING :: string where [protocol_defs]:
  "SERVER_STATUS_DISCONNECTING = TAB @ ''DISCONNECTING''"
definition SERVER_CLIENT_STATUS :: string where [protocol_defs]:
  "SERVER_CLIENT_STATUS = SERVER_PREFIX @ ''CLIENT_STATUS ''"

definition BROADCAST_PREFIX :: string where [protocol_defs]:
  "BROADCAST_PREFIX = ''BROADCAST ''"
definition BROADCAST_INIT :: string where [protocol_defs]:
  "BROADCAST_INIT = BROADCAST_PREFIX @ ''INIT''"
definition BROADCAST_STATUS :: string where [protocol_defs]:
  "BROADCAST_STATUS = BROADCAST_PREFIX @ ''STATUS ''"
definition BROADCAST_QUIT :: string where [protocol_defs]:
  "BROADCAST_QUIT = BROADCAST_PREFIX @ ''QUIT''"

declare TAB_def [protocol_defs] NL_def [protocol_defs]

text \<open>The table \<open>g_link_status_message\<close> of \<open>server.c\<close>, indexed by the status.\<close>

fun g_link_status_message :: "device_status_t \<Rightarrow> string" where
  "g_link_status_message LINK_DOWN = SERVER_STATUS_DOWN"
| "g_link_status_message LINK_UP = SERVER_STATUS_UP"
| "g_link_status_message LINK_CONNECTING = SERVER_STATUS_CONNECTING"
| "g_link_status_message LINK_DISCONNECTING = SERVER_STATUS_DISCONNECTING"

section \<open>The prefixes exclude each other\<close>

definition client_commands :: "string list" where
  "client_commands = [CLIENT_PING, CLIENT_DEVICES, CLIENT_UP, CLIENT_DOWN, CLIENT_FORCE_DOWN,
     CLIENT_STATUS, CLIENT_CLIENT_STATUS]"

definition peer_commands :: "string list" where
  "peer_commands = [NOTIFY_ISUP, NOTIFY_ISDOWN]"

definition broadcast_commands :: "string list" where
  "broadcast_commands = [BROADCAST_INIT, BROADCAST_QUIT, BROADCAST_STATUS]"

lemma starts_with_both:
  assumes "starts_with p s" "starts_with q s"
  shows "starts_with p q \<or> starts_with q p"
proof -
  from assms obtain t u where "p @ t = q @ u" by (auto simp: starts_with_iff)
  then show ?thesis by (auto simp: append_eq_append_conv2 starts_with_iff)
qed

text \<open>No literal of one sender is a prefix of another, over all senders.\<close>

definition all_commands :: "string list" where
  "all_commands = client_commands @ peer_commands @ broadcast_commands"

lemma no_command_extends_another:
  "\<forall>p \<in> set all_commands. \<forall>q \<in> set all_commands. starts_with p q \<longrightarrow> p = q"
  by (simp add: all_commands_def client_commands_def peer_commands_def broadcast_commands_def
      protocol_defs)

lemma command_unique:
  assumes "p \<in> set all_commands" "q \<in> set all_commands" "starts_with p s" "starts_with q s"
  shows "p = q"
  using starts_with_both [OF assms(3,4)] no_command_extends_another assms(1,2) by blast

lemma starts_with_self_append: "starts_with p (p @ s)"
  by simp

end
