(* ===== verification/C_String.thy ===== *)
theory C_String
  imports Prelude
begin

text \<open>
  The functions of the C string library the programs call, on C strings held as HOL strings
  (no NUL inside): \<open>%d\<close> of \<open>printf\<close>, \<open>strtoul (_, _, 0)\<close>, \<open>atoi\<close>, \<open>strtok\<close>, \<open>strchr\<close>,
  \<open>strstr\<close>, \<open>strpbrk\<close>, \<open>strcasecmp\<close>, \<open>inet_aton\<close>, \<open>inet_ntoa\<close>. A pointer into a string is the suffix
  it points at, NULL is \<open>None\<close>. The lemmas give the round trip of a printed number through
  \<open>strtoul\<close>, the length of a printed number and the behaviour of \<open>strtok\<close> on a message
  built from delimiter-free words.
\<close>

section \<open>Digits and numbers\<close>

definition digit_char :: "int \<Rightarrow> char" where
  "digit_char d = char_of (48 + d)"

definition digit_val :: "char \<Rightarrow> int option" where
  "digit_val c = (let n = (of_char c :: int) in
     if 48 \<le> n \<and> n \<le> 57 then Some (n - 48)
     else if 97 \<le> n \<and> n \<le> 122 then Some (n - 87)
     else if 65 \<le> n \<and> n \<le> 90 then Some (n - 55)
     else None)"

definition is_digit :: "int \<Rightarrow> char \<Rightarrow> bool" where
  "is_digit base c = (case digit_val c of None \<Rightarrow> False | Some d \<Rightarrow> d < base)"

definition is_space :: "char \<Rightarrow> bool" where
  "is_space c = (let n = (of_char c :: int) in n = 32 \<or> (9 \<le> n \<and> n \<le> 13))"

lemma of_digit_char [simp]: "0 \<le> d \<Longrightarrow> d < 10 \<Longrightarrow> (of_char (digit_char d) :: int) = 48 + d"
  by (simp add: digit_char_def of_char_of)

lemma digit_val_char [simp]: "0 \<le> d \<Longrightarrow> d < 10 \<Longrightarrow> digit_val (digit_char d) = Some d"
  by (simp add: digit_val_def)

lemma digit_char_not_space [simp]: "0 \<le> d \<Longrightarrow> d < 10 \<Longrightarrow> \<not> is_space (digit_char d)"
  by (simp add: is_space_def)

text \<open>The decimal digits of a number that is not negative.\<close>

fun print_num :: "int \<Rightarrow> string" where
  "print_num n = (if n < 10 then [digit_char n]
                  else print_num (n div 10) @ [digit_char (n mod 10)])"

declare print_num.simps [simp del]

text \<open>\<open>printf ("%d", x)\<close> for a value of type \<open>int\<close>.\<close>

definition print_int :: "int \<Rightarrow> string" where
  "print_int x = (if x < 0 then CHR ''-'' # print_num (- x) else print_num x)"

definition number_of_digits :: "int \<Rightarrow> string \<Rightarrow> int" where
  "number_of_digits base ds =
     foldl (\<lambda>v c. v * base + (case digit_val c of None \<Rightarrow> 0 | Some d \<Rightarrow> d)) 0 ds"

lemma number_of_digits_snoc [simp]:
  "0 \<le> d \<Longrightarrow> d < 10 \<Longrightarrow> number_of_digits b (ds @ [digit_char d]) = number_of_digits b ds * b + d"
  by (simp add: number_of_digits_def)

lemma number_of_digits_print [simp]: "0 \<le> n \<Longrightarrow> number_of_digits 10 (print_num n) = n"
proof (induction n rule: print_num.induct)
  case (1 n)
  show ?case
  proof (cases "n < 10")
    case True
    with "1.prems" show ?thesis by (simp add: print_num.simps [of n] number_of_digits_def)
  next
    case False
    with "1.IH" have "number_of_digits 10 (print_num (n div 10)) = n div 10" by simp
    with False show ?thesis by (subst print_num.simps) simp
  qed
qed

lemma print_num_digits: "0 \<le> n \<Longrightarrow> c \<in> set (print_num n) \<Longrightarrow> \<exists>d. 0 \<le> d \<and> d < 10 \<and> c = digit_char d"
proof (induction n rule: print_num.induct)
  case (1 n)
  show ?case
  proof (cases "n < 10")
    case True
    with "1.prems" show ?thesis by (auto simp: print_num.simps [of n])
  next
    case False
    with "1.prems" have "c \<in> set (print_num (n div 10)) \<or> c = digit_char (n mod 10)"
      by (subst (asm) print_num.simps) auto
    moreover have "0 \<le> n mod 10 \<and> n mod 10 < 10" by simp
    moreover from False have "0 \<le> n div 10" by simp
    ultimately show ?thesis using "1.IH" False by blast
  qed
qed

lemma print_num_nonempty [simp]: "print_num n \<noteq> []"
  by (subst print_num.simps) simp

lemma print_num_0: "print_num 0 = [digit_char 0]"
  by (subst print_num.simps) simp

text \<open>No printed number but zero starts with the digit zero, so base detection reads it back.\<close>

lemma print_num_head: "n > 0 \<Longrightarrow> hd (print_num n) \<noteq> digit_char 0"
proof (induction n rule: print_num.induct)
  case (1 n)
  show ?case
  proof (cases "n < 10")
    case True
    with "1.prems" have "digit_val (digit_char n) \<noteq> digit_val (digit_char 0)" by simp
    then have "digit_char n \<noteq> digit_char 0" by metis
    with True show ?thesis by (simp add: print_num.simps [of n])
  next
    case False
    then have "n div 10 > 0" by simp
    with "1.IH" False have "hd (print_num (n div 10)) \<noteq> digit_char 0" by simp
    with False show ?thesis by (subst print_num.simps) simp
  qed
qed

lemma length_print_num: "0 \<le> n \<Longrightarrow> n < 10 ^ Suc k \<Longrightarrow> length (print_num n) \<le> Suc k"
proof (induction k arbitrary: n)
  case 0
  then show ?case by (subst print_num.simps) simp
next
  case (Suc k)
  show ?case
  proof (cases "n < 10")
    case True
    then show ?thesis by (subst print_num.simps) simp
  next
    case False
    from Suc.prems have "n div 10 < 10 ^ Suc k" unfolding power_Suc [of _ "Suc k"] by linarith
    with Suc.IH [of "n div 10"] Suc.prems have "length (print_num (n div 10)) \<le> Suc k" by simp
    with False show ?thesis by (subst print_num.simps) simp
  qed
qed

lemma length_print_num_ge: "10 ^ k \<le> n \<Longrightarrow> Suc k \<le> length (print_num n)"
proof (induction k arbitrary: n)
  case 0
  show ?case by (cases "print_num n") simp_all
next
  case (Suc k)
  moreover have "(1 :: int) \<le> 10 ^ k" by simp
  ultimately have "n \<ge> 10" unfolding power_Suc by linarith
  from Suc.prems have "10 ^ k \<le> n div 10" unfolding power_Suc by linarith
  with \<open>n \<ge> 10\<close> show ?case using Suc.IH [of "n div 10"] by (subst print_num.simps) simp
qed

section \<open>strtoul with base 0, and atoi\<close>

text \<open>\<open>unsigned long\<close> has 64 bits: too large a number reads as \<open>ULONG_MAX\<close>.\<close>

definition ULONG_MAX :: int where
  "ULONG_MAX = 2 ^ 64 - 1"

definition detect_base :: "string \<Rightarrow> int \<times> string" where
  "detect_base s = (case s of
       c # x # h # t \<Rightarrow> if c = CHR ''0'' \<and> x \<in> {CHR ''x'', CHR ''X''} \<and> is_digit 16 h
                       then (16, h # t)
                       else if c = CHR ''0'' then (8, s) else (10, s)
     | c # t \<Rightarrow> if c = CHR ''0'' then (8, s) else (10, s)
     | [] \<Rightarrow> (10, s))"

definition strtoul :: "string \<Rightarrow> int \<times> string" where
  "strtoul s = (
     let s1 = dropWhile is_space s;
         neg = (s1 \<noteq> [] \<and> hd s1 = CHR ''-'');
         s2 = (if s1 \<noteq> [] \<and> hd s1 \<in> {CHR ''-'', CHR ''+''} then tl s1 else s1);
         (base, s3) = detect_base s2;
         ds = takeWhile (is_digit base) s3;
         v = number_of_digits base ds
     in if ds = [] then (0, s)
        else (if v > ULONG_MAX then ULONG_MAX
              else if neg then (- v) mod (ULONG_MAX + 1) else v,
              dropWhile (is_digit base) s3))"

definition atoi :: "string \<Rightarrow> int" where
  "atoi s = (
     let s1 = dropWhile is_space s;
         neg = (s1 \<noteq> [] \<and> hd s1 = CHR ''-'');
         s2 = (if s1 \<noteq> [] \<and> hd s1 \<in> {CHR ''-'', CHR ''+''} then tl s1 else s1);
         v = number_of_digits 10 (takeWhile (is_digit 10) s2)
     in c_int (if neg then - v else v))"

lemma is_digit_print [simp]: "0 \<le> n \<Longrightarrow> c \<in> set (print_num n) \<Longrightarrow> is_digit 10 c"
  using print_num_digits [of n c] by (auto simp: is_digit_def)

lemma digit_char_0: "digit_char 0 = CHR ''0''"
  by code_simp

lemma digit_char_no_sign [simp]:
  "0 \<le> d \<Longrightarrow> d < 10 \<Longrightarrow> digit_char d \<noteq> CHR ''-''"
  "0 \<le> d \<Longrightarrow> d < 10 \<Longrightarrow> digit_char d \<noteq> CHR ''+''"
  using of_digit_char [of d] by fastforce+

text \<open>
  Round trip: a printed natural number, followed by the end of the string or by a character
  that is no digit, reads back, with the end pointer at what follows.
\<close>

lemma strtoul_print:
  assumes "0 \<le> n" "n \<le> ULONG_MAX" and stop: "rest = [] \<or> (\<forall>b. \<not> is_digit b (hd rest))"
  shows "strtoul (print_num n @ rest) = (n, rest)"
proof (cases "n = 0")
  case True
  have no_hex: "rest = [] \<or> hd rest \<notin> {CHR ''x'', CHR ''X''}"
  proof (rule disjE [OF stop])
    assume "\<forall>b. \<not> is_digit b (hd rest)"
    then have "\<not> is_digit 36 (hd rest)" by blast
    then show ?thesis by (auto simp: is_digit_def digit_val_def)
  qed simp
  then have "detect_base (CHR ''0'' # rest) = (8, CHR ''0'' # rest)"
    by (auto simp: detect_base_def split: list.splits)
  moreover have "takeWhile (is_digit 8) rest = []" "dropWhile (is_digit 8) rest = rest"
    using stop by (cases rest; simp)+
  moreover have "is_digit 8 (CHR ''0'')" "\<not> is_space (CHR ''0'')"
    by (simp_all add: is_digit_def digit_val_def is_space_def)
  ultimately show ?thesis
    using True by (simp add: strtoul_def print_num_0 digit_char_0 number_of_digits_def digit_val_def
        ULONG_MAX_def)
next
  case False
  obtain c cs where pn: "print_num n = c # cs" by (cases "print_num n") auto
  with print_num_digits [of n c] assms(1) obtain d where d: "0 \<le> d" "d < 10" "c = digit_char d" by auto
  from False assms(1) print_num_head [of n] pn have "c \<noteq> CHR ''0''" by (simp add: digit_char_0)
  then have base: "detect_base (c # cs @ rest) = (10, c # cs @ rest)"
    by (auto simp: detect_base_def split: list.splits)
  have all: "\<forall>x \<in> set (c # cs). is_digit 10 x" using pn is_digit_print assms(1) by metis
  have tw: "takeWhile (is_digit 10) (c # cs @ rest) = c # cs"
    "dropWhile (is_digit 10) (c # cs @ rest) = rest"
    using all stop by (cases rest; simp add: takeWhile_append2 dropWhile_append2)+
  have num: "number_of_digits 10 (c # cs) = n" using number_of_digits_print [of n] pn assms(1) by simp
  show ?thesis
    using d assms(2) base tw num pn by (simp add: strtoul_def)
qed

text \<open>A minus sign in front negates modulo the size of \<open>unsigned long\<close>.\<close>

lemma strtoul_minus:
  assumes "t \<noteq> []" "is_digit 10 (hd t)" "strtoul t = (v, rest)" "v < ULONG_MAX" "length rest < length t"
  shows "strtoul (CHR ''-'' # t) = ((- v) mod (ULONG_MAX + 1), rest)"
proof -
  obtain c cs where t: "t = c # cs" using assms(1) by (cases t) auto
  from assms(2) t have c: "\<not> is_space c" "c \<noteq> CHR ''-''" "c \<noteq> CHR ''+''"
    by (auto simp: is_digit_def digit_val_def is_space_def Let_def split: option.splits if_splits)
  obtain b u where b: "detect_base (c # cs) = (b, u)" by fastforce
  have "\<not> is_space (CHR ''-'')" by (simp add: is_space_def)
  then show ?thesis using assms(3-5) c b
    by (auto simp: strtoul_def t Let_def split: if_splits)
qed

lemma print_num_no_space [simp]: "0 \<le> n \<Longrightarrow> CHR '' '' \<notin> set (print_num n)"
proof
  assume n: "0 \<le> n" and "CHR '' '' \<in> set (print_num n)"
  then obtain d where "0 \<le> d" "d < 10" "CHR '' '' = digit_char d" using print_num_digits by blast
  then have "is_space (CHR '' '') = is_space (digit_char d)" by simp
  then show False using \<open>0 \<le> d\<close> \<open>d < 10\<close> by (simp add: is_space_def)
qed

lemma strtoul_print_int:
  assumes "- (2 ^ 63) \<le> x" "x < 2 ^ 63" and stop: "rest = [] \<or> (\<forall>b. \<not> is_digit b (hd rest))"
  shows "strtoul (print_int x @ rest) = (x mod (ULONG_MAX + 1), rest)"
proof (cases "x < 0")
  case False
  with assms show ?thesis by (simp add: print_int_def strtoul_print ULONG_MAX_def)
next
  case True
  let ?n = "- x"
  have s: "strtoul (print_num ?n @ rest) = (?n, rest)"
    using assms True by (intro strtoul_print) (simp_all add: ULONG_MAX_def)
  have ne: "print_num ?n @ rest \<noteq> []" by simp
  have "hd (print_num ?n @ rest) \<in> set (print_num ?n)" by (cases "print_num ?n") simp_all
  then have "is_digit 10 (hd (print_num ?n @ rest))" using True is_digit_print [of ?n] by simp
  from strtoul_minus [OF ne this s] show ?thesis
    using True assms(1) by (simp add: print_int_def ULONG_MAX_def)
qed

lemma print_int_no_space: "CHR '' '' \<notin> set (print_int x)"
  by (auto simp: print_int_def)

section \<open>strtok\<close>

text \<open>
  One call of \<open>strtok\<close> on the text that is left: the next token and the text after it
  (the delimiter that ended the token is overwritten, so it is gone), or NULL.
\<close>

definition strtok :: "char list \<Rightarrow> string \<Rightarrow> (string \<times> string) option" where
  "strtok delims s = (
     let s1 = dropWhile (\<lambda>c. c \<in> set delims) s in
     if s1 = [] then None
     else Some (takeWhile (\<lambda>c. c \<notin> set delims) s1, tl (dropWhile (\<lambda>c. c \<notin> set delims) s1)))"

lemma strtok_word:
  assumes "w \<noteq> []" "\<forall>c \<in> set w. c \<notin> set ds" "d \<in> set ds"
  shows "strtok ds (w @ d # rest) = Some (w, rest)"
proof -
  obtain c cs where w: "w = c # cs" using assms(1) by (cases w) auto
  have "dropWhile (\<lambda>c. c \<in> set ds) (w @ d # rest) = w @ d # rest"
    using assms(2) w by simp
  then show ?thesis using assms
    by (simp add: strtok_def takeWhile_append2 dropWhile_append2)
qed

lemma strtok_Nil [simp]: "strtok ds [] = None"
  by (simp add: strtok_def)

lemma strtok_shorter: "strtok ds s = Some (w, rest) \<Longrightarrow> length rest < length s"
proof -
  assume a: "strtok ds s = Some (w, rest)"
  let ?s1 = "dropWhile (\<lambda>c. c \<in> set ds) s"
  from a have ne: "?s1 \<noteq> []" and r: "rest = tl (dropWhile (\<lambda>c. c \<notin> set ds) ?s1)"
    by (auto simp: strtok_def Let_def split: if_splits)
  have "length rest \<le> length ?s1 - 1"
    using length_dropWhile_le [of "\<lambda>c. c \<notin> set ds" ?s1] r by simp
  moreover have "length ?s1 \<le> length s" by (rule length_dropWhile_le)
  moreover have "length ?s1 > 0" using ne by simp
  ultimately show ?thesis by linarith
qed

section \<open>Searching and comparing\<close>

definition strchr :: "string \<Rightarrow> char \<Rightarrow> string option" where
  "strchr s c = (let r = dropWhile (\<lambda>x. x \<noteq> c) s in if r = [] then None else Some r)"

definition strpbrk :: "string \<Rightarrow> char list \<Rightarrow> string option" where
  "strpbrk s accept = (let r = dropWhile (\<lambda>x. x \<notin> set accept) s in if r = [] then None else Some r)"

fun strstr :: "string \<Rightarrow> string \<Rightarrow> string option" where
  "strstr [] needle = (if needle = [] then Some [] else None)"
| "strstr (c # s) needle = (if starts_with needle (c # s) then Some (c # s) else strstr s needle)"

definition tolower :: "char \<Rightarrow> char" where
  "tolower c = (let n = (of_char c :: int) in if 65 \<le> n \<and> n \<le> 90 then char_of (n + 32) else c)"

definition strcaseeq :: "string \<Rightarrow> string \<Rightarrow> bool" where
  "strcaseeq a b \<longleftrightarrow> map tolower a = map tolower b"

section \<open>inet_aton\<close>

text \<open>
  \<open>inet_aton\<close> reads one to four numbers (decimal, octal or hexadecimal) separated by dots;
  the last one fills the remaining bytes. The address is kept in host order: the programs
  only compare addresses and hand them back to the socket.
\<close>

fun split_dots :: "string \<Rightarrow> string list" where
  "split_dots [] = [[]]"
| "split_dots (c # s) = (if c = CHR ''.'' then [] # split_dots s
     else (case split_dots s of [] \<Rightarrow> [[c]] | w # ws \<Rightarrow> (c # w) # ws))"

definition inet_part :: "string \<Rightarrow> int option" where
  "inet_part w = (if w = [] \<or> digit_val (hd w) = None \<or> \<not> is_digit 10 (hd w) then None
     else (case strtoul w of (v, rest) \<Rightarrow> if rest = [] then Some v else None))"

definition inet_aton :: "string \<Rightarrow> in_addr option" where
  "inet_aton s = (case map inet_part (split_dots s) of
       [Some a] \<Rightarrow> if a < 2 ^ 32 then Some (of_int a) else None
     | [Some a, Some b] \<Rightarrow> if a < 256 \<and> b < 2 ^ 24 then Some (of_int (a * 2 ^ 24 + b)) else None
     | [Some a, Some b, Some c] \<Rightarrow> if a < 256 \<and> b < 256 \<and> c < 2 ^ 16
          then Some (of_int (a * 2 ^ 24 + b * 2 ^ 16 + c)) else None
     | [Some a, Some b, Some c, Some d] \<Rightarrow> if a < 256 \<and> b < 256 \<and> c < 256 \<and> d < 256
          then Some (of_int (a * 2 ^ 24 + b * 2 ^ 16 + c * 2 ^ 8 + d)) else None
     | _ \<Rightarrow> None)"

definition inet_ntoa :: "in_addr \<Rightarrow> string" where
  "inet_ntoa a = (let n = uint a in
     print_num (n div 2 ^ 24) @ ''.'' @ print_num (n div 2 ^ 16 mod 256) @ ''.''
       @ print_num (n div 2 ^ 8 mod 256) @ ''.'' @ print_num (n mod 256))"

end
