(* ===== verification/Unix_IO.thy ===== *)
theory Unix_IO
  imports C_String
begin

text \<open>
  The operating system as the programs see it. A record \<open>env\<close> gives the outcome of every
  external call: it is indexed by the number of calls made so far (\<open>tick\<close>), so that two
  calls of \<open>time (NULL)\<close> or of the same shell command may have different outcomes;
  \<open>e_heap\<close> is what a byte of fresh heap memory holds. It is a
  parameter of every definition that uses it. The record \<open>io\<close> is the part of a program's
  state that belongs to the C runtime: \<open>errno\<close>, the call counter, the log of the effects a
  bystander can see (commands run, datagrams sent, sleeps), and a flag \<open>ub\<close> that is raised
  where the C code writes outside an object or dereferences NULL; once it is raised
  the C standard promises nothing more, so a state with \<open>ub\<close> set means nothing.
  The programs extend \<open>io\<close> by their own global variables; that an operation touches only
  the runtime's part is \<open>same_core\<close>.
\<close>

section \<open>The environment and the runtime state\<close>

datatype io_event =
    Ran "string option" int        \<comment> \<open>\<open>system (command)\<close> and what it returned\<close>
  | Sent sockaddr_in string int    \<comment> \<open>\<open>sendto\<close>: destination, text and result\<close>
  | Slept nat                      \<comment> \<open>\<open>sleep (seconds)\<close>\<close>

record env =
  e_time   :: "nat \<Rightarrow> int"
  e_system :: "nat \<Rightarrow> string option \<Rightarrow> int"
  e_malloc :: "nat \<Rightarrow> bool"
  e_sendto :: "nat \<Rightarrow> sockaddr_in \<Rightarrow> string \<Rightarrow> int"
  e_errno  :: "nat \<Rightarrow> errno"
  e_heap   :: "nat \<Rightarrow> char"

record io =
  errno :: errno
  tick  :: nat
  trace :: "io_event list"
  ub    :: bool

section \<open>External calls\<close>

definition set_errno :: "errno \<Rightarrow> 'a io_scheme \<Rightarrow> 'a io_scheme" where
  "set_errno e s = s\<lparr>errno := e\<rparr>"

definition time_now :: "env \<Rightarrow> 'a io_scheme \<Rightarrow> int \<times> 'a io_scheme" where
  "time_now E s = (e_time E (tick s), s\<lparr>tick := Suc (tick s)\<rparr>)"

definition malloc :: "env \<Rightarrow> 'a io_scheme \<Rightarrow> bool \<times> 'a io_scheme" where
  "malloc E s = (let ok = e_malloc E (tick s) in
     (ok, s\<lparr>tick := Suc (tick s), errno := (if ok then errno s else ENOMEM)\<rparr>))"

definition system_call :: "env \<Rightarrow> string option \<Rightarrow> 'a io_scheme \<Rightarrow> int \<times> 'a io_scheme" where
  "system_call E cmd s = (let r = e_system E (tick s) cmd in
     (r, s\<lparr>tick := Suc (tick s),
           errno := (if r = -1 then e_errno E (tick s) else errno s),
           trace := trace s @ [Ran cmd r]\<rparr>))"

definition sendto :: "env \<Rightarrow> sockaddr_in \<Rightarrow> string \<Rightarrow> 'a io_scheme \<Rightarrow> int \<times> 'a io_scheme" where
  "sendto E to msg s = (let r = e_sendto E (tick s) to msg in
     (r, s\<lparr>tick := Suc (tick s),
           errno := (if r < 0 then e_errno E (tick s) else errno s),
           trace := trace s @ [Sent to msg r]\<rparr>))"

definition sleep :: "nat \<Rightarrow> 'a io_scheme \<Rightarrow> 'a io_scheme" where
  "sleep n s = s\<lparr>tick := Suc (tick s), trace := trace s @ [Slept n]\<rparr>"

text \<open>
  Writing a C string of the given text into an object of \<open>size\<close> bytes needs room for the
  text and its NUL; otherwise the write runs past the object.
\<close>

definition fits :: "nat \<Rightarrow> string \<Rightarrow> 'a io_scheme \<Rightarrow> 'a io_scheme" where
  "fits n msg s = (if length msg + 1 \<le> n then s else s\<lparr>ub := True\<rparr>)"

definition undefined_if :: "bool \<Rightarrow> 'a io_scheme \<Rightarrow> 'a io_scheme" where
  "undefined_if b s = (if b then s\<lparr>ub := True\<rparr> else s)"

lemmas io_defs = set_errno_def time_now_def malloc_def system_call_def sendto_def sleep_def
  fits_def undefined_if_def

section \<open>What the external calls leave alone\<close>

definition same_core :: "'a io_scheme \<Rightarrow> 'a io_scheme \<Rightarrow> bool" where
  "same_core s t \<longleftrightarrow> io.more s = io.more t"

lemma same_core_refl [simp]: "same_core s s"
  by (simp add: same_core_def)

lemma same_core_sym: "same_core s t \<Longrightarrow> same_core t s"
  by (simp add: same_core_def)

lemma same_core_trans: "same_core s t \<Longrightarrow> same_core t u \<Longrightarrow> same_core s u"
  by (simp add: same_core_def)

lemma same_core_io [simp, frame_simps]:
  "same_core s (set_errno e t) = same_core s t"
  "same_core s (snd (time_now E t)) = same_core s t"
  "same_core s (snd (malloc E t)) = same_core s t"
  "same_core s (snd (system_call E c t)) = same_core s t"
  "same_core s (snd (sendto E a m t)) = same_core s t"
  "same_core s (sleep n t) = same_core s t"
  "same_core s (fits k m t) = same_core s t"
  "same_core s (undefined_if b t) = same_core s t"
  by (simp_all add: same_core_def io_defs Let_def)

text \<open>The undefined-behaviour flag only ever goes up, and only the checks raise it.\<close>

lemma ub_io [simp]:
  "ub (set_errno e s) = ub s"
  "ub (snd (time_now E s)) = ub s"
  "ub (snd (malloc E s)) = ub s"
  "ub (snd (system_call E c s)) = ub s"
  "ub (snd (sendto E a m s)) = ub s"
  "ub (sleep n s) = ub s"
  "ub (fits k m s) = (ub s \<or> k < length m + 1)"
  "ub (undefined_if b s) = (ub s \<or> b)"
  by (simp_all add: io_defs Let_def)

lemma trace_io [simp]:
  "trace (set_errno e s) = trace s"
  "trace (snd (time_now E s)) = trace s"
  "trace (snd (malloc E s)) = trace s"
  "trace (fits k m s) = trace s"
  "trace (undefined_if b s) = trace s"
  "trace (sleep n s) = trace s @ [Slept n]"
  by (simp_all add: io_defs Let_def)

lemma errno_set_errno [simp]: "errno (set_errno e s) = e"
  by (simp add: io_defs)

lemma tick_set_errno [simp]: "tick (set_errno e s) = tick s"
  by (simp add: io_defs)

lemma tick_io [simp]:
  "tick (snd (malloc E s)) = Suc (tick s)" "tick (snd (time_now E s)) = Suc (tick s)"
  "tick (snd (system_call E c s)) = Suc (tick s)" "tick (snd (sendto E a m s)) = Suc (tick s)"
  "tick (fits k m s) = tick s" "tick (undefined_if b s) = tick s" "tick (sleep n s) = Suc (tick s)"
  by (simp_all add: io_defs Let_def)

text \<open>The runtime moves forward: calls are counted, and the flag is never lowered.\<close>

definition progress :: "'a io_scheme \<Rightarrow> 'a io_scheme \<Rightarrow> bool" where
  "progress s t \<longleftrightarrow> tick s \<le> tick t \<and> (ub s \<longrightarrow> ub t)"

lemma progress_refl [simp]: "progress s s"
  by (simp add: progress_def)

lemma progress_trans: "progress s t \<Longrightarrow> progress t u \<Longrightarrow> progress s u"
  by (auto simp: progress_def)

lemma progress_io [simp]:
  "progress s (set_errno e t) = progress s t"
  "progress s t \<Longrightarrow> progress s (snd (time_now E t))"
  "progress s t \<Longrightarrow> progress s (snd (malloc E t))"
  "progress s t \<Longrightarrow> progress s (snd (system_call E c t))"
  "progress s t \<Longrightarrow> progress s (snd (sendto E a m t))"
  "progress s t \<Longrightarrow> progress s (sleep n t)"
  "progress s t \<Longrightarrow> progress s (fits k m t)"
  "progress s t \<Longrightarrow> progress s (undefined_if b t)"
  by (auto simp: progress_def)

lemma errno_malloc [simp]:
  "errno (snd (malloc E s)) = (if e_malloc E (tick s) then errno s else ENOMEM)"
  by (simp add: malloc_def Let_def)

lemma fst_malloc: "fst (malloc E s) = e_malloc E (tick s)"
  by (simp add: malloc_def Let_def)

lemma fst_system_call: "fst (system_call E c s) = e_system E (tick s) c"
  by (simp add: system_call_def Let_def)

text \<open>
  An environment in which nothing goes wrong: memory is there, every command succeeds and
  every datagram is accepted whole.
\<close>

definition well_behaved :: "env \<Rightarrow> bool" where
  "well_behaved E \<longleftrightarrow> (\<forall>n. e_malloc E n) \<and> (\<forall>n c. e_system E n c = 0)
     \<and> (\<forall>n a m. e_sendto E n a m = int (length m))"

text \<open>A simple environment with a clock, to evaluate the definitions on.\<close>

definition calm_env :: "(nat \<Rightarrow> int) \<Rightarrow> env" where
  "calm_env clock = \<lparr>e_time = clock, e_system = (\<lambda>n c. 0), e_malloc = (\<lambda>n. True),
     e_sendto = (\<lambda>n a m. int (length m)), e_errno = (\<lambda>n. E0),
     e_heap = (\<lambda>n. NUL)\<rparr>"

lemma well_behaved_calm: "well_behaved (calm_env clock)"
  by (simp add: well_behaved_def calm_env_def)

end
