(* ===== verification/Server_State.thy ===== *)
theory Server_State
  imports Protocol Unix_IO
begin

text \<open>
  The data of the link server: \<open>client_t\<close> and \<open>device_t\<close> of \<open>server/server.h\<close>, its
  configuration variables and its global lists. Devices and clients are mutable and
  shared (a client's \<open>devices_connected\<close> points at devices whose \<open>clients_connected\<close> points
  back), so they live in two stores indexed by address and every list holds addresses. A
  linked list is the HOL list of the \<open>data\<close> pointers of its nodes, in order; the theory
  \<open>Linked_List\<close> relates this to the nodes and \<open>next\<close> pointers. Devices are never freed;
  a client is freed when it times out, which clears \<open>client_live\<close>. \<open>next_ptr\<close> is the
  address the next \<open>client_t\<close> gets: \<open>malloc\<close> never returns the address of a live object.
\<close>

section \<open>Records of server.h\<close>

type_synonym dev_ptr = nat
type_synonym cli_ptr = nat

record client_t =
  sa :: sockaddr_in
  last_heard_from :: int
  devices_connected :: "dev_ptr list"

record device_t =
  device_name :: "string option"
  device_description :: "string option"
  link_up_command :: "string option"
  link_down_command :: "string option"
  link_force_down_command :: "string option"
  status :: device_status_t
  connect_time :: int
  clients_connected :: "cli_ptr list"
  retries :: int

record server_conf =
  g_config_file :: "string option"
  g_fork :: int
  g_debug :: int
  g_poll_time :: int
  g_srv_inaddr :: "string option"
  g_srv_port :: port
  g_multicast_group :: string
  g_multicast_port :: port
  g_client_timeout :: int
  g_retries :: int
  g_connect_timeout :: int
  g_disconnect_timeout :: int

text \<open>The defaults of \<open>server.h\<close>, as \<open>read_config.c\<close> initialises the variables.\<close>

definition default_conf :: server_conf where
  "default_conf = \<lparr>
     g_config_file = Some ''/etc/link_server.conf'',
     g_fork = 1,
     g_debug = 0,
     g_poll_time = 5,
     g_srv_inaddr = None,
     g_srv_port = 9876,
     g_multicast_group = ''239.255.42.42'',
     g_multicast_port = 6789,
     g_client_timeout = 2 * 60 * 20,
     g_retries = 2,
     g_connect_timeout = 60,
     g_disconnect_timeout = 60\<rparr>"

record server = io +
  conf :: server_conf
  g_devices :: "dev_ptr list"
  g_clients :: "cli_ptr list"
  device_at :: "dev_ptr \<Rightarrow> device_t"
  client_at :: "cli_ptr \<Rightarrow> client_t"
  client_live :: "cli_ptr \<Rightarrow> bool"
  next_ptr :: nat
  g_keep_going :: bool
  exited :: bool

section \<open>Writing through a pointer\<close>

definition upd_device :: "dev_ptr \<Rightarrow> (device_t \<Rightarrow> device_t) \<Rightarrow> server \<Rightarrow> server" where
  "upd_device d f s = s\<lparr>device_at := (device_at s)(d := f (device_at s d))\<rparr>"

definition upd_client :: "cli_ptr \<Rightarrow> (client_t \<Rightarrow> client_t) \<Rightarrow> server \<Rightarrow> server" where
  "upd_client c f s = s\<lparr>client_at := (client_at s)(c := f (client_at s c))\<rparr>"

lemma upd_device_simps [simp]:
  "device_at (upd_device d f s) = (device_at s)(d := f (device_at s d))"
  "client_at (upd_device d f s) = client_at s"
  "g_devices (upd_device d f s) = g_devices s"
  "g_clients (upd_device d f s) = g_clients s"
  "client_live (upd_device d f s) = client_live s"
  "next_ptr (upd_device d f s) = next_ptr s"
  "conf (upd_device d f s) = conf s"
  "g_keep_going (upd_device d f s) = g_keep_going s"
  "exited (upd_device d f s) = exited s"
  "ub (upd_device d f s) = ub s"
  "errno (upd_device d f s) = errno s"
  "tick (upd_device d f s) = tick s"
  "trace (upd_device d f s) = trace s"
  by (simp_all add: upd_device_def)

lemma upd_client_simps [simp]:
  "client_at (upd_client c g s) = (client_at s)(c := g (client_at s c))"
  "device_at (upd_client c g s) = device_at s"
  "g_devices (upd_client c g s) = g_devices s"
  "g_clients (upd_client c g s) = g_clients s"
  "client_live (upd_client c g s) = client_live s"
  "next_ptr (upd_client c g s) = next_ptr s"
  "conf (upd_client c g s) = conf s"
  "g_keep_going (upd_client c g s) = g_keep_going s"
  "exited (upd_client c g s) = exited s"
  "ub (upd_client c g s) = ub s"
  "errno (upd_client c g s) = errno s"
  "tick (upd_client c g s) = tick s"
  "trace (upd_client c g s) = trace s"
  by (simp_all add: upd_client_def)

text \<open>States with the same core agree on every variable of the server.\<close>

lemma same_core_fields:
  assumes "same_core s t"
  shows "conf t = conf (s :: server)" "g_devices t = g_devices s" "g_clients t = g_clients s"
    "device_at t = device_at s" "client_at t = client_at s" "client_live t = client_live s"
    "next_ptr t = next_ptr s" "g_keep_going t = g_keep_going s" "exited t = exited s"
  using assms by (cases s; cases t; simp add: same_core_def)+

lemmas server_fields_io [simp] =
  same_core_fields [of s "set_errno e s" for s e, simplified]
  same_core_fields [of s "snd (time_now E s)" for s E, simplified]
  same_core_fields [of s "snd (malloc E s)" for s E, simplified]
  same_core_fields [of s "snd (system_call E c s)" for s E c, simplified]
  same_core_fields [of s "snd (sendto E a m s)" for s E a m, simplified]
  same_core_fields [of s "sleep n s" for s n, simplified]
  same_core_fields [of s "fits k m s" for s k m, simplified]
  same_core_fields [of s "undefined_if b s" for s b, simplified]

lemma same_core_iff:
  "same_core s t \<longleftrightarrow> conf t = conf (s :: server) \<and> g_devices t = g_devices s
     \<and> g_clients t = g_clients s \<and> device_at t = device_at s \<and> client_at t = client_at s
     \<and> client_live t = client_live s \<and> next_ptr t = next_ptr s
     \<and> g_keep_going t = g_keep_going s \<and> exited t = exited s"
  by (cases s; cases t) (auto simp: same_core_def)

text \<open>A \<open>device_t\<close> after \<open>memset (_, 0, sizeof (device_t))\<close>.\<close>

definition zero_device :: device_t where
  "zero_device = \<lparr>device_name = None, device_description = None, link_up_command = None,
     link_down_command = None, link_force_down_command = None, status = LINK_DOWN,
     connect_time = 0, clients_connected = [], retries = 0\<rparr>"

definition zero_client :: client_t where
  "zero_client = \<lparr>sa = \<lparr>sin_addr = 0, sin_port = 0\<rparr>, last_heard_from = 0, devices_connected = []\<rparr>"

text \<open>The state in which \<open>main\<close> starts, before the configuration is read.\<close>

definition boot :: server where
  "boot = \<lparr>errno = E0, tick = 0, trace = [], ub = False, conf = default_conf,
     g_devices = [], g_clients = [], device_at = (\<lambda>_. zero_device), client_at = (\<lambda>_. zero_client),
     client_live = (\<lambda>_. False), next_ptr = 1, g_keep_going = True, exited = False\<rparr>"

section \<open>Well-formed states\<close>

text \<open>
  The invariant of the two stores. \<open>wf_devices\<close>: the global list holds every device once,
  names are set and tell devices apart. \<open>wf_clients\<close>: the global list holds live clients,
  each once, and addresses tell them apart. \<open>wf_links\<close>: a list hanging off a client or a
  device has no repetitions and holds members of the global lists only, so no list
  holds a freed client.
\<close>

definition wf_devices :: "server \<Rightarrow> bool" where
  "wf_devices s \<longleftrightarrow> distinct (g_devices s)
     \<and> (\<forall>d \<in> set (g_devices s). device_name (device_at s d) \<noteq> None)
     \<and> inj_on (\<lambda>d. device_name (device_at s d)) (set (g_devices s))"

definition wf_clients :: "server \<Rightarrow> bool" where
  "wf_clients s \<longleftrightarrow> distinct (g_clients s)
     \<and> (\<forall>c \<in> set (g_clients s). client_live s c \<and> c < next_ptr s)
     \<and> inj_on (\<lambda>c. sin_addr (sa (client_at s c))) (set (g_clients s))"

definition wf_links :: "server \<Rightarrow> bool" where
  "wf_links s \<longleftrightarrow>
     (\<forall>d \<in> set (g_devices s). distinct (clients_connected (device_at s d))
        \<and> set (clients_connected (device_at s d)) \<subseteq> set (g_clients s))
   \<and> (\<forall>c \<in> set (g_clients s). distinct (devices_connected (client_at s c))
        \<and> set (devices_connected (client_at s c)) \<subseteq> set (g_devices s))"

definition wf_server :: "server \<Rightarrow> bool" where
  "wf_server s \<longleftrightarrow> wf_devices s \<and> wf_clients s \<and> wf_links s"

lemmas wf_defs = wf_server_def wf_devices_def wf_clients_def wf_links_def

lemma wf_boot: "wf_server boot"
  by (simp add: wf_defs boot_def)

lemma wf_same_core: "same_core s t \<Longrightarrow> wf_server s \<Longrightarrow> wf_server t"
  by (simp add: wf_defs same_core_iff)

lemma wf_same_core_eq: "same_core s t \<Longrightarrow> wf_server t = wf_server s"
  by (simp add: wf_defs same_core_iff)

lemma wf_io [simp]:
  "wf_server (set_errno e s) = wf_server s"
  "wf_server (snd (time_now E s)) = wf_server s"
  "wf_server (snd (malloc E s)) = wf_server s"
  "wf_server (snd (system_call E c s)) = wf_server s"
  "wf_server (snd (sendto E a m s)) = wf_server s"
  "wf_server (sleep n s) = wf_server s"
  "wf_server (fits k m s) = wf_server s"
  "wf_server (undefined_if b s) = wf_server s"
  by (rule wf_same_core_eq; simp)+

text \<open>Writing a device's bookkeeping fields, or emptying its client list, keeps the invariant.\<close>

lemma wf_upd_device:
  assumes "wf_server s" "device_name (f (device_at s d)) = device_name (device_at s d)"
    "clients_connected (f (device_at s d)) = clients_connected (device_at s d)
     \<or> clients_connected (f (device_at s d)) = []"
  shows "wf_server (upd_device d f s)"
proof -
  let ?t = "upd_device d f s"
  have names: "device_name (device_at ?t e) = device_name (device_at s e)" for e
    using assms(2) by simp
  have cc: "clients_connected (device_at ?t e) = clients_connected (device_at s e)
      \<or> clients_connected (device_at ?t e) = []" for e
    using assms(3) by simp
  have "wf_devices ?t"
    unfolding wf_devices_def names using assms(1) by (simp add: wf_server_def wf_devices_def)
  moreover have "wf_clients ?t" using assms(1) by (simp add: wf_server_def wf_clients_def)
  moreover have "distinct (clients_connected (device_at ?t e))
      \<and> set (clients_connected (device_at ?t e)) \<subseteq> set (g_clients s)" if "e \<in> set (g_devices s)" for e
  proof -
    have "distinct (clients_connected (device_at s e))
      \<and> set (clients_connected (device_at s e)) \<subseteq> set (g_clients s)"
      using that assms(1) by (simp add: wf_server_def wf_links_def)
    with cc [of e] show ?thesis by fastforce
  qed
  ultimately show ?thesis using assms(1) by (simp add: wf_server_def wf_links_def)
qed

lemma wf_upd_device_simps [simp]:
  "wf_server s \<Longrightarrow> wf_server (upd_device d (clients_connected_update (\<lambda>_. [])) s)"
  "wf_server s \<Longrightarrow> wf_server (upd_device d (retries_update f) s)"
  "wf_server s \<Longrightarrow> wf_server (upd_device d (connect_time_update g) s)"
  "wf_server s \<Longrightarrow> wf_server (upd_device d (status_update h) s)"
  by (rule wf_upd_device; simp)+

text \<open>Replacing the list that hangs off a device or a client.\<close>

lemma wf_set_clients:
  assumes "wf_server s" "distinct cs" "set cs \<subseteq> set (g_clients s)"
  shows "wf_server (upd_device d (clients_connected_update (\<lambda>_. cs)) s)"
proof -
  let ?t = "upd_device d (clients_connected_update (\<lambda>_. cs)) s"
  have names: "device_name (device_at ?t e) = device_name (device_at s e)" for e by simp
  have "wf_devices ?t"
    unfolding wf_devices_def names using assms(1) by (simp add: wf_server_def wf_devices_def)
  then show ?thesis using assms by (auto simp: wf_server_def wf_clients_def wf_links_def)
qed

lemma wf_set_devices:
  assumes "wf_server s" "distinct ds" "set ds \<subseteq> set (g_devices s)"
  shows "wf_server (upd_client c (devices_connected_update (\<lambda>_. ds)) s)"
proof -
  let ?t = "upd_client c (devices_connected_update (\<lambda>_. ds)) s"
  have addrs: "sa (client_at ?t e) = sa (client_at s e)" for e by simp
  have "wf_clients ?t"
    unfolding wf_clients_def addrs using assms(1) by (simp add: wf_server_def wf_clients_def)
  then show ?thesis using assms by (auto simp: wf_server_def wf_devices_def wf_links_def)
qed

text \<open>
  The two directions agree: a client is in a device's list iff the device is in the
  client's.
\<close>

definition symmetric_links :: "server \<Rightarrow> bool" where
  "symmetric_links s \<longleftrightarrow> (\<forall>c \<in> set (g_clients s). \<forall>d \<in> set (g_devices s).
     c \<in> set (clients_connected (device_at s d)) \<longleftrightarrow> d \<in> set (devices_connected (client_at s c)))"

text \<open>The same for all pairs but some, for the middle of an operation.\<close>

definition symmetric_except :: "(cli_ptr \<Rightarrow> dev_ptr \<Rightarrow> bool) \<Rightarrow> server \<Rightarrow> bool" where
  "symmetric_except P s \<longleftrightarrow> (\<forall>c \<in> set (g_clients s). \<forall>d \<in> set (g_devices s). \<not> P c d \<longrightarrow>
     (c \<in> set (clients_connected (device_at s d)) \<longleftrightarrow> d \<in> set (devices_connected (client_at s c))))"

lemma symmetric_except_none: "symmetric_except (\<lambda>_ _. False) s = symmetric_links s"
  by (simp add: symmetric_except_def symmetric_links_def)

lemma symmetric_exceptI: "symmetric_links s \<Longrightarrow> symmetric_except P s"
  by (simp add: symmetric_except_def symmetric_links_def)

text \<open>A device is up or on its way up exactly when some client wants it.\<close>

definition demand_matches :: "server \<Rightarrow> bool" where
  "demand_matches s \<longleftrightarrow> (\<forall>d \<in> set (g_devices s).
     (clients_connected (device_at s d) \<noteq> []) = (status (device_at s d) \<in> {LINK_UP, LINK_CONNECTING}))"

text \<open>A device on its way down has no clients (in every environment).\<close>

definition idle_when_disconnecting :: "server \<Rightarrow> bool" where
  "idle_when_disconnecting s \<longleftrightarrow> (\<forall>d \<in> set (g_devices s).
     status (device_at s d) = LINK_DISCONNECTING \<longrightarrow> clients_connected (device_at s d) = [])"

lemma same_core_invariants:
  assumes "same_core s t"
  shows "symmetric_links t = symmetric_links s" "symmetric_except P t = symmetric_except P s" "demand_matches t = demand_matches s"
    "idle_when_disconnecting t = idle_when_disconnecting s"
  using assms by (simp_all add: same_core_iff symmetric_links_def symmetric_except_def demand_matches_def
      idle_when_disconnecting_def)

lemma wf_connected_client:
  "wf_server s \<Longrightarrow> d \<in> set (g_devices s) \<Longrightarrow> c \<in> set (clients_connected (device_at s d)) \<Longrightarrow>
     c \<in> set (g_clients s) \<and> client_live s c"
  by (auto simp: wf_defs)

lemma wf_connected_device:
  "wf_server s \<Longrightarrow> c \<in> set (g_clients s) \<Longrightarrow> d \<in> set (devices_connected (client_at s c)) \<Longrightarrow>
     d \<in> set (g_devices s)"
  by (auto simp: wf_defs)

end
