(* ===== verification/Pointer_List.thy ===== *)
theory Pointer_List
  imports Unix_IO
begin

text \<open>
  The contract of the linked lists of pointers. Both programs keep devices, clients and
  servers in singly linked lists with the same three operations: look an entry up by its
  key, append an entry unless its key is present, and unlink an entry. What the callers
  rely on is stated once, as two locales, and the consequences are proved once inside
  them: \<open>pointer_list_lookup\<close> for \<open>get\<close> and \<open>add\<close>, extended by \<open>pointer_list\<close> with \<open>rm\<close>.
  The theories that model the operations interpret the locales.
\<close>

locale pointer_list_lookup =
  fixes key :: "'a io_scheme \<Rightarrow> 'p \<Rightarrow> 'k"
    and get :: "'p list \<Rightarrow> 'k \<Rightarrow> 'a io_scheme \<Rightarrow> 'p option \<times> 'a io_scheme"
    and add :: "env \<Rightarrow> 'p list \<Rightarrow> 'p \<Rightarrow> 'a io_scheme \<Rightarrow> int \<times> 'p list \<times> 'a io_scheme"
  assumes key_core: "same_core s t \<Longrightarrow> key t = key s"
    and get_found: "List.find (\<lambda>p. key s p = k) xs = Some p \<Longrightarrow> get xs k s = (Some p, s)"
    and get_missing: "List.find (\<lambda>p. key s p = k) xs = None \<Longrightarrow> get xs k s = (None, set_errno ENODEV s)"
    and add_present: "p \<in> set xs \<Longrightarrow> key s p = key s q \<Longrightarrow>
      add E xs q s = (-1, xs, set_errno EALREADY s)"
    and add_absent: "(\<And>p. p \<in> set xs \<Longrightarrow> key s p \<noteq> key s q) \<Longrightarrow>
      add E xs q s = (case malloc E (set_errno ENODEV s) of
         (ok, t) \<Rightarrow> if ok then (0, xs @ [q], t) else (-1, xs, t))"
begin

lemma get_core [simp]: "same_core s (snd (get xs k s))"
  by (cases "List.find (\<lambda>p. key s p = k) xs") (simp_all add: get_found get_missing)

lemma get_result: "fst (get xs k s) = List.find (\<lambda>p. key s p = k) xs"
  by (cases "List.find (\<lambda>p. key s p = k) xs") (simp_all add: get_found get_missing)

lemma get_Some_iff:
  assumes "inj_on (key s) (set xs)"
  shows "fst (get xs k s) = Some p \<longleftrightarrow> p \<in> set xs \<and> key s p = k"
proof
  assume "fst (get xs k s) = Some p"
  then show "p \<in> set xs \<and> key s p = k" by (simp add: get_result) (auto dest: find_Some_set)
next
  assume p: "p \<in> set xs \<and> key s p = k"
  have "List.find (\<lambda>q. key s q = k) xs = Some p"
  proof (rule find_unique)
    show "q = p" if "q \<in> set xs" "key s q = k" for q
      using that p assms by (auto dest: inj_onD)
  qed (use p in auto)
  then show "fst (get xs k s) = Some p" by (simp add: get_result)
qed

lemma get_None_iff: "fst (get xs k s) = None \<longleftrightarrow> (\<forall>p \<in> set xs. key s p \<noteq> k)"
  by (simp add: get_result find_None_set)

lemma add_cases:
  obtains (present) p where "p \<in> set xs" "key s p = key s q"
      "add E xs q s = (-1, xs, set_errno EALREADY s)"
  | (appended) t where "\<And>p. p \<in> set xs \<Longrightarrow> key s p \<noteq> key s q" "same_core s t" "ub t = ub s"
      "trace t = trace s" "add E xs q s = (0, xs @ [q], t)"
  | (no_memory) t where "\<And>p. p \<in> set xs \<Longrightarrow> key s p \<noteq> key s q" "same_core s t" "ub t = ub s"
      "trace t = trace s" "\<not> e_malloc E (tick s)" "errno t = ENOMEM" "add E xs q s = (-1, xs, t)"
proof (cases "\<exists>p \<in> set xs. key s p = key s q")
  case True
  then show ?thesis using add_present present by blast
next
  case False
  then have absent: "\<And>p. p \<in> set xs \<Longrightarrow> key s p \<noteq> key s q" by blast
  let ?t = "snd (malloc E (set_errno ENODEV s))"
  have eq: "add E xs q s = (if e_malloc E (tick s) then (0, xs @ [q], ?t) else (-1, xs, ?t))"
    using add_absent [OF absent] by (simp add: malloc_def Let_def set_errno_def)
  show ?thesis
  proof (cases "e_malloc E (tick s)")
    case True
    with eq absent show ?thesis by (intro appended [of ?t]) simp_all
  next
    case False
    with eq absent show ?thesis by (intro no_memory [of ?t]) simp_all
  qed
qed

lemma add_core: "same_core s (snd (snd (add E xs q s)))"
  by (cases rule: add_cases [of xs s q E]) auto

lemma add_ub: "ub (snd (snd (add E xs q s))) = ub s"
  by (cases rule: add_cases [of xs s q E]) auto

lemma add_set: "set (fst (snd (add E xs q s))) \<subseteq> insert q (set xs)"
  by (cases rule: add_cases [of xs s q E]) auto

lemma add_keeps: "set xs \<subseteq> set (fst (snd (add E xs q s)))"
  by (cases rule: add_cases [of xs s q E]) auto

lemma add_distinct: "distinct xs \<Longrightarrow> distinct (fst (snd (add E xs q s)))"
  by (cases rule: add_cases [of xs s q E]) auto

lemma add_keys_distinct:
  "inj_on (key s) (set xs) \<Longrightarrow> inj_on (key s) (set (fst (snd (add E xs q s))))"
proof (cases rule: add_cases [of xs s q E])
  case (appended t)
  assume "inj_on (key s) (set xs)"
  moreover have "key s q \<notin> key s ` (set xs - {q})" using appended(1) by force
  ultimately show ?thesis using appended(5) by simp
qed simp_all

text \<open>What was added is found, and nothing else found before is lost.\<close>

lemma get_after_add:
  assumes "inj_on (key s) (set xs)" "fst (add E xs q s) = 0"
  shows "fst (get (fst (snd (add E xs q s))) (key s q) (snd (snd (add E xs q s)))) = Some q"
proof (cases rule: add_cases [of xs s q E])
  case (appended t)
  then have "key t = key s" by (simp add: key_core)
  then have "List.find (\<lambda>p. key t p = key s q) (xs @ [q]) = Some q"
    using appended(1) by (subst find_append_None) (auto simp: find_None_set)
  then show ?thesis using appended(5) by (simp add: get_result)
qed (use assms in simp_all)

end

locale pointer_list = pointer_list_lookup key get add
  for key :: "'a io_scheme \<Rightarrow> 'p \<Rightarrow> 'k"
    and get :: "'p list \<Rightarrow> 'k \<Rightarrow> 'a io_scheme \<Rightarrow> 'p option \<times> 'a io_scheme"
    and add :: "env \<Rightarrow> 'p list \<Rightarrow> 'p \<Rightarrow> 'a io_scheme \<Rightarrow> int \<times> 'p list \<times> 'a io_scheme" +
  fixes rm :: "'p list \<Rightarrow> 'p \<Rightarrow> 'a io_scheme \<Rightarrow> int \<times> 'p list \<times> 'a io_scheme"
  assumes rm_hit: "p \<in> set xs \<Longrightarrow> rm xs p s = (0, remove1 p xs, s)"
    and rm_miss: "p \<notin> set xs \<Longrightarrow> rm xs p s = (-1, xs, set_errno ENODEV s)"
begin

lemma rm_result: "rm xs p s =
    (if p \<in> set xs then (0, remove1 p xs, s) else (-1, xs, set_errno ENODEV s))"
  by (simp add: rm_hit rm_miss)

lemma rm_core [simp]: "same_core s (snd (snd (rm xs p s)))"
  by (simp add: rm_result)

lemma rm_list [simp]: "fst (snd (rm xs p s)) = remove1 p xs"
  by (simp add: rm_result)

lemma rm_ub [simp]: "ub (snd (snd (rm xs p s))) = ub s"
  by (simp add: rm_result)

lemma rm_head: "rm (p # xs) p s = (0, xs, s)"
  by (simp add: rm_result)

text \<open>An entry is gone once it is unlinked, and every other entry is still found.\<close>

lemma get_after_rm:
  assumes "distinct xs" "inj_on (key s) (set xs)" "p \<in> set xs"
  shows "fst (get (fst (snd (rm xs p s))) (key s p) s) = None"
    and "q \<in> set xs \<Longrightarrow> q \<noteq> p \<Longrightarrow> fst (get (fst (snd (rm xs p s))) (key s q) s) = Some q"
proof -
  show "fst (get (fst (snd (rm xs p s))) (key s p) s) = None"
    using assms by (auto simp: get_None_iff dest: inj_onD)
  assume q: "q \<in> set xs" "q \<noteq> p"
  have "inj_on (key s) (set (remove1 p xs))"
    by (rule inj_on_subset [OF assms(2)]) (use assms(1) in auto)
  with q assms(1) show "fst (get (fst (snd (rm xs p s))) (key s q) s) = Some q"
    by (simp add: get_Some_iff)
qed

text \<open>Unlinking a freshly added entry gives the list back.\<close>

lemma rm_after_add:
  assumes "fst (add E xs q s) = 0"
  shows "fst (snd (rm (fst (snd (add E xs q s))) q t)) = xs"
proof (cases rule: add_cases [of xs s q E])
  case (appended u)
  then have "q \<notin> set xs" by blast
  then have "remove1 q (xs @ [q]) = xs" by (simp add: remove1_append)
  then show ?thesis using appended(5) by simp
qed (use assms in simp_all)

end

end
