(* ===== verification/Server_Lists.thy ===== *)
theory Server_Lists
  imports Server_State Pointer_List
begin

text \<open>
  The list functions of \<open>server/list_fns.c\<close>: \<open>get_\<close>, \<open>add_\<close> and \<open>rm_\<close> for devices and for
  clients. A parameter \<open>pp\<close> of type pointer to list head becomes the list passed in and the
  list returned. Both families are interpretations of the locale \<open>pointer_list\<close>.
\<close>

section \<open>Devices\<close>

text \<open>
  \<open>strcmp\<close> on the names; no caller passes NULL and no device of a list has a NULL name
  (\<open>wf_devices\<close>).
\<close>

fun get_device :: "dev_ptr list \<Rightarrow> string option \<Rightarrow> server \<Rightarrow> dev_ptr option \<times> server" where
  "get_device [] nm s = (None, set_errno ENODEV s)"
| "get_device (d # ds) nm s =
     (if device_name (device_at s d) = nm then (Some d, s) else get_device ds nm s)"

text \<open>
  The loop to the last node compares the data of every node but the last with the new
  device, hence \<open>butlast\<close>.
\<close>

definition add_device :: "env \<Rightarrow> dev_ptr list \<Rightarrow> dev_ptr \<Rightarrow> server \<Rightarrow> int \<times> dev_ptr list \<times> server" where
  "add_device E ds new_device s =
     (case get_device ds (device_name (device_at s new_device)) s of
        (Some _, s) \<Rightarrow> (-1, ds, set_errno EALREADY s)
      | (None, s) \<Rightarrow>
          (case malloc E s of (ok, s) \<Rightarrow>
             if \<not> ok then (-1, ds, s)
             else if new_device \<in> set (butlast ds) then (-1, ds, set_errno EALREADY s)
             else (0, ds @ [new_device], s)))"

fun rm_device :: "dev_ptr list \<Rightarrow> dev_ptr \<Rightarrow> server \<Rightarrow> int \<times> dev_ptr list \<times> server" where
  "rm_device [] dev s = (-1, [], set_errno ENODEV s)"
| "rm_device (d # ds) dev s =
     (if d = dev then (0, ds, s)
      else (case rm_device ds dev s of (r, ds', s') \<Rightarrow> (r, d # ds', s')))"

section \<open>Clients\<close>

fun get_client :: "cli_ptr list \<Rightarrow> in_addr \<Rightarrow> server \<Rightarrow> cli_ptr option \<times> server" where
  "get_client [] a s = (None, set_errno ENODEV s)"
| "get_client (c # cs) a s =
     (if sin_addr (sa (client_at s c)) = a then (Some c, s) else get_client cs a s)"

definition add_client :: "env \<Rightarrow> cli_ptr list \<Rightarrow> cli_ptr \<Rightarrow> server \<Rightarrow> int \<times> cli_ptr list \<times> server" where
  "add_client E cs new_client s =
     (case get_client cs (sin_addr (sa (client_at s new_client))) s of
        (Some _, s) \<Rightarrow> (-1, cs, set_errno EALREADY s)
      | (None, s) \<Rightarrow>
          (case malloc E s of (ok, s) \<Rightarrow>
             if \<not> ok then (-1, cs, s)
             else if new_client \<in> set (butlast cs) then (-1, cs, set_errno EALREADY s)
             else (0, cs @ [new_client], s)))"

fun rm_client :: "cli_ptr list \<Rightarrow> cli_ptr \<Rightarrow> server \<Rightarrow> int \<times> cli_ptr list \<times> server" where
  "rm_client [] client s = (-1, [], set_errno ENODEV s)"
| "rm_client (c # cs) client s =
     (if c = client then (0, cs, s)
      else (case rm_client cs client s of (r, cs', s') \<Rightarrow> (r, c # cs', s')))"

section \<open>The contract holds\<close>

abbreviation device_key :: "server \<Rightarrow> dev_ptr \<Rightarrow> string option" where
  "device_key s d \<equiv> device_name (device_at s d)"

abbreviation client_key :: "server \<Rightarrow> cli_ptr \<Rightarrow> in_addr" where
  "client_key s c \<equiv> sin_addr (sa (client_at s c))"

lemma get_device_find:
  "get_device ds nm s = (case List.find (\<lambda>d. device_key s d = nm) ds of
     Some d \<Rightarrow> (Some d, s) | None \<Rightarrow> (None, set_errno ENODEV s))"
  by (induction ds) auto

lemma get_client_find:
  "get_client cs a s = (case List.find (\<lambda>c. client_key s c = a) cs of
     Some c \<Rightarrow> (Some c, s) | None \<Rightarrow> (None, set_errno ENODEV s))"
  by (induction cs) auto

lemma rm_device_remove1: "rm_device ds d s =
    (if d \<in> set ds then (0, remove1 d ds, s) else (-1, ds, set_errno ENODEV s))"
  by (induction ds) auto

lemma rm_client_remove1: "rm_client cs c s =
    (if c \<in> set cs then (0, remove1 c cs, s) else (-1, cs, set_errno ENODEV s))"
  by (induction cs) auto

lemma add_device_present:
  assumes "p \<in> set ds" "device_key s p = device_key s q"
  shows "add_device E ds q s = (-1, ds, set_errno EALREADY s)"
proof -
  have "List.find (\<lambda>d. device_key s d = device_key s q) ds \<noteq> None"
    using assms by (auto simp: find_None_set)
  then show ?thesis by (auto simp: add_device_def get_device_find)
qed

lemma add_device_absent:
  assumes "\<And>p. p \<in> set ds \<Longrightarrow> device_key s p \<noteq> device_key s q"
  shows "add_device E ds q s = (case malloc E (set_errno ENODEV s) of
    (ok, t) \<Rightarrow> if ok then (0, ds @ [q], t) else (-1, ds, t))"
proof -
  have "List.find (\<lambda>d. device_key s d = device_key s q) ds = None"
    using assms by (simp add: find_None_set)
  moreover have "q \<notin> set (butlast ds)" using assms by (auto dest: set_butlast_subset)
  ultimately show ?thesis by (simp add: add_device_def get_device_find split: prod.splits)
qed

lemma add_client_present:
  assumes "p \<in> set cs" "client_key s p = client_key s q"
  shows "add_client E cs q s = (-1, cs, set_errno EALREADY s)"
proof -
  have "List.find (\<lambda>c. client_key s c = client_key s q) cs \<noteq> None"
    using assms by (auto simp: find_None_set)
  then show ?thesis by (auto simp: add_client_def get_client_find)
qed

lemma add_client_absent:
  assumes "\<And>p. p \<in> set cs \<Longrightarrow> client_key s p \<noteq> client_key s q"
  shows "add_client E cs q s = (case malloc E (set_errno ENODEV s) of
    (ok, t) \<Rightarrow> if ok then (0, cs @ [q], t) else (-1, cs, t))"
proof -
  have "List.find (\<lambda>c. client_key s c = client_key s q) cs = None"
    using assms by (simp add: find_None_set)
  moreover have "q \<notin> set (butlast cs)" using assms by (auto dest: set_butlast_subset)
  ultimately show ?thesis by (simp add: add_client_def get_client_find split: prod.splits)
qed

interpretation devs: pointer_list device_key get_device add_device rm_device
proof unfold_locales
  show "same_core s t \<Longrightarrow> device_key t = device_key s" for s t :: server
    by (simp add: same_core_fields)
qed (simp_all add: get_device_find add_device_present add_device_absent rm_device_remove1)

interpretation clis: pointer_list client_key get_client add_client rm_client
proof unfold_locales
  show "same_core s t \<Longrightarrow> client_key t = client_key s" for s t :: server
    by (simp add: same_core_fields)
qed (simp_all add: get_client_find add_client_present add_client_absent rm_client_remove1)

end
