(* ===== verification/Device_Control.thy ===== *)
theory Device_Control
  imports Server_Lists
begin

text \<open>
  The device state machine of \<open>server/list_fns.c\<close>: running the link commands
  (\<open>link_up\<close>, \<open>link_down\<close>, \<open>link_force_down\<close>), dropping the links between a device and
  its clients, and \<open>alter_device_status\<close>, which decides what a requested status change
  means in the current status. What all of these may do to the server's state is one
  predicate, \<open>device_effect\<close>; the locale \<open>device_operation\<close> draws the consequences.
\<close>

section \<open>Dropping links\<close>

text \<open>The loop frees the node at the head until the list is empty.\<close>

fun drop_client_nodes :: "cli_ptr list \<Rightarrow> server \<Rightarrow> int \<times> server" where
  "drop_client_nodes [] s = (0, s)"
| "drop_client_nodes (c # cs) s =
     (case rm_client (c # cs) c s of (r, _, s) \<Rightarrow>
        if r < 0 then (-1, s) else drop_client_nodes cs s)"

definition remove_all_clients_from_device :: "dev_ptr \<Rightarrow> server \<Rightarrow> int \<times> server" where
  "remove_all_clients_from_device d s =
     drop_client_nodes (clients_connected (device_at s d)) (upd_device d (clients_connected_update (\<lambda>_. [])) s)"

fun drop_device_nodes :: "dev_ptr list \<Rightarrow> server \<Rightarrow> int \<times> server" where
  "drop_device_nodes [] s = (0, s)"
| "drop_device_nodes (d # ds) s =
     (case rm_device (d # ds) d s of (r, _, s) \<Rightarrow>
        if r < 0 then (-1, s) else drop_device_nodes ds s)"

definition remove_all_devices_from_client :: "cli_ptr \<Rightarrow> server \<Rightarrow> int \<times> server" where
  "remove_all_devices_from_client c s =
     drop_device_nodes (devices_connected (client_at s c)) (upd_client c (devices_connected_update (\<lambda>_. [])) s)"

fun unlink_device_from :: "dev_ptr \<Rightarrow> cli_ptr list \<Rightarrow> server \<Rightarrow> int \<times> server" where
  "unlink_device_from d [] s = (0, s)"
| "unlink_device_from d (c # cs) s =
     (case rm_device (devices_connected (client_at s c)) d s of (r, ds, s) \<Rightarrow>
        let s = upd_client c (devices_connected_update (\<lambda>_. ds)) s in
        if r < 0 \<and> errno s \<noteq> ENODEV then (-1, s) else unlink_device_from d cs s)"

definition remove_device_from_all_clients :: "dev_ptr \<Rightarrow> server \<Rightarrow> int \<times> server" where
  "remove_device_from_all_clients d s = unlink_device_from d (g_clients s) s"

section \<open>Running the link commands\<close>

text \<open>The device pointer is NULL-checked by the code, so it is an option here.\<close>

definition link_up :: "env \<Rightarrow> dev_ptr option \<Rightarrow> server \<Rightarrow> int \<times> server" where
  "link_up E dp s = (case dp of
     None \<Rightarrow> (-1, s)
   | Some d \<Rightarrow>
       (case system_call E (link_up_command (device_at s d)) s of (r, s) \<Rightarrow>
          let retval = (if r = 127 then -1 else r) in
          if retval = 0
          then (case time_now E s of (t, s) \<Rightarrow> (retval, upd_device d (connect_time_update (\<lambda>_. t)) s))
          else (retval, s)))"

definition link_down :: "env \<Rightarrow> dev_ptr option \<Rightarrow> server \<Rightarrow> int \<times> server" where
  "link_down E dp s = (case dp of
     None \<Rightarrow> (-1, s)
   | Some d \<Rightarrow>
       (case system_call E (link_down_command (device_at s d)) s of (r, s) \<Rightarrow>
          let retval = (if r = 127 then -1 else r) in
          if retval = 0
          then (case time_now E s of (t, s) \<Rightarrow> (retval, upd_device d (connect_time_update (\<lambda>_. t)) s))
          else (retval, s)))"

definition link_force_down :: "env \<Rightarrow> dev_ptr option \<Rightarrow> server \<Rightarrow> int \<times> server" where
  "link_force_down E dp s = (case dp of
     None \<Rightarrow> (-1, s)
   | Some d \<Rightarrow>
       (case system_call E (link_force_down_command (device_at s d)) s of (r, s) \<Rightarrow>
          let retval = (if r = 127 then -1 else r) in
          if retval = 0
          then (case remove_all_clients_from_device d s of (r1, s) \<Rightarrow>
                 if r1 < 0 then (-1, s)
                 else (case remove_device_from_all_clients d s of (r2, s) \<Rightarrow>
                   if r2 < 0 then (-1, s) else (retval, s)))
          else (retval, s)))"

section \<open>alter_device_status\<close>

text \<open>
  One definition per value of \<open>new_status\<close>, in the code's \<open>switch\<close>, each a case distinction
  on the device's status. The recursive call for an exhausted device asks for \<open>LINK_DOWN\<close>,
  whose case does not recurse, so that case comes first. The \<open>default\<close> branches for values
  outside the enumeration have no counterpart. Each case ends with the common tail that
  writes the status.
\<close>

definition set_status :: "dev_ptr \<Rightarrow> device_status_t \<Rightarrow> server \<Rightarrow> server" where
  "set_status d st s = upd_device d (status_update (\<lambda>_. st)) s"

definition alter_to_down :: "env \<Rightarrow> dev_ptr \<Rightarrow> server \<Rightarrow> int \<times> server" where
  "alter_to_down E d s = (case status (device_at s d) of
     LINK_DISCONNECTING \<Rightarrow> (0, set_status d LINK_DOWN s)
   | _ \<Rightarrow> (case link_force_down E (Some d) s of (r, s) \<Rightarrow>
            if r < 0 then (-1, s) else (0, set_status d LINK_DOWN s)))"

text \<open>\<open>case LINK_CONNECTING\<close> of the inner switch, which the other two cases fall into.\<close>

definition attempt_connect :: "env \<Rightarrow> dev_ptr \<Rightarrow> server \<Rightarrow> int \<times> server" where
  "attempt_connect E d s = (
     let left = retries (device_at s d);
         s = upd_device d (retries_update (\<lambda>r. r - 1)) s
     in if left < 0 then alter_to_down E d s
        else (case link_up E (Some d) s of (r, s) \<Rightarrow>
               if r < 0 then (-1, s)
               else (case time_now E s of (t, s) \<Rightarrow>
                 (0, set_status d LINK_CONNECTING (upd_device d (connect_time_update (\<lambda>_. t)) s)))))"

definition reset_retries :: "dev_ptr \<Rightarrow> server \<Rightarrow> server" where
  "reset_retries d s = upd_device d (retries_update (\<lambda>_. g_retries (conf s))) s"

definition alter_to_connecting :: "env \<Rightarrow> dev_ptr \<Rightarrow> server \<Rightarrow> int \<times> server" where
  "alter_to_connecting E d s = (case status (device_at s d) of
     LINK_DISCONNECTING \<Rightarrow>
       (case link_force_down E (Some d) s of (r, s) \<Rightarrow>
          if r < 0 then (-1, s) else attempt_connect E d (reset_retries d (sleep 2 s)))
   | LINK_DOWN \<Rightarrow> attempt_connect E d (reset_retries d s)
   | LINK_CONNECTING \<Rightarrow> attempt_connect E d s
   | LINK_UP \<Rightarrow> (-1, set_errno EINVAL s))"

definition alter_to_disconnecting :: "env \<Rightarrow> dev_ptr \<Rightarrow> server \<Rightarrow> int \<times> server" where
  "alter_to_disconnecting E d s = (case status (device_at s d) of
     LINK_CONNECTING \<Rightarrow>
       (case link_force_down E (Some d) s of (r, s) \<Rightarrow>
          if r < 0 then (-1, s) else (0, set_status d LINK_DISCONNECTING s))
   | LINK_DISCONNECTING \<Rightarrow>
       (case link_force_down E (Some d) s of (r, s) \<Rightarrow>
          if r < 0 then (-1, s) else (0, set_status d LINK_DOWN s))
   | LINK_UP \<Rightarrow>
       (case link_down E (Some d) s of (r, s) \<Rightarrow>
          if r < 0 then (-1, s) else (0, set_status d LINK_DISCONNECTING s))
   | LINK_DOWN \<Rightarrow> (-1, set_errno EINVAL s))"

definition alter_to_up :: "env \<Rightarrow> dev_ptr \<Rightarrow> server \<Rightarrow> int \<times> server" where
  "alter_to_up E d s = (case status (device_at s d) of
     LINK_CONNECTING \<Rightarrow>
       (case time_now E s of (t, s) \<Rightarrow>
          (0, set_status d LINK_UP (upd_device d (connect_time_update (\<lambda>_. t)) s)))
   | _ \<Rightarrow> (-1, set_errno EINVAL s))"

definition alter_device_status :: "env \<Rightarrow> dev_ptr \<Rightarrow> device_status_t \<Rightarrow> server \<Rightarrow> int \<times> server" where
  "alter_device_status E d new_status s = (case new_status of
     LINK_CONNECTING \<Rightarrow> alter_to_connecting E d s
   | LINK_DISCONNECTING \<Rightarrow> alter_to_disconnecting E d s
   | LINK_UP \<Rightarrow> alter_to_up E d s
   | LINK_DOWN \<Rightarrow> alter_to_down E d s)"

section \<open>Closed forms\<close>

text \<open>
  The state after \<open>d\<close> lost all its clients and every client lost \<open>d\<close>.
\<close>

definition cleared :: "dev_ptr \<Rightarrow> server \<Rightarrow> server" where
  "cleared d s = s\<lparr>device_at := (device_at s)(d := (device_at s d)\<lparr>clients_connected := []\<rparr>),
     client_at := (\<lambda>c. if c \<in> set (g_clients s)
        then (client_at s c)\<lparr>devices_connected := removeAll d (devices_connected (client_at s c))\<rparr>
        else client_at s c)\<rparr>"

lemma drop_client_nodes_eq [effect_simps]: "drop_client_nodes cs s = (0, s)"
  by (induction cs) (simp_all add: clis.rm_head)

lemma drop_device_nodes_eq [effect_simps]: "drop_device_nodes ds s = (0, s)"
  by (induction ds) (simp_all add: devs.rm_head)

lemma remove_all_clients_from_device_eq [effect_simps]:
  "remove_all_clients_from_device d s = (0, upd_device d (clients_connected_update (\<lambda>_. [])) s)"
  by (simp add: remove_all_clients_from_device_def effect_simps)

lemma remove_all_devices_from_client_eq [effect_simps]:
  "remove_all_devices_from_client c s = (0, upd_client c (devices_connected_update (\<lambda>_. [])) s)"
  by (simp add: remove_all_devices_from_client_def effect_simps)

definition unlinked :: "dev_ptr \<Rightarrow> cli_ptr set \<Rightarrow> server \<Rightarrow> server" where
  "unlinked d C s = s\<lparr>client_at := (\<lambda>c. if c \<in> C
        then (client_at s c)\<lparr>devices_connected := removeAll d (devices_connected (client_at s c))\<rparr>
        else client_at s c)\<rparr>"

lemma unlinked_fields [simp]:
  "g_clients (unlinked d C s) = g_clients s" "g_devices (unlinked d C s) = g_devices s"
  "device_at (unlinked d C s) = device_at s" "ub (unlinked d C s) = ub s"
  "trace (unlinked d C s) = trace s"
  by (simp_all add: unlinked_def)

text \<open>
  Unlinking succeeds whatever the lists hold: the only failure of \<open>rm_device\<close> is
  \<open>ENODEV\<close>, which the loop ignores.
\<close>

lemma unlink_device_from_eq:
  assumes "distinct cs" "\<And>c. c \<in> set cs \<Longrightarrow> distinct (devices_connected (client_at s c))"
  shows "fst (unlink_device_from d cs s) = 0
     \<and> same_core (unlinked d (set cs) s) (snd (unlink_device_from d cs s))
     \<and> ub (snd (unlink_device_from d cs s)) = ub s
     \<and> trace (snd (unlink_device_from d cs s)) = trace s"
  using assms
proof (induction cs arbitrary: s)
  case Nil
  then show ?case by (simp add: unlinked_def)
next
  case (Cons c cs)
  let ?ds = "devices_connected (client_at s c)"
  let ?t = "upd_client c (devices_connected_update (\<lambda>_. remove1 d ?ds))
    (if d \<in> set ?ds then s else set_errno ENODEV s)"
  have step: "unlink_device_from d (c # cs) s = unlink_device_from d cs ?t"
    by (simp add: devs.rm_result Let_def)
  have dist: "\<And>c'. c' \<in> set cs \<Longrightarrow> distinct (devices_connected (client_at ?t c'))"
    using Cons.prems by (auto simp: set_errno_def)
  have ih: "fst (unlink_device_from d cs ?t) = 0
     \<and> same_core (unlinked d (set cs) ?t) (snd (unlink_device_from d cs ?t))
     \<and> ub (snd (unlink_device_from d cs ?t)) = ub ?t
     \<and> trace (snd (unlink_device_from d cs ?t)) = trace ?t"
    by (rule Cons.IH) (use Cons.prems(1) dist in simp_all)
  have "same_core (unlinked d (set (c # cs)) s) (unlinked d (set cs) ?t)"
    using Cons.prems
    by (auto simp: same_core_iff unlinked_def set_errno_def fun_eq_iff distinct_remove1_removeAll)
  with ih step show ?case by (auto intro: same_core_trans)
qed

lemma remove_device_from_all_clients_effect:
  assumes "wf_server s"
  shows "fst (remove_device_from_all_clients d s) = 0
     \<and> same_core (unlinked d (set (g_clients s)) s) (snd (remove_device_from_all_clients d s))
     \<and> ub (snd (remove_device_from_all_clients d s)) = ub s
     \<and> trace (snd (remove_device_from_all_clients d s)) = trace s"
  unfolding remove_device_from_all_clients_def
  by (rule unlink_device_from_eq) (use assms in \<open>auto simp: wf_defs\<close>)


section \<open>What an operation on one device may change\<close>

text \<open>
  The fields of a \<open>device_t\<close> that the configuration sets and nothing changes afterwards.
\<close>

definition same_config :: "device_t \<Rightarrow> device_t \<Rightarrow> bool" where
  "same_config x y \<longleftrightarrow> device_name y = device_name x \<and> device_description y = device_description x
     \<and> link_up_command y = link_up_command x \<and> link_down_command y = link_down_command x
     \<and> link_force_down_command y = link_force_down_command x"

definition links_kept :: "dev_ptr \<Rightarrow> server \<Rightarrow> server \<Rightarrow> bool" where
  "links_kept d s t \<longleftrightarrow> client_at t = client_at s
     \<and> clients_connected (device_at t d) = clients_connected (device_at s d)"

definition links_cleared :: "dev_ptr \<Rightarrow> server \<Rightarrow> server \<Rightarrow> bool" where
  "links_cleared d s t \<longleftrightarrow> client_at t = client_at (cleared d s) \<and> clients_connected (device_at t d) = []"

definition device_frame :: "dev_ptr \<Rightarrow> server \<Rightarrow> server \<Rightarrow> bool" where
  "device_frame d s t \<longleftrightarrow>
     conf t = conf s \<and> g_devices t = g_devices s \<and> g_clients t = g_clients s
   \<and> client_live t = client_live s \<and> next_ptr t = next_ptr s
   \<and> g_keep_going t = g_keep_going s \<and> exited t = exited s \<and> ub t = ub s
   \<and> (\<forall>e. e \<noteq> d \<longrightarrow> device_at t e = device_at s e)
   \<and> same_config (device_at s d) (device_at t d)"

definition device_effect :: "dev_ptr \<Rightarrow> server \<Rightarrow> server \<Rightarrow> bool" where
  "device_effect d s t \<longleftrightarrow> device_frame d s t \<and> (links_kept d s t \<or> links_cleared d s t)"

lemma same_config_refl [simp]: "same_config x x"
  by (simp add: same_config_def)

lemma same_config_trans: "same_config x y \<Longrightarrow> same_config y z \<Longrightarrow> same_config x z"
  by (simp add: same_config_def)

lemma same_config_upd [simp]:
  "same_config x (y\<lparr>status := st\<rparr>) = same_config x y"
  "same_config x (y\<lparr>connect_time := t\<rparr>) = same_config x y"
  "same_config x (y\<lparr>clients_connected := cs\<rparr>) = same_config x y"
  "same_config x (y\<lparr>retries := n\<rparr>) = same_config x y"
  by (simp_all add: same_config_def)

lemma device_frame_refl [simp]: "device_frame d s s"
  by (simp add: device_frame_def)

lemma device_frame_trans: "device_frame d s t \<Longrightarrow> device_frame d t u \<Longrightarrow> device_frame d s u"
  by (auto simp: device_frame_def intro: same_config_trans)

lemma device_effect_refl [simp]: "device_effect d s s"
  by (simp add: device_effect_def links_kept_def)

lemma cleared_twice:
  "g_clients t = g_clients s \<Longrightarrow> client_at t = client_at (cleared d s) \<Longrightarrow>
     client_at (cleared d t) = client_at (cleared d s)"
  by (auto simp: cleared_def fun_eq_iff)

lemma cleared_cong: "g_clients t = g_clients s \<Longrightarrow> client_at t = client_at s \<Longrightarrow>
     client_at (cleared d t) = client_at (cleared d s)"
  by (simp add: cleared_def fun_eq_iff)

lemma device_effect_trans:
  assumes "device_effect d s t" "device_effect d t u"
  shows "device_effect d s u"
proof -
  have g: "g_clients t = g_clients s" using assms(1) by (simp add: device_effect_def device_frame_def)
  have "links_kept d s u \<or> links_cleared d s u"
    using assms cleared_twice [OF g, of d] cleared_cong [OF g, of d]
    by (auto simp: device_effect_def links_kept_def links_cleared_def)
  then show ?thesis using assms by (auto simp: device_effect_def intro: device_frame_trans)
qed

text \<open>Steps of the runtime and writes to the device's own bookkeeping fields.\<close>

lemma device_effect_io:
  assumes "same_core s t" "ub t = ub s"
  shows "device_effect d s t"
  using assms same_core_fields [OF assms(1)]
  by (simp add: device_effect_def device_frame_def links_kept_def)

lemma device_effect_upd [simp]:
  "device_effect d s (upd_device d (status_update (\<lambda>_. st)) t) = device_effect d s t"
  "device_effect d s (upd_device d (connect_time_update (\<lambda>_. tm)) t) = device_effect d s t"
  "device_effect d s (upd_device d (retries_update f) t) = device_effect d s t"
  "device_effect d s (set_status d st t) = device_effect d s t"
  "device_effect d s (reset_retries d t) = device_effect d s t"
  by (auto simp: device_effect_def device_frame_def links_kept_def links_cleared_def
      same_config_def set_status_def reset_retries_def)

lemma device_effect_clear: "device_effect d s (upd_device d (clients_connected_update (\<lambda>_. []))
    (unlinked d (set (g_clients s)) s))"
  by (auto simp: device_effect_def device_frame_def links_cleared_def cleared_def unlinked_def)

lemma wf_device_effect:
  assumes "wf_server s" "device_effect d s t"
  shows "wf_server t"
proof -
  have names: "device_name (device_at t e) = device_name (device_at s e)" for e
    using assms(2) by (cases "e = d") (auto simp: device_effect_def device_frame_def same_config_def)
  have addrs: "sa (client_at t c) = sa (client_at s c)" for c
    using assms(2) by (auto simp: device_effect_def links_kept_def links_cleared_def cleared_def)
  have dc: "distinct (devices_connected (client_at s c)) \<Longrightarrow> distinct (devices_connected (client_at t c))"
    "set (devices_connected (client_at t c)) \<subseteq> set (devices_connected (client_at s c))" for c
    using assms(2)
    by (auto simp: device_effect_def links_kept_def links_cleared_def cleared_def distinct_removeAll
        split: if_splits)
  have cc: "clients_connected (device_at t e) = clients_connected (device_at s e)
      \<or> clients_connected (device_at t e) = []" for e
    using assms(2) by (cases "e = d")
      (auto simp: device_effect_def device_frame_def links_kept_def links_cleared_def)
  have globals: "g_devices t = g_devices s" "g_clients t = g_clients s" "client_live t = client_live s"
    "next_ptr t = next_ptr s" using assms(2) by (auto simp: device_effect_def device_frame_def)
  have "wf_devices t" "wf_clients t"
    using assms(1) by (simp_all add: wf_server_def wf_devices_def wf_clients_def globals names addrs)
  moreover have "distinct (clients_connected (device_at t e))
      \<and> set (clients_connected (device_at t e)) \<subseteq> set (g_clients t)" if "e \<in> set (g_devices t)" for e
    using cc [of e] that assms(1) globals
    by (elim disjE) (simp_all add: wf_server_def wf_links_def)
  moreover have "distinct (devices_connected (client_at t c))
      \<and> set (devices_connected (client_at t c)) \<subseteq> set (g_devices t)" if "c \<in> set (g_clients t)" for c
    using dc [of c] that assms(1) globals unfolding wf_server_def wf_links_def by (metis subset_trans)
  ultimately show ?thesis by (simp add: wf_server_def wf_links_def)
qed

section \<open>The contract of operations on one device\<close>

locale device_operation =
  fixes op_on :: "dev_ptr \<Rightarrow> server \<Rightarrow> int \<times> server"
  assumes effect: "wf_server s \<Longrightarrow> device_effect d s (snd (op_on d s))"
begin

lemma keeps_wf: "wf_server s \<Longrightarrow> wf_server (snd (op_on d s))"
  using wf_device_effect effect by blast

lemma keeps_lists: "wf_server s \<Longrightarrow> g_devices (snd (op_on d s)) = g_devices s
    \<and> g_clients (snd (op_on d s)) = g_clients s \<and> conf (snd (op_on d s)) = conf s"
  using effect by (auto simp: device_effect_def device_frame_def)

lemma keeps_other_devices: "wf_server s \<Longrightarrow> e \<noteq> d \<Longrightarrow> device_at (snd (op_on d s)) e = device_at s e"
  using effect by (auto simp: device_effect_def device_frame_def)

lemma keeps_ub: "wf_server s \<Longrightarrow> ub (snd (op_on d s)) = ub s"
  using effect by (auto simp: device_effect_def device_frame_def)

lemma keeps_symmetry_except:
  assumes "wf_server s" "symmetric_except P s"
  shows "symmetric_except P (snd (op_on d s))"
proof -
  let ?t = "snd (op_on d s)"
  have e: "device_effect d s ?t" by (rule effect [OF assms(1)])
  then have other: "\<And>e. e \<noteq> d \<Longrightarrow> device_at ?t e = device_at s e"
    and g: "g_devices ?t = g_devices s" "g_clients ?t = g_clients s"
    by (auto simp: device_effect_def device_frame_def)
  from e consider "links_kept d s ?t" | "links_cleared d s ?t" by (auto simp: device_effect_def)
  then show ?thesis
  proof cases
    case 1
    then have "clients_connected (device_at ?t e) = clients_connected (device_at s e)" for e
      using other by (cases "e = d") (auto simp: links_kept_def)
    with 1 assms(2) g show ?thesis by (simp add: symmetric_except_def links_kept_def)
  next
    case 2
    have "c \<in> set (clients_connected (device_at ?t e)) \<longleftrightarrow> e \<in> set (devices_connected (client_at ?t c))"
      if "c \<in> set (g_clients s)" "e \<in> set (g_devices s)" "\<not> P c e" for c e
      using 2 that other [of e] assms(2)
      by (cases "e = d") (auto simp: links_cleared_def cleared_def symmetric_except_def)
    with g show ?thesis by (simp add: symmetric_except_def)
  qed
qed

lemma keeps_symmetry:
  "wf_server s \<Longrightarrow> symmetric_links s \<Longrightarrow> symmetric_links (snd (op_on d s))"
  using keeps_symmetry_except [of s "\<lambda>_ _. False"] by (simp add: symmetric_except_none)

lemma keeps_client_identity: "wf_server s \<Longrightarrow> sa (client_at (snd (op_on d s)) c) = sa (client_at s c)
    \<and> last_heard_from (client_at (snd (op_on d s)) c) = last_heard_from (client_at s c)"
  using effect [of s d]
  by (auto simp: device_effect_def links_kept_def links_cleared_def cleared_def)

lemma keeps_live: "wf_server s \<Longrightarrow> client_live (snd (op_on d s)) = client_live s
    \<and> next_ptr (snd (op_on d s)) = next_ptr s \<and> g_keep_going (snd (op_on d s)) = g_keep_going s
    \<and> exited (snd (op_on d s)) = exited s"
  using effect by (auto simp: device_effect_def device_frame_def)

lemma never_gains_clients: "wf_server s \<Longrightarrow>
    set (clients_connected (device_at (snd (op_on d s)) e)) \<subseteq> set (clients_connected (device_at s e))"
  using effect [of s d]
  by (cases "e = d") (auto simp: device_effect_def device_frame_def links_kept_def links_cleared_def)

lemma keeps_idle_elsewhere:
  "wf_server s \<Longrightarrow> e \<noteq> d \<Longrightarrow> status (device_at (snd (op_on d s)) e) = status (device_at s e)
     \<and> clients_connected (device_at (snd (op_on d s)) e) = clients_connected (device_at s e)"
  by (simp add: keeps_other_devices)

end

section \<open>The operations meet the contract\<close>

text \<open>The value the three command functions make of what \<open>system\<close> returned.\<close>

definition command_result :: "env \<Rightarrow> string option \<Rightarrow> server \<Rightarrow> int" where
  "command_result E cmd s = (let r = e_system E (tick s) cmd in if r = 127 then -1 else r)"

lemma device_effect_command [simp]: "device_effect d s (snd (system_call E c s))"
  by (rule device_effect_io) simp_all

lemma device_effect_command_time [simp]: "device_effect d s (snd (time_now E (snd (system_call E c s))))"
  by (rule device_effect_io) simp_all

lemma device_effect_later:
  assumes "device_effect d s t" "same_core t u" "ub u = ub t"
  shows "device_effect d s u"
  using assms device_effect_io device_effect_trans by blast

lemma link_up_result: "fst (link_up E (Some d) s) = command_result E (link_up_command (device_at s d)) s"
  by (simp add: link_up_def command_result_def case_prod_beta Let_def fst_system_call)

lemma link_down_result: "fst (link_down E (Some d) s) = command_result E (link_down_command (device_at s d)) s"
  by (simp add: link_down_def command_result_def case_prod_beta Let_def fst_system_call)

lemma link_up_effect: "device_effect d s (snd (link_up E (Some d) s))"
  by (simp add: link_up_def case_prod_beta Let_def)

lemma link_down_effect: "device_effect d s (snd (link_down E (Some d) s))"
  by (simp add: link_down_def case_prod_beta Let_def)

text \<open>
  The links after a forced disconnection: gone if the command returned zero, untouched if
  it did not.
\<close>

lemma link_force_down_zero:
  assumes "wf_server s" "command_result E (link_force_down_command (device_at s d)) s = 0"
  shows "fst (link_force_down E (Some d) s) = 0
     \<and> same_core (upd_device d (clients_connected_update (\<lambda>_. [])) (unlinked d (set (g_clients s)) s))
                 (snd (link_force_down E (Some d) s))
     \<and> ub (snd (link_force_down E (Some d) s)) = ub s
     \<and> trace (snd (link_force_down E (Some d) s)) = trace s @ [Ran (link_force_down_command (device_at s d)) 0]"
proof -
  let ?c = "link_force_down_command (device_at s d)"
  let ?t = "upd_device d (clients_connected_update (\<lambda>_. [])) (snd (system_call E ?c s))"
  have r: "e_system E (tick s) ?c = 0"
    using assms(2) by (simp add: command_result_def Let_def split: if_splits)
  have wft: "wf_server ?t" using assms(1) by simp
  note un = remove_device_from_all_clients_effect [OF wft, of d]
  have eq: "link_force_down E (Some d) s = (0, snd (remove_device_from_all_clients d ?t))"
    using r un by (simp add: link_force_down_def case_prod_beta Let_def fst_system_call effect_simps)
  have core: "same_core (upd_device d (clients_connected_update (\<lambda>_. [])) (unlinked d (set (g_clients s)) s))
      (unlinked d (set (g_clients ?t)) ?t)"
    by (simp add: same_core_iff unlinked_def fun_eq_iff)
  have "trace ?t = trace s @ [Ran ?c 0]"
    using r by (simp add: system_call_def Let_def)
  with eq un core show ?thesis by (auto intro: same_core_trans)
qed

lemma link_force_down_nonzero:
  assumes "command_result E (link_force_down_command (device_at s d)) s \<noteq> 0"
  shows "link_force_down E (Some d) s =
    (command_result E (link_force_down_command (device_at s d)) s,
     snd (system_call E (link_force_down_command (device_at s d)) s))"
  using assms
  by (auto simp: link_force_down_def command_result_def case_prod_beta Let_def fst_system_call
      effect_simps split: if_splits)

lemma link_force_down_result:
  "wf_server s \<Longrightarrow> fst (link_force_down E (Some d) s) =
     command_result E (link_force_down_command (device_at s d)) s"
  using link_force_down_zero link_force_down_nonzero by (metis fst_conv)

lemma link_force_down_effect: "wf_server s \<Longrightarrow> device_effect d s (snd (link_force_down E (Some d) s))"
proof (cases "command_result E (link_force_down_command (device_at s d)) s = 0")
  case True
  assume "wf_server s"
  note z = link_force_down_zero [OF this True]
  show ?thesis by (rule device_effect_later [OF device_effect_clear]) (use z in simp_all)
qed (simp add: link_force_down_nonzero)

lemma alter_to_down_effect: "wf_server s \<Longrightarrow> device_effect d s (snd (alter_to_down E d s))"
  using link_force_down_effect
  by (auto simp: alter_to_down_def case_prod_beta Let_def split: device_status_t.splits)

lemma wf_reset_retries [simp]: "wf_server s \<Longrightarrow> wf_server (reset_retries d s)"
  by (simp add: reset_retries_def)

lemma attempt_connect_effect:
  assumes "wf_server s"
  shows "device_effect d s (snd (attempt_connect E d s))"
proof -
  let ?s = "upd_device d (retries_update (\<lambda>r. r - 1)) s"
  let ?up = "snd (link_up E (Some d) ?s)"
  have base: "device_effect d s ?s" by simp
  have down: "device_effect d s (snd (alter_to_down E d ?s))"
    using device_effect_trans [OF base alter_to_down_effect] assms by simp
  have up: "device_effect d s ?up"
    by (rule device_effect_trans [OF base link_up_effect])
  have "device_effect d s (snd (time_now E ?up))"
    by (rule device_effect_later [OF up]) simp_all
  with down up show ?thesis by (simp add: attempt_connect_def case_prod_beta Let_def)
qed

lemma alter_to_connecting_effect:
  assumes "wf_server s"
  shows "device_effect d s (snd (alter_to_connecting E d s))"
proof -
  let ?f = "snd (link_force_down E (Some d) s)"
  have f: "device_effect d s ?f" by (rule link_force_down_effect [OF assms])
  then have wf: "wf_server ?f" using assms wf_device_effect by blast
  have "device_effect d s (sleep 2 ?f)" by (rule device_effect_later [OF f]) simp_all
  then have sl: "device_effect d s (reset_retries d (sleep 2 ?f))" by simp
  have "wf_server (sleep 2 ?f)" by (rule wf_same_core [OF _ wf]) simp
  then have "wf_server (reset_retries d (sleep 2 ?f))" by simp
  then have a: "device_effect d s (snd (attempt_connect E d (reset_retries d (sleep 2 ?f))))"
    by (rule device_effect_trans [OF sl attempt_connect_effect])
  have "device_effect d s (reset_retries d s)" by simp
  moreover have "wf_server (reset_retries d s)" using assms by simp
  ultimately have b: "device_effect d s (snd (attempt_connect E d (reset_retries d s)))"
    using device_effect_trans attempt_connect_effect by blast
  have "device_effect d s (set_errno EINVAL s)" by (rule device_effect_io) simp_all
  with a b f attempt_connect_effect [OF assms] show ?thesis
    by (simp add: alter_to_connecting_def case_prod_beta Let_def split: device_status_t.splits)
qed

lemma alter_to_disconnecting_effect:
  assumes "wf_server s"
  shows "device_effect d s (snd (alter_to_disconnecting E d s))"
proof -
  have "device_effect d s (set_errno EINVAL s)" by (rule device_effect_io) simp_all
  with link_force_down_effect [OF assms] link_down_effect show ?thesis
    by (simp add: alter_to_disconnecting_def case_prod_beta Let_def split: device_status_t.splits)
qed

lemma alter_to_up_effect: "device_effect d s (snd (alter_to_up E d s))"
proof -
  have "device_effect d s (set_errno EINVAL s)" by (rule device_effect_io) simp_all
  moreover have "device_effect d s (snd (time_now E s))" by (rule device_effect_io) simp_all
  ultimately show ?thesis
    by (simp add: alter_to_up_def case_prod_beta Let_def split: device_status_t.splits)
qed

interpretation up: device_operation "\<lambda>d. link_up E (Some d)" for E
  by unfold_locales (rule link_up_effect)

interpretation down: device_operation "\<lambda>d. link_down E (Some d)" for E
  by unfold_locales (rule link_down_effect)

interpretation force_down: device_operation "\<lambda>d. link_force_down E (Some d)" for E
  by unfold_locales (rule link_force_down_effect)

interpretation alter: device_operation "\<lambda>d. alter_device_status E d st" for E st
proof unfold_locales
  show "wf_server s \<Longrightarrow> device_effect d s (snd (alter_device_status E d st s))" for s d
    using alter_to_down_effect alter_to_connecting_effect alter_to_disconnecting_effect alter_to_up_effect
    by (cases st) (simp_all add: alter_device_status_def)
qed

end
