(* ===== verification/Device_Machine.thy ===== *)
theory Device_Machine
  imports Device_Control
begin

text \<open>
  What \<open>alter_device_status\<close> does, call by call: the status it ends in, the commands it
  runs and the cases it refuses; the relation of all status changes it can make, against
  the table of \<open>doc/README.states\<close>; and the bound on connection attempts.
\<close>

section \<open>Result and final status\<close>

text \<open>The pairs the code answers with \<open>EINVAL\<close>, as (requested, current).\<close>

fun refused :: "device_status_t \<Rightarrow> device_status_t \<Rightarrow> bool" where
  "refused LINK_CONNECTING old = (old = LINK_UP)"
| "refused LINK_DISCONNECTING old = (old = LINK_DOWN)"
| "refused LINK_UP old = (old \<noteq> LINK_CONNECTING)"
| "refused LINK_DOWN old = False"

text \<open>
  Whether a connection attempt finds no retry left: a retry of a pending attempt looks at
  the counter, a new attempt starts from \<open>g_retries\<close>.
\<close>

definition exhausted :: "dev_ptr \<Rightarrow> server \<Rightarrow> bool" where
  "exhausted d s \<longleftrightarrow> (if status (device_at s d) = LINK_CONNECTING then retries (device_at s d) < 0
                    else g_retries (conf s) < 0)"

definition next_status :: "dev_ptr \<Rightarrow> device_status_t \<Rightarrow> server \<Rightarrow> device_status_t" where
  "next_status d new s = (case new of
     LINK_CONNECTING \<Rightarrow> if exhausted d s then LINK_DOWN else LINK_CONNECTING
   | LINK_DISCONNECTING \<Rightarrow>
       if status (device_at s d) = LINK_DISCONNECTING then LINK_DOWN else LINK_DISCONNECTING
   | _ \<Rightarrow> new)"

lemma status_upd [simp]:
  "status (device_at (set_status d st s) d) = st"
  "status (device_at (reset_retries d s) e) = status (device_at s e)"
  "retries (device_at (reset_retries d s) d) = g_retries (conf s)"
  "conf (reset_retries d s) = conf s" "conf (set_status d st s) = conf s"
  "g_clients (set_status d st s) = g_clients s" "g_devices (set_status d st s) = g_devices s"
  "clients_connected (device_at (set_status d st s) e) = clients_connected (device_at s e)"
  "client_at (set_status d st s) = client_at s"
  "ub (set_status d st s) = ub s" "errno (set_status d st s) = errno s"
  "trace (set_status d st s) = trace s" "tick (set_status d st s) = tick s"
  "trace (reset_retries d s) = trace s" "tick (reset_retries d s) = tick s"
  by (auto simp: set_status_def reset_retries_def)

lemma link_commands_keep_status:
  "status (device_at (snd (link_up E (Some d) s)) e) = status (device_at s e)"
  "status (device_at (snd (link_down E (Some d) s)) e) = status (device_at s e)"
  "retries (device_at (snd (link_up E (Some d) s)) e) = retries (device_at s e)"
  by (auto simp: link_up_def link_down_def case_prod_beta Let_def)

lemma force_down_keeps_status:
  assumes "wf_server s"
  shows "status (device_at (snd (link_force_down E (Some d) s)) e) = status (device_at s e)"
    "retries (device_at (snd (link_force_down E (Some d) s)) e) = retries (device_at s e)"
proof -
  have "status (device_at (snd (link_force_down E (Some d) s)) e) = status (device_at s e)
    \<and> retries (device_at (snd (link_force_down E (Some d) s)) e) = retries (device_at s e)"
  proof (cases "command_result E (link_force_down_command (device_at s d)) s = 0")
    case True
    from link_force_down_zero [OF assms True] have
      "device_at (snd (link_force_down E (Some d) s)) =
       device_at (upd_device d (clients_connected_update (\<lambda>_. [])) (unlinked d (set (g_clients s)) s))"
      by (auto dest: same_core_fields(4))
    then show ?thesis by simp
  qed (simp add: link_force_down_nonzero)
  then show "status (device_at (snd (link_force_down E (Some d) s)) e) = status (device_at s e)"
    "retries (device_at (snd (link_force_down E (Some d) s)) e) = retries (device_at s e)" by auto
qed

lemmas keep_status = link_commands_keep_status force_down_keeps_status

lemma alter_to_down_outcome:
  assumes "wf_server s"
  shows "fst (alter_to_down E d s) = 0 \<and> status (device_at (snd (alter_to_down E d s)) d) = LINK_DOWN
    \<or> fst (alter_to_down E d s) = -1
       \<and> status (device_at (snd (alter_to_down E d s)) d) = status (device_at s d)"
  using assms
  by (auto simp: alter_to_down_def case_prod_beta keep_status split: device_status_t.splits)

lemma attempt_connect_outcome:
  assumes "wf_server s"
  shows "fst (attempt_connect E d s) = 0 \<and> status (device_at (snd (attempt_connect E d s)) d) =
       (if retries (device_at s d) < 0 then LINK_DOWN else LINK_CONNECTING)
    \<or> fst (attempt_connect E d s) = -1
       \<and> status (device_at (snd (attempt_connect E d s)) d) = status (device_at s d)"
proof -
  let ?s = "upd_device d (retries_update (\<lambda>r. r - 1)) s"
  have "wf_server ?s" using assms by simp
  from alter_to_down_outcome [OF this, of E d] show ?thesis
    by (auto simp: attempt_connect_def Let_def case_prod_beta keep_status)
qed

lemma alter_outcome:
  assumes "wf_server s"
  shows "fst (alter_device_status E d new s) = 0
       \<and> status (device_at (snd (alter_device_status E d new s)) d) = next_status d new s
       \<and> \<not> refused new (status (device_at s d))
    \<or> fst (alter_device_status E d new s) = -1
       \<and> status (device_at (snd (alter_device_status E d new s)) d) = status (device_at s d)"
proof (cases new)
  case LINK_DOWN
  then show ?thesis using alter_to_down_outcome [OF assms, of E d]
    by (simp add: alter_device_status_def next_status_def)
next
  case LINK_UP
  then show ?thesis
    by (auto simp: alter_device_status_def alter_to_up_def next_status_def case_prod_beta
        split: device_status_t.splits)
next
  case LINK_DISCONNECTING
  then show ?thesis using assms
    by (auto simp: alter_device_status_def alter_to_disconnecting_def next_status_def case_prod_beta
        keep_status split: device_status_t.splits)
next
  case LINK_CONNECTING
  let ?f = "snd (link_force_down E (Some d) s)"
  have wf: "wf_server (reset_retries d (sleep 2 ?f))" "wf_server (reset_retries d s)"
    using assms force_down.keeps_wf by simp_all
  have cf: "conf ?f = conf s" using force_down.keeps_lists [OF assms] by simp
  have st: "status (device_at ?f d) = status (device_at s d)" using assms by (simp add: keep_status)
  from LINK_CONNECTING attempt_connect_outcome [OF assms, of E d]
    attempt_connect_outcome [OF wf(1), of E d] attempt_connect_outcome [OF wf(2), of E d]
  show ?thesis
    by (auto simp: alter_device_status_def alter_to_connecting_def next_status_def exhausted_def
        case_prod_beta cf st split: device_status_t.splits)
qed

lemma alter_refused:
  "refused new (status (device_at s d)) \<Longrightarrow>
     alter_device_status E d new s = (-1, set_errno EINVAL s)"
  by (cases new; cases "status (device_at s d)")
     (simp_all add: alter_device_status_def alter_to_connecting_def alter_to_disconnecting_def
       alter_to_up_def alter_to_down_def)

section \<open>The transition relation and its documentation\<close>

text \<open>Every change of status \<open>alter_device_status\<close> makes when it succeeds.\<close>

inductive status_step :: "device_status_t \<Rightarrow> device_status_t \<Rightarrow> bool" where
  dial: "status_step LINK_DOWN LINK_CONNECTING"
| redial: "status_step LINK_CONNECTING LINK_CONNECTING"
| redial_dropped: "status_step LINK_DISCONNECTING LINK_CONNECTING"
| established: "status_step LINK_CONNECTING LINK_UP"
| hang_up: "status_step LINK_UP LINK_DISCONNECTING"
| give_up_dialing: "status_step LINK_CONNECTING LINK_DISCONNECTING"
| dropped: "status_step LINK_DISCONNECTING LINK_DOWN"
| forced: "status_step LINK_UP LINK_DOWN"
| forced_dialing: "status_step LINK_CONNECTING LINK_DOWN"
| forced_again: "status_step LINK_DOWN LINK_DOWN"

code_pred status_step .

inductive_simps from_down: "status_step LINK_DOWN x"
inductive_simps from_up: "status_step LINK_UP x"
inductive_simps from_connecting: "status_step LINK_CONNECTING x"
inductive_simps from_disconnecting: "status_step LINK_DISCONNECTING x"

lemmas status_step_simps = from_down from_up from_connecting from_disconnecting

text \<open>The transitions that \<open>doc/README.states\<close> lists as possible.\<close>

inductive documented_step :: "device_status_t \<Rightarrow> device_status_t \<Rightarrow> bool" where
  "documented_step LINK_CONNECTING LINK_DISCONNECTING"
| "documented_step LINK_CONNECTING LINK_UP"
| "documented_step LINK_CONNECTING LINK_DOWN"
| "documented_step LINK_DISCONNECTING LINK_CONNECTING"
| "documented_step LINK_DISCONNECTING LINK_UP"
| "documented_step LINK_DISCONNECTING LINK_DOWN"
| "documented_step LINK_UP LINK_DISCONNECTING"
| "documented_step LINK_DOWN LINK_CONNECTING"
| "documented_step LINK_DOWN LINK_DISCONNECTING"

inductive_simps documented_step_simps:
  "documented_step LINK_DOWN x" "documented_step LINK_UP x"
  "documented_step LINK_CONNECTING x" "documented_step LINK_DISCONNECTING x"

lemma next_status_step:
  assumes "\<not> refused new (status (device_at s d))"
  shows "status_step (status (device_at s d)) (next_status d new s)"
  using assms by (cases new; cases "status (device_at s d)")
    (simp_all add: next_status_def status_step_simps)


section \<open>Commands run and links dropped when nothing goes wrong\<close>

definition forced_down :: "device_t \<Rightarrow> io_event" where
  "forced_down x = Ran (link_force_down_command x) 0"

text \<open>The shell commands and sleeps of one call that is not refused.\<close>

definition alter_events :: "dev_ptr \<Rightarrow> device_status_t \<Rightarrow> server \<Rightarrow> io_event list" where
  "alter_events d new s = (let x = device_at s d in case new of
     LINK_CONNECTING \<Rightarrow>
       (case status x of
          LINK_DISCONNECTING \<Rightarrow> [forced_down x, Slept 2] @
             (if exhausted d s then [] else [Ran (link_up_command x) 0])
        | _ \<Rightarrow> if exhausted d s then [forced_down x] else [Ran (link_up_command x) 0])
   | LINK_DISCONNECTING \<Rightarrow>
       if status x = LINK_UP then [Ran (link_down_command x) 0] else [forced_down x]
   | LINK_UP \<Rightarrow> []
   | LINK_DOWN \<Rightarrow> if status x = LINK_DISCONNECTING then [] else [forced_down x])"

text \<open>Whether the call runs the force-down command, which drops the device's links.\<close>

definition drops_links :: "dev_ptr \<Rightarrow> device_status_t \<Rightarrow> server \<Rightarrow> bool" where
  "drops_links d new s = (case new of
     LINK_CONNECTING \<Rightarrow> status (device_at s d) = LINK_DISCONNECTING \<or> exhausted d s
   | LINK_DISCONNECTING \<Rightarrow> status (device_at s d) \<noteq> LINK_UP
   | LINK_UP \<Rightarrow> False
   | LINK_DOWN \<Rightarrow> status (device_at s d) \<noteq> LINK_DISCONNECTING)"

lemma wb_e_system: "well_behaved E \<Longrightarrow> e_system E n c = 0"
  by (simp add: well_behaved_def)

lemma wb_command: "well_behaved E \<Longrightarrow> command_result E c s = 0"
  by (simp add: well_behaved_def command_result_def)

lemma wb_system_trace: "well_behaved E \<Longrightarrow> trace (snd (system_call E c s)) = trace s @ [Ran c 0]"
  by (simp add: well_behaved_def system_call_def)

lemma wb_link_up:
  assumes "well_behaved E"
  shows "fst (link_up E (Some d) s) = 0
    \<and> trace (snd (link_up E (Some d) s)) = trace s @ [Ran (link_up_command (device_at s d)) 0]
    \<and> clients_connected (device_at (snd (link_up E (Some d) s)) d) = clients_connected (device_at s d)"
  using assms
  by (simp add: link_up_def case_prod_beta Let_def fst_system_call wb_system_trace wb_e_system)

lemma wb_link_down:
  assumes "well_behaved E"
  shows "fst (link_down E (Some d) s) = 0
    \<and> trace (snd (link_down E (Some d) s)) = trace s @ [Ran (link_down_command (device_at s d)) 0]
    \<and> clients_connected (device_at (snd (link_down E (Some d) s)) d) = clients_connected (device_at s d)"
  using assms
  by (simp add: link_down_def case_prod_beta Let_def fst_system_call wb_system_trace wb_e_system)

lemma wb_force_down:
  assumes "well_behaved E" "wf_server s"
  shows "fst (link_force_down E (Some d) s) = 0
    \<and> trace (snd (link_force_down E (Some d) s)) = trace s @ [forced_down (device_at s d)]
    \<and> clients_connected (device_at (snd (link_force_down E (Some d) s)) d) = []
    \<and> conf (snd (link_force_down E (Some d) s)) = conf s
    \<and> link_up_command (device_at (snd (link_force_down E (Some d) s)) d) = link_up_command (device_at s d)
    \<and> status (device_at (snd (link_force_down E (Some d) s)) d) = status (device_at s d)"
proof -
  note z = link_force_down_zero [OF assms(2) wb_command [OF assms(1)], of d]
  have "device_at (snd (link_force_down E (Some d) s)) =
      device_at (upd_device d (clients_connected_update (\<lambda>_. [])) (unlinked d (set (g_clients s)) s))"
    "conf (snd (link_force_down E (Some d) s)) = conf s"
    using z force_down.keeps_lists [OF assms(2)] by (auto dest: same_core_fields(4))
  with z show ?thesis by (simp add: forced_down_def)
qed

lemma wb_alter_to_down:
  assumes "well_behaved E" "wf_server s"
  shows "fst (alter_to_down E d s) = 0
    \<and> trace (snd (alter_to_down E d s)) = trace s @ alter_events d LINK_DOWN s
    \<and> clients_connected (device_at (snd (alter_to_down E d s)) d) =
        (if status (device_at s d) = LINK_DISCONNECTING then clients_connected (device_at s d) else [])"
  using wb_force_down [OF assms, of d]
  by (simp add: alter_to_down_def case_prod_beta alter_events_def Let_def split: device_status_t.splits)

lemma wb_attempt_connect:
  assumes "well_behaved E" "wf_server s"
  shows "fst (attempt_connect E d s) = 0
    \<and> trace (snd (attempt_connect E d s)) = trace s @
        (if retries (device_at s d) < 0 then alter_events d LINK_DOWN s
         else [Ran (link_up_command (device_at s d)) 0])
    \<and> clients_connected (device_at (snd (attempt_connect E d s)) d) =
        (if retries (device_at s d) < 0 \<and> status (device_at s d) \<noteq> LINK_DISCONNECTING then []
         else clients_connected (device_at s d))"
proof -
  let ?s = "upd_device d (retries_update (\<lambda>r. r - 1)) s"
  have "alter_events d LINK_DOWN ?s = alter_events d LINK_DOWN s"
    by (simp add: alter_events_def forced_down_def)
  moreover have "wf_server ?s" using assms(2) by simp
  ultimately show ?thesis
    using wb_alter_to_down [OF assms(1), of ?s d] wb_link_up [OF assms(1), of d ?s]
    by (simp add: attempt_connect_def Let_def case_prod_beta)
qed

lemma wb_alter:
  assumes "well_behaved E" "wf_server s" "\<not> refused new (status (device_at s d))"
  shows "fst (alter_device_status E d new s) = 0
    \<and> trace (snd (alter_device_status E d new s)) = trace s @ alter_events d new s
    \<and> clients_connected (device_at (snd (alter_device_status E d new s)) d) =
        (if drops_links d new s then [] else clients_connected (device_at s d))"
proof -
  note simps = alter_device_status_def alter_events_def Let_def drops_links_def case_prod_beta
  show ?thesis
  proof (cases new)
    case LINK_DOWN
    then show ?thesis using wb_alter_to_down [OF assms(1,2), of d] by (simp add: simps)
  next
    case LINK_UP
    then show ?thesis using assms(3) by (simp add: simps alter_to_up_def)
  next
    case LINK_DISCONNECTING
    then show ?thesis
      using assms(3) wb_force_down [OF assms(1,2), of d] wb_link_down [OF assms(1), of d s]
      by (cases "status (device_at s d)") (simp_all add: simps alter_to_disconnecting_def)
  next
    case LINK_CONNECTING
    let ?f = "reset_retries d (sleep 2 (snd (link_force_down E (Some d) s)))"
    have wf: "wf_server ?f" "wf_server (reset_retries d s)"
      using assms(2) force_down.keeps_wf by simp_all
    have cmds: "link_up_command (device_at (reset_retries d t) d) = link_up_command (device_at t d)"
      "link_force_down_command (device_at (reset_retries d t) d) = link_force_down_command (device_at t d)"
      "clients_connected (device_at (reset_retries d t) d) = clients_connected (device_at t d)" for t
      by (simp_all add: reset_retries_def)
    have fd: "forced_down (device_at (reset_retries d s) d) = forced_down (device_at s d)"
      by (simp add: forced_down_def cmds)
    note parts = wb_attempt_connect [OF assms(1,2), of d] wb_attempt_connect [OF assms(1) wf(1), of d]
      wb_attempt_connect [OF assms(1) wf(2), of d] wb_force_down [OF assms(1,2), of d]
    show ?thesis
      using LINK_CONNECTING assms(3) parts
      by (cases "status (device_at s d)")
         (simp_all add: simps alter_to_connecting_def exhausted_def cmds fd)
  qed
qed

end
