(* ===== verification/Connections.thy ===== *)
theory Connections
  imports Device_Machine
begin

text \<open>
  The operations of \<open>server/list_fns.c\<close> that tie clients to devices:
  \<open>connect_client_to_device\<close>, \<open>disconnect_client_from_device\<close>,
  \<open>remove_client_from_all_devices\<close> and \<open>update_client\<close>. Each keeps the well-formedness of
  the stores in every environment, and the frame of each is stated (\<open>link_frame\<close>).
\<close>

section \<open>The operations\<close>

definition connect_client_to_device :: "env \<Rightarrow> cli_ptr \<Rightarrow> dev_ptr \<Rightarrow> server \<Rightarrow> int \<times> server" where
  "connect_client_to_device E client device s =
     (case (if clients_connected (device_at s device) = []
            then alter_device_status E device LINK_CONNECTING (reset_retries device s)
            else (0, s)) of (r, s) \<Rightarrow>
      if r < 0 then (-1, s)
      else (case add_client E (clients_connected (device_at s device)) client s of (r, cs, s) \<Rightarrow>
        let s = upd_device device (clients_connected_update (\<lambda>_. cs)) s in
        if r < 0 \<and> errno s \<noteq> EALREADY then (-1, s)
        else (case add_device E (devices_connected (client_at s client)) device s of (r, ds, s) \<Rightarrow>
          let s = upd_client client (devices_connected_update (\<lambda>_. ds)) s in
          if r < 0 \<and> errno s \<noteq> EALREADY then (-1, s) else (0, s))))"

definition disconnect_client_from_device :: "env \<Rightarrow> cli_ptr \<Rightarrow> dev_ptr \<Rightarrow> server \<Rightarrow> int \<times> server" where
  "disconnect_client_from_device E client device s =
     (case rm_client (clients_connected (device_at s device)) client s of (r, cs, s) \<Rightarrow>
        let s = upd_device device (clients_connected_update (\<lambda>_. cs)) s in
        (case (if r < 0 then (if errno s \<noteq> ENODEV then (-1, s) else (0, s))
               else if clients_connected (device_at s device) = []
                    then alter_device_status E device LINK_DISCONNECTING s
                    else (0, s)) of (r, s) \<Rightarrow>
         if r < 0 then (-1, s)
         else (case rm_device (devices_connected (client_at s client)) device s of (r, ds, s) \<Rightarrow>
           let s = upd_client client (devices_connected_update (\<lambda>_. ds)) s in
           if r < 0 \<and> errno s \<noteq> ENODEV then (-1, s) else (0, s))))"

fun disconnect_from_each :: "env \<Rightarrow> cli_ptr \<Rightarrow> dev_ptr list \<Rightarrow> server \<Rightarrow> int \<times> server" where
  "disconnect_from_each E client [] s = (0, s)"
| "disconnect_from_each E client (d # ds) s =
     (case disconnect_client_from_device E client d s of (r, s) \<Rightarrow>
        if r < 0 \<and> errno s \<noteq> ENODEV then (-1, s) else disconnect_from_each E client ds s)"

definition remove_client_from_all_devices :: "env \<Rightarrow> cli_ptr \<Rightarrow> server \<Rightarrow> int \<times> server" where
  "remove_client_from_all_devices E client s = disconnect_from_each E client (g_devices s) s"

definition update_client :: "env \<Rightarrow> cli_ptr \<Rightarrow> sockaddr_in \<Rightarrow> server \<Rightarrow> int \<times> server" where
  "update_client E client cli s =
     (case time_now E s of (t, s) \<Rightarrow>
        (0, upd_client client (\<lambda>x. x\<lparr>last_heard_from := t, sa := cli\<rparr>) s))"

section \<open>Frame of the operations\<close>

text \<open>Variables that no operation of this theory writes.\<close>

definition same_setup :: "server \<Rightarrow> server \<Rightarrow> bool" where
  "same_setup s t \<longleftrightarrow> conf t = conf s \<and> g_devices t = g_devices s \<and> next_ptr t = next_ptr s
     \<and> g_keep_going t = g_keep_going s \<and> exited t = exited s \<and> ub t = ub s
     \<and> (\<forall>d. same_config (device_at s d) (device_at t d))"

text \<open>The global client list and the clients' own data, which only time-outs and messages change.\<close>

definition same_clients :: "server \<Rightarrow> server \<Rightarrow> bool" where
  "same_clients s t \<longleftrightarrow> g_clients t = g_clients s \<and> client_live t = client_live s
     \<and> (\<forall>c. sa (client_at t c) = sa (client_at s c)
            \<and> last_heard_from (client_at t c) = last_heard_from (client_at s c))"

lemma same_setup_refl [simp]: "same_setup s s"
  by (simp add: same_setup_def)

lemma same_clients_refl [simp]: "same_clients s s"
  by (simp add: same_clients_def)

lemma same_setup_trans: "same_setup s t \<Longrightarrow> same_setup t u \<Longrightarrow> same_setup s u"
  unfolding same_setup_def by (metis same_config_trans)

lemma same_clients_trans: "same_clients s t \<Longrightarrow> same_clients t u \<Longrightarrow> same_clients s u"
  by (simp add: same_clients_def)

lemma same_setup_effect: "device_effect d s t \<Longrightarrow> same_setup s t"
  unfolding same_setup_def device_effect_def device_frame_def by (metis same_config_refl)

lemma same_clients_effect: "device_effect d s t \<Longrightarrow> same_clients s t"
  by (auto simp: same_clients_def device_effect_def device_frame_def links_kept_def links_cleared_def
      cleared_def)

lemma same_setup_io: "same_core s t \<Longrightarrow> ub t = ub s \<Longrightarrow> same_setup s t"
  by (simp add: same_setup_def same_core_iff)

lemma same_clients_io: "same_core s t \<Longrightarrow> same_clients s t"
  by (simp add: same_clients_def same_core_iff)

lemma same_setup_upd [simp]:
  "same_setup s (upd_device d (clients_connected_update f) t) = same_setup s t"
  "same_setup s (upd_client c g t) = same_setup s t"
  "same_setup s (reset_retries d t) = same_setup s t"
  "same_setup s (t\<lparr>g_clients := l\<rparr>) = same_setup s t"
  by (auto simp: same_setup_def same_config_def reset_retries_def)

lemma same_clients_upd [simp]:
  "same_clients s (upd_device d f t) = same_clients s t"
  "same_clients s (upd_client c (devices_connected_update h) t) = same_clients s t"
  "same_clients s (reset_retries d t) = same_clients s t"
  by (auto simp: same_clients_def reset_retries_def)

text \<open>The frame of the operations that connect and disconnect one client.\<close>

definition link_frame :: "cli_ptr \<Rightarrow> dev_ptr \<Rightarrow> server \<Rightarrow> server \<Rightarrow> bool" where
  "link_frame c d s t \<longleftrightarrow> same_setup s t \<and> same_clients s t
     \<and> (\<forall>e. e \<noteq> d \<longrightarrow> device_at t e = device_at s e)"

lemma link_frame_refl [simp]: "link_frame c d s s"
  by (simp add: link_frame_def)

lemma device_effect_other: "device_effect d t u \<Longrightarrow> e \<noteq> d \<Longrightarrow> device_at u e = device_at t e"
  by (simp add: device_effect_def device_frame_def)

lemma link_frame_step:
  assumes "link_frame c d s t" "same_setup t u" "same_clients t u"
    "\<And>e. e \<noteq> d \<Longrightarrow> device_at u e = device_at t e"
  shows "link_frame c d s u"
  using assms same_setup_trans [of s t u] same_clients_trans [of s t u] by (simp add: link_frame_def)

lemma link_frame_effect: "link_frame c d s t \<Longrightarrow> device_effect d t u \<Longrightarrow> link_frame c d s u"
  by (rule link_frame_step [OF _ same_setup_effect same_clients_effect device_effect_other])

lemma link_frame_io:
  assumes "link_frame c d s t" "same_core t u" "ub u = ub t"
  shows "link_frame c d s u"
  by (rule link_frame_step [OF assms(1) same_setup_io [OF assms(2,3)] same_clients_io [OF assms(2)]])
     (simp add: same_core_fields(4) [OF assms(2)])

lemma reset_retries_other [simp]: "e \<noteq> d \<Longrightarrow> device_at (reset_retries d t) e = device_at t e"
  by (simp add: reset_retries_def)

lemma link_frame_upd [simp]:
  "link_frame c d s (upd_device d (clients_connected_update f) t) = link_frame c d s t"
  "link_frame c d s (upd_client e (devices_connected_update h) t) = link_frame c d s t"
  "link_frame c d s (reset_retries d t) = link_frame c d s t"
  by (auto simp: link_frame_def)

section \<open>Connecting\<close>

text \<open>The first half of connecting: an idle device is brought up.\<close>

definition raise_link :: "env \<Rightarrow> dev_ptr \<Rightarrow> server \<Rightarrow> int \<times> server" where
  "raise_link E d s = (if clients_connected (device_at s d) = []
     then alter_device_status E d LINK_CONNECTING (reset_retries d s) else (0, s))"

lemma raise_link_keeps:
  assumes "wf_server s"
  shows "wf_server (snd (raise_link E d s)) \<and> link_frame c d s (snd (raise_link E d s))"
proof -
  have "wf_server (reset_retries d s)" using assms by simp
  then show ?thesis
    using assms alter.keeps_wf alter.effect link_frame_effect [of c d s "reset_retries d s"]
    by (auto simp: raise_link_def)
qed

lemma add_client_list:
  assumes "wf_server t" "c \<in> set (g_clients t)" "d \<in> set (g_devices t)"
    and "add_client E (clients_connected (device_at t d)) c t = (r, cs, u)"
  shows "same_core t u" "ub u = ub t" "distinct cs" "set cs \<subseteq> set (g_clients t)"
    "trace u = trace t" "errno u = EALREADY \<or> r = 0 \<Longrightarrow> set cs = insert c (set (clients_connected (device_at t d)))"
    "r \<ge> 0 \<Longrightarrow> r = 0"
proof -
  let ?xs = "clients_connected (device_at t d)"
  have xs: "distinct ?xs" "set ?xs \<subseteq> set (g_clients t)"
    and inj: "inj_on (client_key t) (set (g_clients t))"
    using assms(1,3) by (auto simp: wf_defs)
  note facts = assms(4) xs assms(2)
  show "same_core t u" "ub u = ub t" "distinct cs" "set cs \<subseteq> set (g_clients t)" "trace u = trace t"
    "r \<ge> 0 \<Longrightarrow> r = 0"
    by (cases rule: clis.add_cases [of ?xs t c E]; use facts in auto)+
  show "set cs = insert c (set ?xs)" if "errno u = EALREADY \<or> r = 0"
  proof (cases rule: clis.add_cases [of ?xs t c E])
    case (present p)
    with xs(2) inj assms(2) have "p = c" by (auto dest: inj_onD)
    with present assms(4) show ?thesis by auto
  qed (use that assms(4) in auto)
qed

lemma add_device_list:
  assumes "wf_server t" "c \<in> set (g_clients t)" "d \<in> set (g_devices t)"
    and "add_device E (devices_connected (client_at t c)) d t = (r, ds, u)"
  shows "same_core t u" "ub u = ub t" "distinct ds" "set ds \<subseteq> set (g_devices t)"
    "trace u = trace t" "errno u = EALREADY \<or> r = 0 \<Longrightarrow> set ds = insert d (set (devices_connected (client_at t c)))"
    "r \<ge> 0 \<Longrightarrow> r = 0"
proof -
  let ?xs = "devices_connected (client_at t c)"
  have xs: "distinct ?xs" "set ?xs \<subseteq> set (g_devices t)"
    and inj: "inj_on (device_key t) (set (g_devices t))"
    using assms(1,2) by (auto simp: wf_defs)
  note facts = assms(4) xs assms(3)
  show "same_core t u" "ub u = ub t" "distinct ds" "set ds \<subseteq> set (g_devices t)" "trace u = trace t"
    "r \<ge> 0 \<Longrightarrow> r = 0"
    by (cases rule: devs.add_cases [of ?xs t d E]; use facts in auto)+
  show "set ds = insert d (set ?xs)" if "errno u = EALREADY \<or> r = 0"
  proof (cases rule: devs.add_cases [of ?xs t d E])
    case (present p)
    with xs(2) inj assms(3) have "p = d" by (auto dest: inj_onD)
    with present assms(4) show ?thesis by auto
  qed (use that assms(4) in auto)
qed

text \<open>
  The second half: both lists get their entry. The outcome is one of: the entries were
  made (or were there), or a node could not be allocated.
\<close>

lemma connect_unfold:
  assumes "raise_link E d s = (r1, t)"
    "add_client E (clients_connected (device_at t d)) c t = (r2, cs, u)"
    "u' = upd_device d (clients_connected_update (\<lambda>_. cs)) u"
    "add_device E (devices_connected (client_at u' c)) d u' = (r3, ds, v)"
    "v' = upd_client c (devices_connected_update (\<lambda>_. ds)) v"
  shows "connect_client_to_device E c d s =
    (if r1 < 0 then (-1, t)
     else if r2 < 0 \<and> errno u \<noteq> EALREADY then (-1, u')
     else if r3 < 0 \<and> errno v \<noteq> EALREADY then (-1, v') else (0, v'))"
  using assms by (simp add: connect_client_to_device_def raise_link_def Let_def)

lemma connect_keeps:
  assumes "wf_server s" "c \<in> set (g_clients s)" "d \<in> set (g_devices s)"
  shows "wf_server (snd (connect_client_to_device E c d s))
     \<and> link_frame c d s (snd (connect_client_to_device E c d s))"
proof -
  obtain r1 t where rl: "raise_link E d s = (r1, t)" by fastforce
  with raise_link_keeps [OF assms(1), of E d c] have wt: "wf_server t" and ft: "link_frame c d s t"
    by auto
  then have ct: "c \<in> set (g_clients t)" "d \<in> set (g_devices t)"
    using assms by (auto simp: link_frame_def same_setup_def same_clients_def)
  obtain r2 cs u where ac: "add_client E (clients_connected (device_at t d)) c t = (r2, cs, u)"
    by (metis prod_cases3)
  note al = add_client_list [OF wt ct ac]
  define u' where "u' = upd_device d (clients_connected_update (\<lambda>_. cs)) u"
  have wu: "wf_server u'"
    unfolding u'_def by (rule wf_set_clients)
      (use wf_same_core [OF al(1) wt] al(3,4) same_core_fields(3) [OF al(1)] in auto)
  have fu: "link_frame c d s u'" unfolding u'_def using link_frame_io [OF ft al(1,2)] by simp
  then have cu: "c \<in> set (g_clients u')" "d \<in> set (g_devices u')"
    using assms by (auto simp: link_frame_def same_setup_def same_clients_def)
  obtain r3 ds v where ad: "add_device E (devices_connected (client_at u' c)) d u' = (r3, ds, v)"
    by (metis prod_cases3)
  note dl = add_device_list [OF wu cu ad]
  define v' where "v' = upd_client c (devices_connected_update (\<lambda>_. ds)) v"
  have wv: "wf_server v'"
    unfolding v'_def by (rule wf_set_devices)
      (use wf_same_core [OF dl(1) wu] dl(3,4) same_core_fields(2) [OF dl(1)] in auto)
  have fv: "link_frame c d s v'" unfolding v'_def using link_frame_io [OF fu dl(1,2)] by simp
  from connect_unfold [OF rl ac u'_def ad v'_def] wt ft wu fu wv fv show ?thesis by auto
qed


section \<open>Disconnecting\<close>

text \<open>The first half: the client leaves the device's list; the last one to leave hangs up.\<close>

definition without_client :: "cli_ptr \<Rightarrow> dev_ptr \<Rightarrow> server \<Rightarrow> server" where
  "without_client c d s =
     upd_device d (clients_connected_update (\<lambda>_. remove1 c (clients_connected (device_at s d))))
       (if c \<in> set (clients_connected (device_at s d)) then s else set_errno ENODEV s)"

definition release_link :: "env \<Rightarrow> cli_ptr \<Rightarrow> dev_ptr \<Rightarrow> server \<Rightarrow> int \<times> server" where
  "release_link E c d s =
     (if c \<in> set (clients_connected (device_at s d)) \<and> remove1 c (clients_connected (device_at s d)) = []
      then alter_device_status E d LINK_DISCONNECTING (without_client c d s)
      else (0, without_client c d s))"

lemma without_client_simps [simp]:
  "clients_connected (device_at (without_client c d s) d) = remove1 c (clients_connected (device_at s d))"
  "e \<noteq> d \<Longrightarrow> device_at (without_client c d s) e = device_at s e"
  "status (device_at (without_client c d s) e) = status (device_at s e)"
  "client_at (without_client c d s) = client_at s"
  "g_devices (without_client c d s) = g_devices s" "g_clients (without_client c d s) = g_clients s"
  "conf (without_client c d s) = conf s" "ub (without_client c d s) = ub s"
  "trace (without_client c d s) = trace s"
  by (auto simp: without_client_def)

lemma disconnect_release:
  "disconnect_client_from_device E c d s = (case release_link E c d s of (r, s) \<Rightarrow>
     if r < 0 then (-1, s)
     else (case rm_device (devices_connected (client_at s c)) d s of (r, ds, s) \<Rightarrow>
       let s = upd_client c (devices_connected_update (\<lambda>_. ds)) s in
       if r < 0 \<and> errno s \<noteq> ENODEV then (-1, s) else (0, s)))"
  by (simp add: disconnect_client_from_device_def release_link_def without_client_def Let_def
      clis.rm_result)

lemma disconnect_unfold:
  assumes "release_link E c d s = (r, t)"
  shows "disconnect_client_from_device E c d s = (if r < 0 then (-1, t)
     else (0, upd_client c (devices_connected_update (\<lambda>_. remove1 d (devices_connected (client_at t c))))
       (if d \<in> set (devices_connected (client_at t c)) then t else set_errno ENODEV t)))"
  by (simp add: disconnect_release assms devs.rm_result Let_def)

lemma without_client_keeps:
  assumes "wf_server s" "d \<in> set (g_devices s)"
  shows "wf_server (without_client c d s)" "link_frame c d s (without_client c d s)"
    "set (clients_connected (device_at (without_client c d s) d)) = set (clients_connected (device_at s d)) - {c}"
proof -
  have xs: "distinct (clients_connected (device_at s d))"
    "set (clients_connected (device_at s d)) \<subseteq> set (g_clients s)" using assms by (auto simp: wf_defs)
  show "wf_server (without_client c d s)"
    unfolding without_client_def by (rule wf_set_clients) (use assms(1) xs in auto)
  show "link_frame c d s (without_client c d s)"
    using link_frame_io [of c d s s "set_errno ENODEV s"] by (simp add: without_client_def)
  show "set (clients_connected (device_at (without_client c d s) d)) = set (clients_connected (device_at s d)) - {c}"
    using xs(1) by simp
qed

lemma release_link_keeps:
  assumes "wf_server s" "d \<in> set (g_devices s)"
  shows "wf_server (snd (release_link E c d s))"
    "link_frame c d s (snd (release_link E c d s))"
    "set (clients_connected (device_at (snd (release_link E c d s)) d)) \<subseteq>
       set (clients_connected (device_at s d)) - {c}"
proof -
  note w = without_client_keeps [OF assms, of c]
  show "wf_server (snd (release_link E c d s))"
    using alter.keeps_wf [OF w(1)] w(1) by (simp add: release_link_def)
  show "link_frame c d s (snd (release_link E c d s))"
    using link_frame_effect [OF w(2) alter.effect [OF w(1)]] w(2) by (simp add: release_link_def)
  show "set (clients_connected (device_at (snd (release_link E c d s)) d)) \<subseteq>
       set (clients_connected (device_at s d)) - {c}"
    using alter.never_gains_clients [OF w(1), of E d LINK_DISCONNECTING d] w(3)
    by (simp add: release_link_def del: without_client_simps)
qed

lemma disconnect_keeps:
  assumes "wf_server s" "c \<in> set (g_clients s)" "d \<in> set (g_devices s)"
    and "disconnect_client_from_device E c d s = (q, u)"
  shows "wf_server u" "link_frame c d s u" "q \<in> {0, -1}"
    "set (clients_connected (device_at u d)) \<subseteq> set (clients_connected (device_at s d)) - {c}"
proof -
  obtain r t where rt: "release_link E c d s = (r, t)" by fastforce
  define t1 where "t1 = (if d \<in> set (devices_connected (client_at t c)) then t else set_errno ENODEV t)"
  define t' where "t' = upd_client c (devices_connected_update (\<lambda>_. remove1 d (devices_connected (client_at t c)))) t1"
  note keep = release_link_keeps [OF assms(1,3), where E = E and c = c, unfolded rt snd_conv]
  have t1: "wf_server t1" "link_frame c d s t1" "device_at t1 = device_at t" "client_at t1 = client_at t"
      "g_devices t1 = g_devices t" "g_clients t1 = g_clients t"
    using keep link_frame_io [of c d s t "set_errno ENODEV t"] by (auto simp: t1_def)
  have "c \<in> set (g_clients t)" using keep(2) assms(2) by (auto simp: link_frame_def same_clients_def)
  with keep(1) have "distinct (devices_connected (client_at t c))"
      "set (devices_connected (client_at t c)) \<subseteq> set (g_devices t)" by (auto simp: wf_defs)
  then have w': "wf_server t'"
    unfolding t'_def by (intro wf_set_devices) (use t1 in auto)
  have f': "link_frame c d s t'" "clients_connected (device_at t' d) = clients_connected (device_at t d)"
    unfolding t'_def using t1 by simp_all
  have "(q, u) = (if r < 0 then (-1, t) else (0, t'))"
    using disconnect_unfold [OF rt] assms(4) by (simp add: t'_def t1_def)
  then consider "q = -1" "u = t" | "q = 0" "u = t'" by (auto split: if_splits)
  then show "wf_server u" "link_frame c d s u" "q \<in> {0, -1}"
    "set (clients_connected (device_at u d)) \<subseteq> set (clients_connected (device_at s d)) - {c}"
    using w' f' keep by (cases; simp)+
qed

section \<open>Leaving every device\<close>

lemma disconnect_each_keeps:
  assumes "wf_server s" "c \<in> set (g_clients s)" "set ds \<subseteq> set (g_devices s)"
    and "disconnect_from_each E c ds s = (r, u)"
  shows "wf_server u \<and> same_setup s u \<and> same_clients s u
    \<and> (\<forall>e. set (clients_connected (device_at u e)) \<subseteq> set (clients_connected (device_at s e)))
    \<and> (r = 0 \<longrightarrow> (\<forall>e \<in> set ds. c \<notin> set (clients_connected (device_at u e))))
    \<and> r \<in> {0, -1}"
  using assms
proof (induction ds arbitrary: s)
  case Nil
  then show ?case by simp
next
  case (Cons d ds)
  obtain q t where qt: "disconnect_client_from_device E c d s = (q, t)" by fastforce
  have d: "d \<in> set (g_devices s)" using Cons.prems(3) by simp
  note k = disconnect_keeps [OF Cons.prems(1,2) d qt]
  have fr: "same_setup s t" "same_clients s t" "\<And>e. e \<noteq> d \<Longrightarrow> device_at t e = device_at s e"
    using k(2) by (auto simp: link_frame_def)
  have sub: "set (clients_connected (device_at t e)) \<subseteq> set (clients_connected (device_at s e))" for e
    using k(4) fr(3) [of e] by (cases "e = d") auto
  have pre: "c \<in> set (g_clients t)" "set ds \<subseteq> set (g_devices t)"
    using fr Cons.prems by (auto simp: same_setup_def same_clients_def)
  show ?case
  proof (cases "q < 0 \<and> errno t \<noteq> ENODEV")
    case True
    with qt Cons.prems(4) have "u = t" "r = -1" by auto
    with k(1) fr sub show ?thesis by simp
  next
    case False
    with qt Cons.prems(4) have "disconnect_from_each E c ds t = (r, u)" by auto
    note ih = Cons.IH [OF k(1) pre this]
    have "c \<notin> set (clients_connected (device_at u d))" if "r = 0" using ih k(4) by blast
    moreover have "same_setup s u" "same_clients s u"
      using ih fr same_setup_trans same_clients_trans by blast+
    moreover have "set (clients_connected (device_at u e)) \<subseteq> set (clients_connected (device_at s e))" for e
      using ih sub [of e] by blast
    ultimately show ?thesis using ih by auto
  qed
qed

lemma remove_client_from_all_devices_keeps:
  assumes "wf_server s" "c \<in> set (g_clients s)" "remove_client_from_all_devices E c s = (r, t)"
  shows "wf_server t" "same_setup s t" "same_clients s t"
    "r = 0 \<Longrightarrow> d \<in> set (g_devices s) \<Longrightarrow> c \<notin> set (clients_connected (device_at t d))"
    "r \<in> {0, -1}"
  using disconnect_each_keeps [OF assms(1,2), of "g_devices s" E r t] assms(3)
  by (auto simp: remove_client_from_all_devices_def)

end
