(* ===== verification/Timeouts.thy ===== *)
theory Timeouts
  imports Connections
begin

text \<open>
  The periodic sweeps of \<open>server/list_fns.c\<close>: \<open>timeout_old_clients\<close> drops the clients that
  have been silent too long, \<open>timeout_old_devices\<close> retries or gives up on devices that
  are stuck connecting or disconnecting. Both keep the stores well formed in every
  environment; in particular no list keeps a client that was freed.
\<close>

section \<open>The sweeps\<close>

definition free_client :: "cli_ptr \<Rightarrow> server \<Rightarrow> server" where
  "free_client c s = s\<lparr>client_live := (client_live s)(c := False)\<rparr>"

text \<open>
  The loop saves \<open>next\<close> before it may unlink the node, and nothing it calls adds to
  \<open>g_clients\<close>, so it visits the clients of the list it started with.
\<close>

fun expire_clients :: "env \<Rightarrow> cli_ptr list \<Rightarrow> server \<Rightarrow> int \<times> server" where
  "expire_clients E [] s = (0, s)"
| "expire_clients E (c # cs) s =
     (case time_now E s of (t, s) \<Rightarrow>
        if t > last_heard_from (client_at s c) + g_client_timeout (conf s)
        then (case remove_client_from_all_devices E c s of (r, s) \<Rightarrow>
               if r < 0 then (-1, s)
               else (case rm_client (g_clients s) c s of (r, l, s) \<Rightarrow>
                 let s = s\<lparr>g_clients := l\<rparr> in
                 if r < 0 then (-1, s) else expire_clients E cs (free_client c s)))
        else expire_clients E cs s)"

definition timeout_old_clients :: "env \<Rightarrow> server \<Rightarrow> int \<times> server" where
  "timeout_old_clients E s = expire_clients E (g_clients s) s"

fun expire_devices :: "env \<Rightarrow> dev_ptr list \<Rightarrow> server \<Rightarrow> int \<times> server" where
  "expire_devices E [] s = (0, s)"
| "expire_devices E (d # ds) s =
     (case status (device_at s d) of
        LINK_CONNECTING \<Rightarrow>
          (case time_now E s of (t, s) \<Rightarrow>
             if connect_time (device_at s d) + g_connect_timeout (conf s) < t
             then (case alter_device_status E d LINK_CONNECTING s of (r, s) \<Rightarrow>
                    if r < 0 then (-1, s) else expire_devices E ds s)
             else expire_devices E ds s)
      | LINK_DISCONNECTING \<Rightarrow>
          (case time_now E s of (t, s) \<Rightarrow>
             if connect_time (device_at s d) + g_disconnect_timeout (conf s) < t
             then (case alter_device_status E d LINK_DISCONNECTING s of (r, s) \<Rightarrow>
                    if r < 0 then (-1, s) else expire_devices E ds s)
             else expire_devices E ds s)
      | _ \<Rightarrow> expire_devices E ds s)"

definition timeout_old_devices :: "env \<Rightarrow> server \<Rightarrow> int \<times> server" where
  "timeout_old_devices E s = expire_devices E (g_devices s) s"

section \<open>Sweeping clients\<close>

text \<open>Unlinking a client that no device lists any more, and freeing it.\<close>

definition drop_client :: "cli_ptr \<Rightarrow> server \<Rightarrow> server" where
  "drop_client c s = free_client c (s\<lparr>g_clients := remove1 c (g_clients s)\<rparr>)"

lemma drop_client_fields [simp]:
  "g_clients (drop_client c s) = remove1 c (g_clients s)" "g_devices (drop_client c s) = g_devices s"
  "device_at (drop_client c s) = device_at s" "client_at (drop_client c s) = client_at s"
  "conf (drop_client c s) = conf s" "tick (drop_client c s) = tick s" "ub (drop_client c s) = ub s"
  "client_live (drop_client c s) = (client_live s)(c := False)" "next_ptr (drop_client c s) = next_ptr s"
  by (simp_all add: drop_client_def free_client_def)

lemma same_setup_drop_client [simp]: "same_setup s (drop_client c t) = same_setup s t"
  by (simp add: same_setup_def drop_client_def free_client_def)

lemma wf_drop_client:
  assumes "wf_server s" "\<And>d. d \<in> set (g_devices s) \<Longrightarrow> c \<notin> set (clients_connected (device_at s d))"
  shows "wf_server (drop_client c s)"
proof -
  have dist: "distinct (g_clients s)" using assms(1) by (simp add: wf_defs)
  have "inj_on (client_key s) (set (g_clients s) - {c})"
    using assms(1) by (auto simp: wf_defs intro: inj_on_subset)
  then have "wf_clients (drop_client c s)" using assms(1) dist by (auto simp: wf_server_def wf_clients_def)
  moreover have "wf_devices (drop_client c s)" using assms(1) by (simp add: wf_server_def wf_devices_def)
  moreover have "wf_links (drop_client c s)"
    using assms dist by (fastforce simp: wf_server_def wf_links_def)
  ultimately show ?thesis by (simp add: wf_server_def)
qed

text \<open>Clients that stay keep their data; none is added.\<close>

definition fewer_clients :: "server \<Rightarrow> server \<Rightarrow> bool" where
  "fewer_clients s t \<longleftrightarrow> set (g_clients t) \<subseteq> set (g_clients s)
     \<and> (\<forall>c. sa (client_at t c) = sa (client_at s c)
            \<and> last_heard_from (client_at t c) = last_heard_from (client_at s c))"

lemma fewer_clients_refl [simp]: "fewer_clients s s"
  by (simp add: fewer_clients_def)

lemma fewer_clients_trans: "fewer_clients s t \<Longrightarrow> fewer_clients t u \<Longrightarrow> fewer_clients s u"
  by (auto simp: fewer_clients_def)

lemma fewer_clients_same: "same_clients s t \<Longrightarrow> fewer_clients s t"
  by (simp add: fewer_clients_def same_clients_def)

lemma expire_one:
  assumes "wf_server s" "c \<in> set (g_clients s)" "remove_client_from_all_devices E c s = (r, t)" "r = 0"
  shows "rm_client (g_clients t) c t = (0, remove1 c (g_clients s), t)"
    "wf_server (drop_client c t)" "same_setup s (drop_client c t)" "fewer_clients s (drop_client c t)"
    "g_clients (drop_client c t) = remove1 c (g_clients s)"
    "drop_client c t = free_client c (t\<lparr>g_clients := remove1 c (g_clients s)\<rparr>)"
proof -
  note k = remove_client_from_all_devices_keeps [OF assms(1-3)]
  have g: "g_clients t = g_clients s" "g_devices t = g_devices s"
    using k(2,3) by (auto simp: same_setup_def same_clients_def)
  show "rm_client (g_clients t) c t = (0, remove1 c (g_clients s), t)"
    using assms(2) g by (simp add: clis.rm_result)
  show "wf_server (drop_client c t)"
    by (rule wf_drop_client [OF k(1)]) (use k(4) assms(4) g in auto)
  show "same_setup s (drop_client c t)" using k(2) by simp
  show "fewer_clients s (drop_client c t)"
    using k(3) set_remove1_subset [of c "g_clients s"] by (auto simp: fewer_clients_def same_clients_def)
  show "g_clients (drop_client c t) = remove1 c (g_clients s)"
    "drop_client c t = free_client c (t\<lparr>g_clients := remove1 c (g_clients s)\<rparr>)"
    using g by (simp_all add: drop_client_def free_client_def)
qed

definition silent :: "int \<Rightarrow> server \<Rightarrow> cli_ptr \<Rightarrow> bool" where
  "silent t s c \<longleftrightarrow> t > last_heard_from (client_at s c) + g_client_timeout (conf s)"

lemma expire_step:
  assumes "wf_server s" "c \<in> set (g_clients s)"
  obtains (kept) t where "\<not> silent (e_time E (tick s)) s c" "same_core s t" "ub t = ub s"
      "expire_clients E (c # cs) s = expire_clients E cs t"
  | (failed) t where "silent (e_time E (tick s)) s c" "wf_server t" "same_setup s t" "same_clients s t"
      "expire_clients E (c # cs) s = (-1, t)"
  | (dropped) t where "silent (e_time E (tick s)) s c" "wf_server t" "same_setup s t" "fewer_clients s t"
      "g_clients t = remove1 c (g_clients s)" "expire_clients E (c # cs) s = expire_clients E cs t"
proof -
  define s1 where "s1 = snd (time_now E s)"
  have core: "same_core s s1" "ub s1 = ub s" by (simp_all add: s1_def)
  have tm: "time_now E s = (e_time E (tick s), s1)" by (simp add: s1_def time_now_def)
  note f = same_core_fields [OF core(1)]
  show ?thesis
  proof (cases "silent (e_time E (tick s)) s c")
    case False
    then show ?thesis using kept [of s1] core tm f by (simp add: silent_def)
  next
    case True
    obtain r t where rt: "remove_client_from_all_devices E c s1 = (r, t)" by fastforce
    have w1: "wf_server s1" "c \<in> set (g_clients s1)" using assms f by (simp_all add: s1_def)
    note k = remove_client_from_all_devices_keeps [OF w1 rt]
    have s01: "same_setup s s1" "same_clients s s1" using core same_setup_io same_clients_io by blast+
    show ?thesis
    proof (cases "r = 0")
      case True
      note one = expire_one [OF w1 rt True]
      have "expire_clients E (c # cs) s = expire_clients E cs (drop_client c t)"
        using True \<open>silent _ s c\<close> tm f rt one(1) by (simp add: silent_def one(6) Let_def f)
      with True one s01 \<open>silent _ s c\<close> f show ?thesis
        by (intro dropped [of "drop_client c t"])
           (auto intro: same_setup_trans fewer_clients_trans fewer_clients_same)
    next
      case False
      then have "expire_clients E (c # cs) s = (-1, t)"
        using k(5) \<open>silent _ s c\<close> tm f rt by (auto simp: silent_def)
      with k s01 \<open>silent _ s c\<close> show ?thesis
        by (intro failed [of t]) (auto intro: same_setup_trans same_clients_trans)
    qed
  qed
qed

lemma expire_clients_keeps:
  assumes "wf_server s" "distinct cs" "set cs \<subseteq> set (g_clients s)" "expire_clients E cs s = (r, u)"
  shows "wf_server u \<and> same_setup s u \<and> fewer_clients s u \<and> r \<in> {0, -1}"
  using assms
proof (induction cs arbitrary: s)
  case Nil
  then show ?case by simp
next
  case (Cons c cs)
  have c: "c \<in> set (g_clients s)" and cs: "set cs \<subseteq> set (g_clients s) - {c}" "distinct cs"
    using Cons.prems by auto
  have dist: "distinct (g_clients s)" using Cons.prems(1) by (simp add: wf_defs)
  from Cons.prems(1) c show ?case
  proof (cases rule: expire_step [where E = E and cs = cs])
    case (kept t)
    have "wf_server t" "set cs \<subseteq> set (g_clients t)"
      using wf_same_core [OF kept(2)] Cons.prems(1) cs same_core_fields(3) [OF kept(2)] by auto
    from Cons.IH [OF this(1) cs(2) this(2)] Cons.prems(4) kept show ?thesis
      by (auto intro: same_setup_trans same_setup_io fewer_clients_trans fewer_clients_same
          same_clients_io)
  next
    case (failed t)
    with Cons.prems(4) show ?thesis by (auto intro: fewer_clients_same)
  next
    case (dropped t)
    have "set cs \<subseteq> set (g_clients t)" using dropped(5) cs dist by auto
    from Cons.IH [OF dropped(2) cs(2) this] Cons.prems(4) dropped show ?thesis
      by (auto intro: same_setup_trans fewer_clients_trans)
  qed
qed

lemma timeout_old_clients_keeps:
  assumes "wf_server s" "timeout_old_clients E s = (r, u)"
  shows "wf_server u" "same_setup s u" "fewer_clients s u" "r \<in> {0, -1}"
  using expire_clients_keeps [OF assms(1), of "g_clients s" E r u] assms
  by (auto simp: timeout_old_clients_def wf_defs)

text \<open>With the clock standing still, a sweep that succeeds keeps exactly the clients heard from.\<close>

lemma expire_clients_filter:
  assumes "wf_server s" "distinct cs" "set cs \<subseteq> set (g_clients s)" "\<And>n. e_time E n = T"
    "expire_clients E cs s = (0, u)"
  shows "g_clients u = filter (\<lambda>c. c \<notin> set cs \<or> \<not> silent T s c) (g_clients s)"
  using assms
proof (induction cs arbitrary: s)
  case Nil
  then show ?case by simp
next
  case (Cons c cs)
  have c: "c \<in> set (g_clients s)" "c \<notin> set cs" and cs: "set cs \<subseteq> set (g_clients s) - {c}" "distinct cs"
    using Cons.prems by auto
  have dist: "distinct (g_clients s)" using Cons.prems(1) by (simp add: wf_defs)
  from Cons.prems(1) c(1) show ?case
  proof (cases rule: expire_step [where E = E and cs = cs])
    case (kept t)
    note f = same_core_fields [OF kept(2)]
    have "wf_server t" "set cs \<subseteq> set (g_clients t)"
      using wf_same_core [OF kept(2)] Cons.prems(1) cs f by auto
    from Cons.IH [OF this(1) cs(2) this(2) Cons.prems(4)] Cons.prems(5) kept(4)
    have "g_clients u = filter (\<lambda>c. c \<notin> set cs \<or> \<not> silent T s c) (g_clients s)"
      by (simp add: f silent_def)
    then show ?thesis using kept(1) Cons.prems(4) by (auto intro!: filter_cong)
  next
    case (failed t)
    with Cons.prems(5) show ?thesis by simp
  next
    case (dropped t)
    have sub: "set cs \<subseteq> set (g_clients t)" using dropped(5) cs dist by auto
    have sil: "silent T t = silent T s"
      using dropped(3,4) by (auto simp: silent_def same_setup_def fewer_clients_def fun_eq_iff)
    from Cons.IH [OF dropped(2) cs(2) sub Cons.prems(4)] Cons.prems(5) dropped(6)
    have "g_clients u = filter (\<lambda>c. c \<notin> set cs \<or> \<not> silent T s c) (filter (\<lambda>x. x \<noteq> c) (g_clients s))"
      using dropped(5) dist by (simp add: sil distinct_remove1_removeAll removeAll_filter_not_eq eq_commute)
    then show ?thesis using dropped(1) Cons.prems(4) by (auto intro!: filter_cong)
  qed
qed


section \<open>Sweeping devices\<close>

text \<open>The request a sweep makes for a device, if its status calls for one.\<close>

definition sweep_request :: "server \<Rightarrow> dev_ptr \<Rightarrow> (device_status_t \<times> int) option" where
  "sweep_request s d = (case status (device_at s d) of
     LINK_CONNECTING \<Rightarrow> Some (LINK_CONNECTING, connect_time (device_at s d) + g_connect_timeout (conf s))
   | LINK_DISCONNECTING \<Rightarrow> Some (LINK_DISCONNECTING, connect_time (device_at s d) + g_disconnect_timeout (conf s))
   | _ \<Rightarrow> None)"

lemma expire_step_device:
  obtains (skipped) t where "sweep_request s d = None \<or> (\<exists>st due. sweep_request s d = Some (st, due) \<and> \<not> due < e_time E (tick s))"
      "same_core s t" "ub t = ub s" "trace t = trace s" "expire_devices E (d # ds) s = expire_devices E ds t"
  | (swept) st due t u r where "sweep_request s d = Some (st, due)" "due < e_time E (tick s)"
      "st \<in> {LINK_CONNECTING, LINK_DISCONNECTING}" "status (device_at s d) = st"
      "same_core s t" "ub t = ub s" "trace t = trace s" "alter_device_status E d st t = (r, u)"
      "expire_devices E (d # ds) s = (if r < 0 then (-1, u) else expire_devices E ds u)"
proof -
  define s1 where "s1 = snd (time_now E s)"
  have core: "same_core s s1" "ub s1 = ub s" "trace s1 = trace s" by (simp_all add: s1_def)
  have tm: "time_now E s = (e_time E (tick s), s1)" by (simp add: s1_def time_now_def)
  note f = same_core_fields [OF core(1)]
  obtain r u where ru: "alter_device_status E d (status (device_at s d)) s1 = (r, u)" by fastforce
  consider "sweep_request s d = None" | st due where "sweep_request s d = Some (st, due)" by fastforce
  then show ?thesis
  proof cases
    case 1
    then show ?thesis
      by (intro skipped [of s]) (auto simp: sweep_request_def split: device_status_t.splits)
  next
    case (2 st due)
    show ?thesis
    proof (cases "due < e_time E (tick s)")
      case True
      with 2 ru f core tm show ?thesis
        by (intro swept [of st due s1 r u])
           (auto simp: sweep_request_def split: device_status_t.splits)
    next
      case False
      with 2 f core tm show ?thesis
        by (intro skipped [of s1]) (auto simp: sweep_request_def split: device_status_t.splits)
    qed
  qed
qed

lemma expire_devices_keeps:
  assumes "wf_server s" "expire_devices E ds s = (r, u)"
  shows "wf_server u \<and> same_setup s u \<and> same_clients s u \<and> r \<in> {0, -1}"
  using assms
proof (induction ds arbitrary: s)
  case Nil
  then show ?case by simp
next
  case (Cons d ds)
  show ?case
  proof (cases rule: expire_step_device [of s d E ds])
    case (skipped t)
    have "wf_server t" by (rule wf_same_core [OF skipped(2) Cons.prems(1)])
    from Cons.IH [OF this] Cons.prems(2) skipped show ?thesis
      by (auto intro: same_setup_trans same_setup_io same_clients_trans same_clients_io)
  next
    case (swept st due t v q)
    have wt: "wf_server t" by (rule wf_same_core [OF swept(5) Cons.prems(1)])
    have wv: "wf_server v" and e: "device_effect d t v"
      using alter.keeps_wf [OF wt, of E d st] alter.effect [OF wt, of d E st] swept(8) by simp_all
    have fr: "same_setup s v" "same_clients s v"
      using same_setup_trans [OF same_setup_io [OF swept(5,6)] same_setup_effect [OF e]]
        same_clients_trans [OF same_clients_io [OF swept(5)] same_clients_effect [OF e]] by auto
    show ?thesis
    proof (cases "q < 0")
      case True
      with swept(9) Cons.prems(2) wv fr show ?thesis by simp
    next
      case False
      with swept(9) Cons.prems(2) have "expire_devices E ds v = (r, u)" by simp
      from Cons.IH [OF wv this] fr show ?thesis by (auto intro: same_setup_trans same_clients_trans)
    qed
  qed
qed

lemma timeout_old_devices_keeps:
  assumes "wf_server s" "timeout_old_devices E s = (r, u)"
  shows "wf_server u" "same_setup s u" "same_clients s u" "r \<in> {0, -1}"
  using expire_devices_keeps [OF assms(1), of E "g_devices s" r u] assms(2)
  by (auto simp: timeout_old_devices_def)

end
