(* ===== verification/Send_Message.thy ===== *)
theory Send_Message
  imports Timeouts
begin

text \<open>
  The messages the server sends: \<open>server/send_message.c\<close> (replies to one client) and
  \<open>server/poll_clients.c\<close> (broadcasts to the multicast group). A buffer is grown by \<open>malloc\<close>
  or \<open>realloc\<close> to a computed size and then written; \<open>fits\<close> compares that size with what is
  written. Sending touches nothing but the runtime, which is the contract of the locale
  \<open>runtime_only\<close>; the lemmas give the exact text of each message and the exact
  condition under which a buffer overflows.
\<close>

section \<open>Building and sending\<close>

text \<open>The text behind a \<open>char *\<close>; a NULL one makes the caller's \<open>strlen\<close> undefined.\<close>

definition c_text :: "string option \<Rightarrow> string" where
  "c_text p = (case p of None \<Rightarrow> [] | Some t \<Rightarrow> t)"

lemma c_text_Some [simp]: "c_text (Some t) = t"
  by (simp add: c_text_def)

definition uptime_text :: "int \<Rightarrow> int \<Rightarrow> string" where
  "uptime_text seconds users = print_int (c_int seconds) @ '' '' @ print_int users"

definition print_device_status :: "env \<Rightarrow> dev_ptr \<Rightarrow> server \<Rightarrow> string option \<times> server" where
  "print_device_status E d s = (
     let x = device_at s d;
         s = undefined_if (device_name x = None) s;
         max_str_len = length (c_text (device_name x)) + length (g_link_status_message (status x)) + 2
     in case malloc E s of (ok, s) \<Rightarrow>
        if \<not> ok then (None, s)
        else let dev_str = c_text (device_name x) @ g_link_status_message (status x);
                 s = fits max_str_len dev_str s
        in if status x = LINK_UP
           then (case time_now E s of (t, s) \<Rightarrow>
             let params = uptime_text (t - connect_time x) (int (length (clients_connected x)));
                 s = fits 20 params s
             in case malloc E s of (ok, s) \<Rightarrow>
                if \<not> ok then (None, s)
                else (Some (dev_str @ params),
                      fits (length dev_str + length params + 1) (dev_str @ params) s))
           else (Some dev_str, s))"

text \<open>The end of each reply: a short send counts as an error unless \<open>errno\<close> is \<open>ECONNREFUSED\<close>.\<close>

definition send_reply :: "env \<Rightarrow> cli_ptr \<Rightarrow> string \<Rightarrow> server \<Rightarrow> int \<times> server" where
  "send_reply E client dev_str s =
     (case sendto E (sa (client_at s client)) dev_str s of (r, s) \<Rightarrow>
        if r \<noteq> int (length dev_str) \<and> errno s \<noteq> ECONNREFUSED then (-1, s) else (0, s))"

fun append_descriptions :: "env \<Rightarrow> dev_ptr list \<Rightarrow> string \<Rightarrow> server \<Rightarrow> string option \<times> server" where
  "append_descriptions E [] dev_str s = (Some dev_str, s)"
| "append_descriptions E (d # ds) dev_str s = (
     let x = device_at s d;
         s = undefined_if (device_name x = None \<or> device_description x = None) s;
         nm = c_text (device_name x); desc = c_text (device_description x);
         new_len = length nm + length desc + length dev_str + 4
     in case malloc E s of (ok, s) \<Rightarrow>
        if \<not> ok then (None, s)
        else let dev_str = dev_str @ nm @ TAB @ desc @ NL
             in append_descriptions E ds dev_str (fits new_len dev_str s))"

definition send_device_list :: "env \<Rightarrow> cli_ptr \<Rightarrow> server \<Rightarrow> int \<times> server" where
  "send_device_list E client s =
     (case malloc E s of (ok, s) \<Rightarrow>
        if \<not> ok then (-1, s)
        else (case append_descriptions E (g_devices s) SERVER_DEVICES
                     (fits (length SERVER_DEVICES + 1) SERVER_DEVICES s) of
                (None, s) \<Rightarrow> (-1, s)
              | (Some dev_str, s) \<Rightarrow> send_reply E client dev_str s))"

definition send_device_status :: "env \<Rightarrow> cli_ptr \<Rightarrow> dev_ptr \<Rightarrow> server \<Rightarrow> int \<times> server" where
  "send_device_status E client device s = (
     let nm = device_name (device_at s device);
         s = undefined_if (nm = None) s;
         max_str_len = length SERVER_STATUS_PREFIX + length SERVER_STATUS_DISCONNECTING
                         + length (c_text nm) + 4
     in case malloc E s of (ok, s) \<Rightarrow>
        if \<not> ok then (-1, s)
        else (case print_device_status E device s of
                (None, s) \<Rightarrow> (-1, s)
              | (Some dev_stat, s) \<Rightarrow>
                  let dev_str = SERVER_STATUS_PREFIX @ dev_stat
                  in send_reply E client dev_str (fits max_str_len dev_str s)))"

text \<open>
  The first device name is appended without a separator and in a buffer with one byte to
  spare for the NUL, the others with a tab and two spare bytes.
\<close>

fun append_names :: "env \<Rightarrow> dev_ptr list \<Rightarrow> string \<Rightarrow> server \<Rightarrow> string option \<times> server" where
  "append_names E [] dev_str s = (Some dev_str, s)"
| "append_names E (d # ds) dev_str s = (
     let nm = device_name (device_at s d);
         s = undefined_if (nm = None) s;
         new_len = length (c_text nm) + length dev_str + 3
     in case malloc E s of (ok, s) \<Rightarrow>
        if \<not> ok then (None, s)
        else let dev_str = dev_str @ TAB @ c_text nm
             in append_names E ds dev_str (fits new_len dev_str s))"

definition append_first_name :: "env \<Rightarrow> dev_ptr list \<Rightarrow> string \<Rightarrow> server \<Rightarrow> string option \<times> server" where
  "append_first_name E ds dev_str s = (case ds of
     [] \<Rightarrow> append_names E [] dev_str s
   | d # ds \<Rightarrow>
       let nm = device_name (device_at s d);
           s = undefined_if (nm = None) s;
           new_len = length dev_str + length (c_text nm) + 1
       in case malloc E s of (ok, s) \<Rightarrow>
          if \<not> ok then (None, s)
          else let dev_str = dev_str @ c_text nm
               in append_names E ds dev_str (fits new_len dev_str s))"

definition send_client_status :: "env \<Rightarrow> cli_ptr \<Rightarrow> server \<Rightarrow> int \<times> server" where
  "send_client_status E client s = (
     let list_pos = devices_connected (client_at s client)
     in case malloc E s of (ok, s) \<Rightarrow>
        if \<not> ok then (-1, s)
        else (case append_first_name E list_pos SERVER_CLIENT_STATUS
                     (fits (length SERVER_CLIENT_STATUS + 1) SERVER_CLIENT_STATUS s) of
                (None, s) \<Rightarrow> (-1, s)
              | (Some dev_str, s) \<Rightarrow> send_reply E client dev_str s))"

section \<open>Broadcasts\<close>

text \<open>The message is a \<open>char *\<close> that may be NULL, since \<open>strdup\<close> is not checked.\<close>

definition broadcast_message :: "env \<Rightarrow> string option \<Rightarrow> server \<Rightarrow> int \<times> server" where
  "broadcast_message E send_buffer s =
     (case inet_aton (g_multicast_group (conf s)) of
        None \<Rightarrow> (-1, s)
      | Some a \<Rightarrow>
          let grp = \<lparr>sin_addr = a, sin_port = g_multicast_port (conf s)\<rparr>;
              s = undefined_if (send_buffer = None) s
          in case sendto E grp (c_text send_buffer) s of (r, s) \<Rightarrow>
             if r \<noteq> int (length (c_text send_buffer)) then (-1, s) else (0, s))"

fun append_statuses :: "env \<Rightarrow> dev_ptr list \<Rightarrow> string \<Rightarrow> server \<Rightarrow> string option \<times> server" where
  "append_statuses E [] message s = (Some message, s)"
| "append_statuses E (d # ds) message s =
     (case print_device_status E d s of
        (None, s) \<Rightarrow> (None, s)
      | (Some dev_stat, s) \<Rightarrow>
          (case malloc E s of (ok, s) \<Rightarrow>
             if \<not> ok then (None, s)
             else let new_len = length message + length dev_stat + 2;
                      message = message @ dev_stat @ NL
                  in append_statuses E ds message (fits new_len message s)))"

definition broadcast_status_message :: "env \<Rightarrow> server \<Rightarrow> int \<times> server" where
  "broadcast_status_message E s =
     (case malloc E s of (ok, s) \<Rightarrow>
        if \<not> ok then (-1, s)
        else (case append_statuses E (g_devices s) BROADCAST_STATUS
                     (fits (length BROADCAST_STATUS + 1) BROADCAST_STATUS s) of
                (None, s) \<Rightarrow> (-1, s)
              | (Some message, s) \<Rightarrow> broadcast_message E (Some message) s))"

definition broadcast_init_message :: "env \<Rightarrow> server \<Rightarrow> int \<times> server" where
  "broadcast_init_message E s =
     (case malloc E s of (ok, s) \<Rightarrow> broadcast_message E (if ok then Some BROADCAST_INIT else None) s)"

definition broadcast_quit_message :: "env \<Rightarrow> server \<Rightarrow> int \<times> server" where
  "broadcast_quit_message E s =
     (case malloc E s of (ok, s) \<Rightarrow> broadcast_message E (if ok then Some BROADCAST_QUIT else None) s)"

section \<open>Sending touches only the runtime\<close>

locale runtime_only =
  fixes run :: "server \<Rightarrow> 'a \<times> server"
  assumes core: "same_core s (snd (run s))"
    and moves: "progress s (snd (run s))"
begin

lemma later: "tick s \<le> tick (snd (run s))"
  using moves [of s] by (simp add: progress_def)

lemma raises: "ub s \<Longrightarrow> ub (snd (run s))"
  using moves [of s] by (simp add: progress_def)

lemma keeps_wf: "wf_server (snd (run s)) = wf_server s"
  by (rule wf_same_core_eq [OF core])

lemma keeps_invariants:
  "symmetric_links (snd (run s)) = symmetric_links s" "demand_matches (snd (run s)) = demand_matches s"
  "idle_when_disconnecting (snd (run s)) = idle_when_disconnecting s"
  using same_core_invariants [OF core [of s]] by simp_all

lemmas keeps_fields [simp] = same_core_fields [OF core]

lemma keeps_clients: "same_clients s (snd (run s))"
  by (simp add: same_clients_io core)

end

lemma same_core_send_reply [simp]: "same_core s (snd (send_reply E c m t)) = same_core s t"
  by (simp add: send_reply_def case_prod_beta)

lemma same_core_print [simp]: "same_core s (snd (print_device_status E d t)) = same_core s t"
  by (simp add: print_device_status_def Let_def case_prod_beta)

lemma same_core_append_descriptions [simp]:
  "same_core s (snd (append_descriptions E ds m t)) = same_core s t"
  by (induction ds arbitrary: m t) (simp_all add: Let_def case_prod_beta)

lemma same_core_append_names [simp]:
  "same_core s (snd (append_names E ds m t)) = same_core s t"
  by (induction ds arbitrary: m t) (simp_all add: Let_def case_prod_beta)

lemma same_core_append_first_name [simp]:
  "same_core s (snd (append_first_name E ds m t)) = same_core s t"
  by (simp add: append_first_name_def Let_def case_prod_beta split: list.splits)

lemma same_core_append_statuses [simp]:
  "same_core s (snd (append_statuses E ds m t)) = same_core s t"
  by (induction ds arbitrary: m t) (simp_all add: Let_def case_prod_beta split: option.splits)

lemma same_core_broadcast_message [simp]:
  "same_core s (snd (broadcast_message E m t)) = same_core s t"
  by (simp add: broadcast_message_def Let_def case_prod_beta split: option.splits)

text \<open>Building and sending move forward.\<close>

lemma progress_send_reply [simp]: "progress s t \<Longrightarrow> progress s (snd (send_reply E c m t))"
  by (simp add: send_reply_def case_prod_beta)

lemma progress_print [simp]: "progress s t \<Longrightarrow> progress s (snd (print_device_status E d t))"
  by (simp add: print_device_status_def Let_def case_prod_beta)

lemma progress_append_descriptions [simp]:
  "progress s t \<Longrightarrow> progress s (snd (append_descriptions E ds m t))"
  by (induction ds arbitrary: m t) (simp_all add: Let_def case_prod_beta)

lemma progress_append_names [simp]: "progress s t \<Longrightarrow> progress s (snd (append_names E ds m t))"
  by (induction ds arbitrary: m t) (simp_all add: Let_def case_prod_beta)

lemma progress_append_first_name [simp]: "progress s t \<Longrightarrow> progress s (snd (append_first_name E ds m t))"
  by (simp add: append_first_name_def Let_def case_prod_beta split: list.splits)

lemma progress_append_statuses [simp]: "progress s t \<Longrightarrow> progress s (snd (append_statuses E ds m t))"
  by (induction ds arbitrary: m t) (simp_all add: Let_def case_prod_beta split: option.splits)

lemma progress_broadcast_message [simp]: "progress s t \<Longrightarrow> progress s (snd (broadcast_message E m t))"
  by (simp add: broadcast_message_def Let_def case_prod_beta split: option.splits)

interpretation reply: runtime_only "send_reply E c m" for E c m
  by unfold_locales simp_all

interpretation group_message: runtime_only "broadcast_message E m" for E m
  by unfold_locales simp_all

interpretation print_status: runtime_only "print_device_status E d" for E d
  by unfold_locales simp_all

interpretation statuses: runtime_only "append_statuses E ds m" for E ds m
  by unfold_locales simp_all

interpretation descriptions: runtime_only "append_descriptions E ds m" for E ds m
  by unfold_locales simp_all

interpretation names: runtime_only "append_first_name E ds m" for E ds m
  by unfold_locales simp_all

interpretation device_list: runtime_only "send_device_list E c" for E c
  by unfold_locales (simp_all add: send_device_list_def case_prod_beta split: option.splits)

interpretation device_status: runtime_only "send_device_status E c d" for E c d
  by unfold_locales (simp_all add: send_device_status_def Let_def case_prod_beta split: option.splits)

interpretation client_status: runtime_only "send_client_status E c" for E c
  by unfold_locales (simp_all add: send_client_status_def Let_def case_prod_beta split: option.splits)

interpretation status_broadcast: runtime_only "broadcast_status_message E" for E
  by unfold_locales (simp_all add: broadcast_status_message_def case_prod_beta split: option.splits)

interpretation init_broadcast: runtime_only "broadcast_init_message E" for E
  by unfold_locales (simp_all add: broadcast_init_message_def case_prod_beta)

interpretation quit_broadcast: runtime_only "broadcast_quit_message E" for E
  by unfold_locales (simp_all add: broadcast_quit_message_def case_prod_beta)

section \<open>The text of the messages\<close>

text \<open>The status of a device as the protocol words it, at a given time.\<close>

definition status_text :: "device_t \<Rightarrow> int \<Rightarrow> string" where
  "status_text x now = c_text (device_name x) @ g_link_status_message (status x) @
     (if status x = LINK_UP
      then uptime_text (now - connect_time x) (int (length (clients_connected x))) else [])"

lemma wb_malloc [simp]: "well_behaved E \<Longrightarrow> fst (malloc E s)"
  by (simp add: well_behaved_def fst_malloc)

lemma fst_time_now: "fst (time_now E s) = e_time E (tick s)"
  by (simp add: time_now_def)

lemma print_device_status_text:
  assumes "well_behaved E"
  shows "fst (print_device_status E d s) = Some (status_text (device_at s d) (e_time E (Suc (tick s))))"
  using assms
  by (simp add: print_device_status_def status_text_def Let_def case_prod_beta fst_time_now)

lemma append_statuses_text:
  assumes "well_behaved E" "\<And>n. e_time E n = T"
  shows "fst (append_statuses E ds m s) =
    Some (m @ concat (map (\<lambda>d. status_text (device_at s d) T @ NL) ds))"
proof (induction ds arbitrary: m s)
  case Nil
  then show ?case by simp
next
  case (Cons d ds)
  define t where "t = snd (print_device_status E d s)"
  have p: "print_device_status E d s = (Some (status_text (device_at s d) T), t)"
    using print_device_status_text [OF assms(1), of d s] assms(2) by (simp add: t_def prod_eq_iff)
  have "device_at t = device_at s" by (simp add: t_def)
  then show ?case using Cons.IH assms(1) by (simp add: p case_prod_beta Let_def)
qed

lemma append_descriptions_text:
  assumes "well_behaved E"
  shows "fst (append_descriptions E ds m s) = Some (m @ concat (map (\<lambda>d.
    c_text (device_name (device_at s d)) @ TAB @ c_text (device_description (device_at s d)) @ NL) ds))"
  using assms by (induction ds arbitrary: m s) (simp_all add: Let_def case_prod_beta)

lemma append_names_text:
  assumes "well_behaved E"
  shows "fst (append_names E ds m s) =
    Some (m @ concat (map (\<lambda>d. TAB @ c_text (device_name (device_at s d))) ds))"
  using assms by (induction ds arbitrary: m s) (simp_all add: Let_def case_prod_beta)

text \<open>The names of the devices, separated by tabs.\<close>

fun tab_separated :: "string list \<Rightarrow> string" where
  "tab_separated [] = []"
| "tab_separated [w] = w"
| "tab_separated (w # ws) = w @ TAB @ tab_separated ws"

lemma tab_separated_Cons: "tab_separated (w # ws) = w @ concat (map (\<lambda>v. TAB @ v) ws)"
  by (induction ws arbitrary: w) auto

lemma append_first_name_text:
  assumes "well_behaved E"
  shows "fst (append_first_name E ds m s) =
    Some (m @ tab_separated (map (\<lambda>d. c_text (device_name (device_at s d))) ds))"
  using assms
  by (cases ds) (simp_all add: append_first_name_def append_names_text Let_def case_prod_beta
      tab_separated_Cons o_def)

text \<open>A message that is sent whole appears in the trace, and sending it is no error.\<close>

lemma send_reply_whole:
  assumes "well_behaved E"
  shows "fst (send_reply E c m s) = 0"
    "trace (snd (send_reply E c m s)) = trace s @ [Sent (sa (client_at s c)) m (int (length m))]"
  using assms by (simp_all add: send_reply_def sendto_def well_behaved_def Let_def)

lemma broadcast_message_whole:
  assumes "well_behaved E" "inet_aton (g_multicast_group (conf s)) = Some a"
  shows "fst (broadcast_message E (Some m) s) = 0"
    "trace (snd (broadcast_message E (Some m) s)) =
       trace s @ [Sent \<lparr>sin_addr = a, sin_port = g_multicast_port (conf s)\<rparr> m (int (length m))]"
  using assms
  by (simp_all add: broadcast_message_def sendto_def well_behaved_def undefined_if_def Let_def)

lemma trace_append [simp]:
  "trace (snd (print_device_status E d s)) = trace s"
  "trace (snd (append_statuses E ds m s)) = trace s"
  "trace (snd (append_descriptions E ds m s)) = trace s"
  "trace (snd (append_names E ds m s)) = trace s"
proof -
  show p: "trace (snd (print_device_status E d s)) = trace s" for d s
    by (simp add: print_device_status_def Let_def case_prod_beta)
  show "trace (snd (append_statuses E ds m s)) = trace s"
    by (induction ds arbitrary: m s) (simp_all add: Let_def case_prod_beta p split: option.splits)
  show "trace (snd (append_descriptions E ds m s)) = trace s"
    "trace (snd (append_names E ds m s)) = trace s"
    by (induction ds arbitrary: m s) (simp_all add: Let_def case_prod_beta)
qed

lemma trace_append_first [simp]: "trace (snd (append_first_name E ds m s)) = trace s"
  by (simp add: append_first_name_def Let_def case_prod_beta split: list.splits)

definition status_broadcast_text :: "server \<Rightarrow> int \<Rightarrow> string" where
  "status_broadcast_text s now =
     BROADCAST_STATUS @ concat (map (\<lambda>d. status_text (device_at s d) now @ NL) (g_devices s))"

lemma broadcast_status_sends:
  assumes "well_behaved E" "\<And>n. e_time E n = T" "inet_aton (g_multicast_group (conf s)) = Some a"
  shows "fst (broadcast_status_message E s) = 0"
    "trace (snd (broadcast_status_message E s)) = trace s @
       [Sent \<lparr>sin_addr = a, sin_port = g_multicast_port (conf s)\<rparr> (status_broadcast_text s T)
         (int (length (status_broadcast_text s T)))]"
proof -
  define s0 where "s0 = fits (length BROADCAST_STATUS + 1) BROADCAST_STATUS (snd (malloc E s))"
  define t where "t = snd (append_statuses E (g_devices s) BROADCAST_STATUS s0)"
  have "append_statuses E (g_devices s) BROADCAST_STATUS s0 = (Some (status_broadcast_text s T), t)"
    using append_statuses_text [OF assms(1,2), of "g_devices s" BROADCAST_STATUS s0]
    by (simp add: t_def prod_eq_iff status_broadcast_text_def s0_def)
  then have b: "broadcast_status_message E s = broadcast_message E (Some (status_broadcast_text s T)) t"
    using assms(1) by (simp add: broadcast_status_message_def case_prod_beta s0_def)
  have t: "conf t = conf s" "trace t = trace s" by (simp_all add: t_def s0_def)
  show "fst (broadcast_status_message E s) = 0"
    "trace (snd (broadcast_status_message E s)) = trace s @
       [Sent \<lparr>sin_addr = a, sin_port = g_multicast_port (conf s)\<rparr> (status_broadcast_text s T)
         (int (length (status_broadcast_text s T)))]"
    using broadcast_message_whole [OF assms(1), of t a] assms(3) t by (simp_all add: b)
qed

lemma farewell_sent:
  assumes "well_behaved E" "inet_aton (g_multicast_group (conf s)) = Some a"
  shows "trace (snd (broadcast_quit_message E s)) = trace s @
       [Sent \<lparr>sin_addr = a, sin_port = g_multicast_port (conf s)\<rparr> BROADCAST_QUIT (int (length BROADCAST_QUIT))]"
    "trace (snd (broadcast_init_message E s)) = trace s @
       [Sent \<lparr>sin_addr = a, sin_port = g_multicast_port (conf s)\<rparr> BROADCAST_INIT (int (length BROADCAST_INIT))]"
  using assms broadcast_message_whole [OF assms(1), of "snd (malloc E s)" a]
  by (simp_all add: broadcast_quit_message_def broadcast_init_message_def case_prod_beta)

definition device_list_text :: "server \<Rightarrow> string" where
  "device_list_text s = SERVER_DEVICES @ concat (map (\<lambda>d.
     c_text (device_name (device_at s d)) @ TAB @ c_text (device_description (device_at s d)) @ NL) (g_devices s))"

definition client_status_text :: "server \<Rightarrow> cli_ptr \<Rightarrow> string" where
  "client_status_text s c = SERVER_CLIENT_STATUS @ tab_separated
     (map (\<lambda>d. c_text (device_name (device_at s d))) (devices_connected (client_at s c)))"

lemma replies_sent:
  assumes "well_behaved E"
  shows "fst (send_device_list E c s) = 0 \<and> trace (snd (send_device_list E c s)) = trace s @
           [Sent (sa (client_at s c)) (device_list_text s) (int (length (device_list_text s)))]"
    and "fst (send_client_status E c s) = 0 \<and> trace (snd (send_client_status E c s)) = trace s @
           [Sent (sa (client_at s c)) (client_status_text s c) (int (length (client_status_text s c)))]"
  using assms
  by (simp_all add: send_device_list_def send_client_status_def case_prod_beta Let_def
      append_descriptions_text append_first_name_text send_reply_whole
      device_list_text_def client_status_text_def)

lemma device_status_sent:
  assumes "well_behaved E"
  shows "\<exists>now. let msg = SERVER_STATUS_PREFIX @ status_text (device_at s d) now in
    fst (send_device_status E c d s) = 0
    \<and> trace (snd (send_device_status E c d s)) = trace s @ [Sent (sa (client_at s c)) msg (int (length msg))]"
  using assms
  by (intro exI [of _ "e_time E (Suc (Suc (tick s)))"])
     (simp add: send_device_status_def case_prod_beta Let_def print_device_status_text send_reply_whole)

end
