(* ===== verification/Send_Buffers.thy ===== *)
theory Send_Buffers
  imports Send_Message
begin

text \<open>
  Memory safety of \<open>send_message.c\<close> and \<open>poll_clients.c\<close>: which buffers can overflow. All the
  computed sizes but one are large enough; \<open>params [20]\<close> is, for fewer than ten million users;
  the buffer of \<open>send_device_status\<close> is sized for the longest status word without
  parameters and overflows when the parameters have more than 13 characters.
\<close>

section \<open>The length of the parameters\<close>

lemma length_print_int:
  assumes "- (2 ^ 31) \<le> x" "x < 2 ^ 31"
  shows "length (print_int x) \<le> 11"
proof (cases "x < 0")
  case True
  with assms have "length (print_num (- x)) \<le> Suc 9" by (intro length_print_num) simp_all
  with True show ?thesis by (simp add: print_int_def)
next
  case False
  with assms have "length (print_num x) \<le> Suc 9" by (intro length_print_num) simp_all
  with False show ?thesis by (simp add: print_int_def)
qed

lemma length_print_users: "0 \<le> n \<Longrightarrow> n < 10 ^ 7 \<Longrightarrow> length (print_int n) \<le> 7"
  using length_print_num [of n 6] by (simp add: print_int_def)

text \<open>The comment in the code counts 18 digits; 19 characters and the NUL fit in 20 bytes.\<close>

lemma uptime_text_fits:
  assumes "n < 10 ^ 7"
  shows "length (uptime_text t (int n)) \<le> 19"
proof -
  have "int n < 10 ^ 7" using assms by simp
  then show ?thesis
    using length_print_int [of "c_int t"] c_int_bounds [of t] length_print_users [of "int n"]
    by (simp add: uptime_text_def)
qed

section \<open>Broadcasts and lists\<close>

lemma ub_print:
  "ub (snd (print_device_status E d s)) \<longleftrightarrow> ub s \<or> device_name (device_at s d) = None
     \<or> (e_malloc E (tick s) \<and> status (device_at s d) = LINK_UP
        \<and> 20 \<le> length (uptime_text (e_time E (Suc (tick s)) - connect_time (device_at s d))
                         (int (length (clients_connected (device_at s d))))))"
  by (auto simp: print_device_status_def Let_def case_prod_beta fst_malloc fst_time_now)

definition few_clients :: "server \<Rightarrow> bool" where
  "few_clients s \<longleftrightarrow> length (g_clients s) < 10 ^ 7"

lemma few_users:
  assumes "wf_server s" "few_clients s" "d \<in> set (g_devices s)"
  shows "length (clients_connected (device_at s d)) < 10 ^ 7"
proof -
  have "distinct (clients_connected (device_at s d))" "distinct (g_clients s)"
    "set (clients_connected (device_at s d)) \<subseteq> set (g_clients s)"
    using assms by (auto simp: wf_defs)
  then have "length (clients_connected (device_at s d)) \<le> length (g_clients s)"
    using card_mono [of "set (g_clients s)"] by (simp add: distinct_card [symmetric])
  then show ?thesis using assms(2) by (simp add: few_clients_def)
qed

lemma ub_print_safe:
  assumes "wf_server s" "few_clients s" "d \<in> set (g_devices s)"
  shows "ub (snd (print_device_status E d s)) = ub s"
proof -
  have "length (uptime_text t (int (length (clients_connected (device_at s d))))) \<le> 19" for t
    by (rule uptime_text_fits [OF few_users [OF assms]])
  then have "\<not> 20 \<le> length (uptime_text t (int (length (clients_connected (device_at s d)))))" for t
    by (simp add: not_le less_eq_Suc_le)
  then show ?thesis using assms by (auto simp: ub_print wf_defs)
qed

lemma ub_append_statuses:
  assumes "wf_server s" "few_clients s" "set ds \<subseteq> set (g_devices s)"
  shows "ub (snd (append_statuses E ds m s)) = ub s"
  using assms
proof (induction ds arbitrary: m s)
  case Nil
  then show ?case by simp
next
  case (Cons d ds)
  define p t where "p = fst (print_device_status E d s)" and "t = snd (print_device_status E d s)"
  then have pt: "print_device_status E d s = (p, t)" by simp
  have t: "wf_server t" "few_clients t" "g_devices t = g_devices s" "ub t = ub s"
    using ub_print_safe [OF Cons.prems(1,2), of d E] Cons.prems
    by (simp_all add: t_def few_clients_def print_status.keeps_wf)
  show ?case
  proof (cases p)
    case None
    with pt t show ?thesis by simp
  next
    case (Some st)
    let ?u = "fits (length m + length st + 2) (m @ st @ NL) (snd (malloc E t))"
    have "wf_server ?u" "few_clients ?u" "set ds \<subseteq> set (g_devices ?u)" "ub ?u = ub s"
      using t Cons.prems(3) by (simp_all add: few_clients_def NL_def)
    with Cons.IH pt t(4) Some show ?thesis by (simp add: case_prod_beta Let_def)
  qed
qed

lemma ub_broadcast_message [simp]: "ub (snd (broadcast_message E m s)) \<longleftrightarrow>
    ub s \<or> (m = None \<and> inet_aton (g_multicast_group (conf s)) \<noteq> None)"
  by (auto simp: broadcast_message_def case_prod_beta Let_def split: option.splits)

lemma ub_send_reply [simp]: "ub (snd (send_reply E c m s)) = ub s"
  by (simp add: send_reply_def case_prod_beta)

lemma ub_broadcast_status:
  assumes "wf_server s" "few_clients s"
  shows "ub (snd (broadcast_status_message E s)) = ub s"
  using ub_append_statuses [of "fits (length BROADCAST_STATUS + 1) BROADCAST_STATUS (snd (malloc E s))"] assms
  by (simp add: broadcast_status_message_def case_prod_beta few_clients_def split: option.splits)

text \<open>Descriptions: an option the configuration need not set.\<close>

definition described :: "server \<Rightarrow> bool" where
  "described s \<longleftrightarrow> (\<forall>d \<in> set (g_devices s). device_description (device_at s d) \<noteq> None)"

lemma ub_append_descriptions:
  assumes "wf_server s" "described s" "set ds \<subseteq> set (g_devices s)"
  shows "ub (snd (append_descriptions E ds m s)) = ub s"
  using assms
proof (induction ds arbitrary: m s)
  case Nil
  then show ?case by simp
next
  case (Cons d ds)
  have no: "device_name (device_at s d) \<noteq> None" "device_description (device_at s d) \<noteq> None"
    using Cons.prems by (auto simp: wf_defs described_def)
  obtain nm desc where nd: "device_name (device_at s d) = Some nm" "device_description (device_at s d) = Some desc"
    using no by auto
  let ?t = "snd (malloc E (undefined_if False s))"
  let ?u = "fits (length nm + length desc + length m + 4) (m @ nm @ TAB @ desc @ NL) ?t"
  have "wf_server ?u" "described ?u" "set ds \<subseteq> set (g_devices ?u)" "ub ?u = ub s"
    using Cons.prems by (simp_all add: described_def TAB_def NL_def)
  with Cons.IH [of ?u "m @ nm @ TAB @ desc @ NL"] show ?case
    by (simp add: case_prod_beta Let_def nd)
qed

lemma ub_send_device_list:
  assumes "wf_server s" "described s"
  shows "ub (snd (send_device_list E c s)) = ub s"
  using ub_append_descriptions [of "fits (length SERVER_DEVICES + 1) SERVER_DEVICES (snd (malloc E s))"] assms
  by (simp add: send_device_list_def case_prod_beta described_def split: option.splits)

lemma ub_append_names:
  assumes "wf_server s" "set ds \<subseteq> set (g_devices s)"
  shows "ub (snd (append_names E ds m s)) = ub s"
  using assms
proof (induction ds arbitrary: m s)
  case Nil
  then show ?case by simp
next
  case (Cons d ds)
  obtain nm where nm: "device_name (device_at s d) = Some nm"
    using Cons.prems by (auto simp: wf_defs)
  let ?u = "fits (length nm + length m + 3) (m @ TAB @ nm) (snd (malloc E (undefined_if False s)))"
  have "wf_server ?u" "set ds \<subseteq> set (g_devices ?u)" "ub ?u = ub s"
    using Cons.prems by (simp_all add: TAB_def)
  with Cons.IH [of ?u "m @ TAB @ nm"] show ?case by (simp add: case_prod_beta Let_def nm)
qed

lemma ub_send_client_status:
  assumes "wf_server s" "c \<in> set (g_clients s)"
  shows "ub (snd (send_client_status E c s)) = ub s"
proof -
  let ?t = "fits (length SERVER_CLIENT_STATUS + 1) SERVER_CLIENT_STATUS (snd (malloc E s))"
  let ?ds = "devices_connected (client_at s c)"
  have ds: "set ?ds \<subseteq> set (g_devices s)" using assms by (auto simp: wf_defs)
  have "ub (snd (append_first_name E ?ds SERVER_CLIENT_STATUS ?t)) = ub s"
  proof (cases ?ds)
    case Nil
    then show ?thesis by (simp add: append_first_name_def)
  next
    case (Cons d rest)
    obtain nm where nm: "device_name (device_at s d) = Some nm"
      using ds Cons assms(1) by (auto simp: wf_defs)
    let ?u = "fits (length SERVER_CLIENT_STATUS + length nm + 1) (SERVER_CLIENT_STATUS @ nm)
      (snd (malloc E (undefined_if False ?t)))"
    have "wf_server ?u" "set rest \<subseteq> set (g_devices ?u)" "ub ?u = ub s" using assms(1) ds Cons by simp_all
    with ub_append_names [of ?u rest E "SERVER_CLIENT_STATUS @ nm"] Cons nm show ?thesis
      by (simp add: append_first_name_def case_prod_beta Let_def)
  qed
  then show ?thesis by (simp add: send_client_status_def case_prod_beta Let_def split: option.splits)
qed

section \<open>The reply to STATUS\<close>

lemma lengths_of_status_words:
  "length SERVER_STATUS_DISCONNECTING = 14" "length SERVER_STATUS_UP = 4"
  "length SERVER_STATUS_DOWN = 5" "length SERVER_STATUS_CONNECTING = 11"
  by (simp_all add: protocol_defs)

lemma print_device_status_shape:
  assumes "print_device_status E d s = (Some st, t)" "device_name (device_at s d) = Some nm"
  shows "length st = length nm + length (g_link_status_message (status (device_at s d))) +
    (if status (device_at s d) = LINK_UP
     then length (uptime_text (e_time E (Suc (tick s)) - connect_time (device_at s d))
            (int (length (clients_connected (device_at s d))))) else 0)"
  using assms
  by (auto simp: print_device_status_def Let_def case_prod_beta fst_time_now split: if_splits)

lemma ub_send_device_status:
  assumes wf: "wf_server s" "few_clients s" "d \<in> set (g_devices s)" and E: "\<And>n. e_malloc E n"
  shows "ub (snd (send_device_status E c d s)) \<longleftrightarrow> ub s
     \<or> (status (device_at s d) = LINK_UP
        \<and> 13 < length (uptime_text (e_time E (Suc (Suc (tick s))) - connect_time (device_at s d))
                          (int (length (clients_connected (device_at s d))))))"
proof -
  obtain nm where nm: "device_name (device_at s d) = Some nm" using wf by (auto simp: wf_defs)
  define t where "t = snd (malloc E (undefined_if False s))"
  have t: "device_at t = device_at s" "tick t = Suc (tick s)" "ub t = ub s" "wf_server t" "few_clients t"
    "g_devices t = g_devices s"
    using wf by (simp_all add: t_def few_clients_def)
  obtain p u where pu: "print_device_status E d t = (p, u)" by fastforce
  have "p \<noteq> None"
    using pu E by (auto simp: print_device_status_def Let_def case_prod_beta fst_malloc split: if_splits)
  then obtain st where p: "print_device_status E d t = (Some st, u)" using pu by auto
  have len: "length st = length nm + length (g_link_status_message (status (device_at s d))) +
    (if status (device_at s d) = LINK_UP
     then length (uptime_text (e_time E (Suc (Suc (tick s))) - connect_time (device_at s d))
            (int (length (clients_connected (device_at s d))))) else 0)"
    using print_device_status_shape [OF p, of nm] nm t by simp
  have u: "ub u = ub s" using ub_print_safe [OF t(4,5), of d E] t wf(3) p by simp
  have eq: "ub (snd (send_device_status E c d s)) \<longleftrightarrow>
    ub u \<or> length SERVER_STATUS_PREFIX + length SERVER_STATUS_DISCONNECTING + length nm + 4 <
           length (SERVER_STATUS_PREFIX @ st) + 1"
    using E p nm by (simp add: send_device_status_def case_prod_beta Let_def fst_malloc t_def)
  show ?thesis unfolding eq using u
    by (cases "status (device_at s d)") (auto simp: len lengths_of_status_words)
qed

end
