(* ===== verification/Commands.thy ===== *)
theory Commands
  imports Send_Buffers
begin

text \<open>
  What the server does with one datagram: \<open>process_client\<close> (\<open>server/process_client.c\<close>),
  \<open>process_peer\<close> (\<open>server/process_peer.c\<close>) and \<open>process_command\<close> (\<open>server/server.c\<close>). A message
  is the C string in the receive buffer; a \<open>char *\<close> into it is the suffix it points at.
  The lemmas show that a datagram keeps the stores well formed, that at most the sender's
  client record is added, and what each handler makes of the parts below it.
\<close>

section \<open>Clients\<close>

text \<open>
  A client is known by its address alone. A new one gets a fresh \<open>client_t\<close>; it stays
  allocated when the list node cannot be.
\<close>

definition new_client :: "sockaddr_in \<Rightarrow> server \<Rightarrow> server" where
  "new_client cli s = s\<lparr>next_ptr := Suc (next_ptr s),
     client_live := (client_live s)(next_ptr s := True),
     client_at := (client_at s)(next_ptr s := \<lparr>sa = cli, last_heard_from = 0, devices_connected = []\<rparr>)\<rparr>"

definition find_or_add_client :: "env \<Rightarrow> sockaddr_in \<Rightarrow> server \<Rightarrow> cli_ptr option \<times> server" where
  "find_or_add_client E cli s =
     (case get_client (g_clients s) (sin_addr cli) s of
        (Some client, s) \<Rightarrow> (Some client, s)
      | (None, s) \<Rightarrow>
          if errno s = ENODEV
          then (case malloc E s of (ok, s) \<Rightarrow>
             if \<not> ok then (None, s)
             else let client = next_ptr s; s = new_client cli s
             in case add_client E (g_clients s) client s of (r, l, s) \<Rightarrow>
                let s = s\<lparr>g_clients := l\<rparr>
                in if r < 0 then (None, s) else (Some client, s))
          else (None, undefined_if True s))"

section \<open>Handlers\<close>

text \<open>The part of \<open>process_client\<close> that tells the commands apart.\<close>

definition client_message :: "env \<Rightarrow> cli_ptr \<Rightarrow> string \<Rightarrow> server \<Rightarrow> int \<times> server" where
  "client_message E client message s =
     (if starts_with CLIENT_PING message then (0, s)
      else if starts_with CLIENT_DEVICES message then send_device_list E client s
      else if starts_with CLIENT_UP message
      then (case get_device (g_devices s) (Some (drop (length CLIENT_UP) message)) s of
              (None, s) \<Rightarrow> (-1, s)
            | (Some device, s) \<Rightarrow>
                (case connect_client_to_device E client device s of (r, s) \<Rightarrow>
                   if r < 0 then (-1, s) else (0, s)))
      else if starts_with CLIENT_DOWN message
      then (case get_device (devices_connected (client_at s client))
                   (Some (drop (length CLIENT_DOWN) message)) s of
              (None, s) \<Rightarrow> (-1, s)
            | (Some device, s) \<Rightarrow>
                (case disconnect_client_from_device E client device s of (r, s) \<Rightarrow>
                   if r < 0 then (-1, s) else (0, s)))
      else if starts_with CLIENT_FORCE_DOWN message
      then (case get_device (g_devices s) (Some (drop (length CLIENT_FORCE_DOWN) message)) s of
              (None, s) \<Rightarrow> (-1, set_errno ENODEV s)
            | (Some device, s) \<Rightarrow>
                (case alter_device_status E device LINK_DOWN s of (r, s) \<Rightarrow>
                   if r < 0 then (-1, s)
                   else (case remove_all_clients_from_device device s of (r, s) \<Rightarrow>
                           if r < 0 then (-1, s) else (0, s))))
      else if starts_with CLIENT_STATUS message
      then (case get_device (g_devices s) (Some (drop (length CLIENT_STATUS) message)) s of
              (None, s) \<Rightarrow> (-1, s)
            | (Some device, s) \<Rightarrow> send_device_status E client device s)
      else if starts_with CLIENT_CLIENT_STATUS message then send_client_status E client s
      else (-1, set_errno ENOTSUP s))"

definition process_client :: "env \<Rightarrow> sockaddr_in \<Rightarrow> string \<Rightarrow> server \<Rightarrow> int \<times> server" where
  "process_client E cli message s =
     (case find_or_add_client E cli s of
        (None, s) \<Rightarrow> (-1, s)
      | (Some client, s) \<Rightarrow>
          (case update_client E client cli s of (_, s) \<Rightarrow> client_message E client message s))"

definition process_peer :: "env \<Rightarrow> string \<Rightarrow> server \<Rightarrow> int \<times> server" where
  "process_peer E message s =
     (if starts_with NOTIFY_ISUP message
      then (case get_device (g_devices s) (Some (drop (length NOTIFY_ISUP) message)) s of
              (None, s) \<Rightarrow> (-1, s)
            | (Some device, s) \<Rightarrow>
                (case alter_device_status E device LINK_UP s of (_, s) \<Rightarrow> (0, s)))
      else if starts_with NOTIFY_ISDOWN message
      then (case get_device (g_devices s) (Some (drop (length NOTIFY_ISDOWN) message)) s of
              (None, s) \<Rightarrow> (-1, s)
            | (Some device, s) \<Rightarrow> alter_device_status E device LINK_DOWN s)
      else (-1, set_errno ENOTSUP s))"

text \<open>
  What \<open>recvfrom\<close> delivers: a datagram, of which the kernel hands over at most
  \<open>MAX_RECV_BUFFER\<close> bytes, or an error. The terminating NUL is written behind the last byte
  received, which is outside the buffer when the buffer is full.
\<close>

datatype packet = Packet sockaddr_in "char list" | Recv_error errno

definition received :: "char list \<Rightarrow> char list" where
  "received bytes = take MAX_RECV_BUFFER bytes"

definition process_command :: "env \<Rightarrow> packet \<Rightarrow> server \<Rightarrow> int \<times> server" where
  "process_command E p s = (case p of
     Recv_error e \<Rightarrow> (-1, set_errno e s)
   | Packet cli bytes \<Rightarrow>
       let recv_size = length (received bytes);
           s = undefined_if (\<not> recv_size < MAX_RECV_BUFFER) s;
           recv_buffer = c_string (received bytes)
       in if starts_with CLIENT_PREFIX recv_buffer then process_client E cli recv_buffer s
          else if starts_with NOTIFY_PREFIX recv_buffer then process_peer E recv_buffer s
          else (-1, set_errno ENOTSUP s))"

section \<open>Finding or adding the sender\<close>

text \<open>The frame of the first steps of \<open>process_client\<close>.\<close>

definition same_devices :: "server \<Rightarrow> server \<Rightarrow> bool" where
  "same_devices s t \<longleftrightarrow> conf t = conf s \<and> g_devices t = g_devices s \<and> device_at t = device_at s
     \<and> g_keep_going t = g_keep_going s \<and> exited t = exited s \<and> ub t = ub s"

lemma wf_extend_clients:
  assumes wf: "wf_server s" and new: "c \<notin> set (g_clients s)" "client_live t c" "c < next_ptr t"
    and key: "\<And>x. x \<in> set (g_clients s) \<Longrightarrow> client_key s x \<noteq> client_key t c"
    and dev: "g_devices t = g_devices s" "device_at t = device_at s"
    and cl: "g_clients t = g_clients s @ [c]" "devices_connected (client_at t c) = []"
    and old: "\<And>x. x \<in> set (g_clients s) \<Longrightarrow> client_at t x = client_at s x \<and> client_live t x"
    and ptr: "next_ptr s \<le> next_ptr t"
  shows "wf_server t"
proof -
  have "inj_on (client_key t) (set (g_clients s))"
    using wf old by (auto simp: wf_defs inj_on_def)
  moreover have "client_key t c \<notin> client_key t ` set (g_clients s)"
    using key old by (metis (no_types, lifting) imageE)
  ultimately have "inj_on (client_key t) (set (g_clients t))" using new(1) by (simp add: cl inj_on_insert)
  then have "wf_clients t" using wf new old cl ptr by (fastforce simp: wf_server_def wf_clients_def)
  moreover have "wf_devices t" using wf dev by (simp add: wf_server_def wf_devices_def)
  moreover have "wf_links t" using wf dev cl old by (auto simp: wf_server_def wf_links_def)
  ultimately show ?thesis by (simp add: wf_server_def)
qed

lemma wf_new_client: "wf_server s \<Longrightarrow> wf_server (new_client cli s)"
proof -
  assume wf: "wf_server s"
  have fresh: "x \<in> set (g_clients s) \<Longrightarrow> x \<noteq> next_ptr s" for x
    using wf by (auto simp: wf_defs)
  have "inj_on (client_key (new_client cli s)) (set (g_clients s)) = inj_on (client_key s) (set (g_clients s))"
    by (rule inj_on_cong) (use fresh in \<open>auto simp: new_client_def\<close>)
  then show ?thesis using wf fresh by (auto simp: wf_defs new_client_def less_Suc_eq)
qed

lemma new_client_simps [simp]:
  "g_clients (new_client cli s) = g_clients s" "g_devices (new_client cli s) = g_devices s"
  "device_at (new_client cli s) = device_at s" "conf (new_client cli s) = conf s"
  "g_keep_going (new_client cli s) = g_keep_going s" "exited (new_client cli s) = exited s"
  "ub (new_client cli s) = ub s" "trace (new_client cli s) = trace s" "tick (new_client cli s) = tick s"
  "client_live (new_client cli s) = (client_live s)(next_ptr s := True)"
  "next_ptr (new_client cli s) = Suc (next_ptr s)"
  "client_at (new_client cli s) = (client_at s)(next_ptr s := \<lparr>sa = cli, last_heard_from = 0, devices_connected = []\<rparr>)"
  by (simp_all add: new_client_def)

lemma find_or_add_cases:
  assumes wf: "wf_server s"
  obtains (known) c where "c \<in> set (g_clients s)" "client_key s c = sin_addr cli"
      "find_or_add_client E cli s = (Some c, s)"
  | (no_memory) t where "find_or_add_client E cli s = (None, t)" "wf_server t" "same_devices s t"
      "g_clients t = g_clients s" "trace t = trace s" "tick s \<le> tick t" "\<not> (\<forall>n. e_malloc E n)"
      "\<And>x. x \<in> set (g_clients s) \<Longrightarrow> client_at t x = client_at s x"
      "\<And>x. x \<in> set (g_clients s) \<Longrightarrow> client_key s x \<noteq> sin_addr cli"
  | (added) t where "find_or_add_client E cli s = (Some (next_ptr s), t)" "wf_server t" "same_devices s t"
      "next_ptr s \<notin> set (g_clients s)" "g_clients t = g_clients s @ [next_ptr s]" "trace t = trace s" "tick s \<le> tick t"
      "client_at t (next_ptr s) = \<lparr>sa = cli, last_heard_from = 0, devices_connected = []\<rparr>"
      "\<And>x. x \<in> set (g_clients s) \<Longrightarrow> client_at t x = client_at s x"
      "\<And>x. x \<in> set (g_clients s) \<Longrightarrow> client_key s x \<noteq> sin_addr cli"
proof (cases "List.find (\<lambda>c. client_key s c = sin_addr cli) (g_clients s)")
  case (Some c)
  then have "c \<in> set (g_clients s) \<and> client_key s c = sin_addr cli" by (rule find_Some_set)
  with Some show ?thesis by (intro known) (auto simp: find_or_add_client_def get_client_find)
next
  case None
  then have none: "\<And>x. x \<in> set (g_clients s) \<Longrightarrow> client_key s x \<noteq> sin_addr cli"
    by (auto simp: find_None_set)
  define m where "m = snd (malloc E (set_errno ENODEV s))"
  have m: "same_core s m" "ub m = ub s" "trace m = trace s" "tick m = Suc (tick s)" by (simp_all add: m_def)
  note f = same_core_fields [OF m(1)]
  have fresh: "x \<in> set (g_clients s) \<Longrightarrow> x \<noteq> next_ptr s" for x using wf by (auto simp: wf_defs)
  define n where "n = new_client cli m"
  define q where "q = snd (malloc E (set_errno ENODEV n))"
  have q: "same_core n q" "ub q = ub n" "trace q = trace n" "tick q = Suc (tick n)" by (simp_all add: q_def)
  note g = same_core_fields [OF q(1)]
  have wq: "wf_server q" using wf_same_core [OF q(1)] wf_new_client wf_same_core [OF m(1) wf]
    by (simp add: n_def)
  have keys: "\<And>x. x \<in> set (g_clients n) \<Longrightarrow> client_key n x \<noteq> client_key n (next_ptr m)"
    using none fresh f by (auto simp: n_def)
  have fm: "fst (malloc E (set_errno ENODEV s)) = e_malloc E (tick s)"
    "fst (malloc E (set_errno ENODEV n)) = e_malloc E (tick n)" by (simp_all add: fst_malloc)
  have eq: "find_or_add_client E cli s = (if \<not> e_malloc E (tick s) then (None, m)
    else if \<not> e_malloc E (tick n) then (None, q\<lparr>g_clients := g_clients n\<rparr>)
    else (Some (next_ptr m), q\<lparr>g_clients := g_clients n @ [next_ptr m]\<rparr>))"
    using None add_client_absent [OF keys, where E = E] fm
    by (simp add: find_or_add_client_def get_client_find case_prod_beta Let_def m_def n_def q_def)
  have qq: "q\<lparr>g_clients := g_clients n\<rparr> = q" using g by simp
  have wm: "wf_server m" by (rule wf_same_core [OF m(1) wf])
  show ?thesis
  proof (cases "e_malloc E (tick s) \<and> e_malloc E (tick n)")
    case False
    have sd: "same_devices s m" "same_devices s q"
      using f g m q by (simp_all add: same_devices_def n_def)
    have cl: "g_clients m = g_clients s" "g_clients q = g_clients s"
      "x \<in> set (g_clients s) \<Longrightarrow> client_at m x = client_at s x"
      "x \<in> set (g_clients s) \<Longrightarrow> client_at q x = client_at s x" for x
      using f g fresh by (auto simp: n_def)
    have tr: "trace m = trace s" "trace q = trace s" "tick s \<le> tick m" "tick s \<le> tick q"
      using m q by (simp_all add: n_def)
    show ?thesis
    proof (cases "e_malloc E (tick s)")
      case True
      with False eq qq have "find_or_add_client E cli s = (None, q)" by simp
      then show ?thesis by (rule no_memory) (use False wq sd cl tr none in blast)+
    next
      case no: False
      with eq have "find_or_add_client E cli s = (None, m)" by simp
      then show ?thesis by (rule no_memory) (use no wm sd cl tr none in blast)+
    qed
  next
    case True
    let ?t = "q\<lparr>g_clients := g_clients n @ [next_ptr m]\<rparr>"
    have "wf_server ?t"
    proof (rule wf_extend_clients [OF wf, where c = "next_ptr s"])
      show "next_ptr s \<notin> set (g_clients s)" using fresh by blast
      show "client_key s x \<noteq> client_key ?t (next_ptr s)" if "x \<in> set (g_clients s)" for x
        using none [OF that] g f by (simp add: n_def)
      show "client_at ?t x = client_at s x \<and> client_live ?t x" if "x \<in> set (g_clients s)" for x
        using that fresh [OF that] g f wf by (auto simp: n_def wf_defs)
    qed (use g f in \<open>simp_all add: n_def\<close>)
    moreover have "find_or_add_client E cli s = (Some (next_ptr s), ?t)" using True eq f by simp
    moreover have "same_devices s ?t" "g_clients ?t = g_clients s @ [next_ptr s]"
      "trace ?t = trace s" "tick s \<le> tick ?t"
      "client_at ?t (next_ptr s) = \<lparr>sa = cli, last_heard_from = 0, devices_connected = []\<rparr>"
      using f g m q by (simp_all add: same_devices_def n_def)
    moreover have "client_at ?t x = client_at s x" if "x \<in> set (g_clients s)" for x
      using f g fresh [OF that] by (simp add: n_def)
    moreover have "next_ptr s \<notin> set (g_clients s)" using fresh by blast
    ultimately show ?thesis using none by (intro added [of ?t])
  qed
qed


text \<open>Registering the sender, as one step.\<close>

lemma update_client_keeps:
  assumes "wf_server s" "c \<in> set (g_clients s)" "client_key s c = sin_addr cli"
  shows "wf_server (snd (update_client E c cli s))"
proof -
  let ?t = "snd (update_client E c cli s)"
  have keys: "client_key ?t = client_key s"
    using assms(3) by (auto simp: update_client_def case_prod_beta fun_eq_iff)
  have dc: "devices_connected (client_at ?t x) = devices_connected (client_at s x)" for x
    by (simp add: update_client_def case_prod_beta)
  have rest: "g_clients ?t = g_clients s" "g_devices ?t = g_devices s" "device_at ?t = device_at s"
    "client_live ?t = client_live s" "next_ptr ?t = next_ptr s"
    by (simp_all add: update_client_def case_prod_beta)
  have "wf_clients ?t" using assms(1) by (simp add: wf_server_def wf_clients_def rest fun_cong [OF keys])
  then show ?thesis using assms(1) by (simp add: wf_server_def wf_devices_def wf_links_def rest dc)
qed

lemma update_client_fields [simp]:
  "g_clients (snd (update_client E c cli s)) = g_clients s"
  "g_devices (snd (update_client E c cli s)) = g_devices s"
  "device_at (snd (update_client E c cli s)) = device_at s"
  "conf (snd (update_client E c cli s)) = conf s"
  "g_keep_going (snd (update_client E c cli s)) = g_keep_going s"
  "exited (snd (update_client E c cli s)) = exited s"
  "ub (snd (update_client E c cli s)) = ub s"
  "trace (snd (update_client E c cli s)) = trace s"
  "tick (snd (update_client E c cli s)) = Suc (tick s)"
  "client_at (snd (update_client E c cli s)) = (client_at s)(c := (client_at s c)
     \<lparr>last_heard_from := e_time E (tick s), sa := cli\<rparr>)"
  by (simp_all add: update_client_def case_prod_beta fst_time_now)

text \<open>
  After registration the sender is in the global list under its address, with the full
  socket address of this datagram, and no other client's data changed.
\<close>

definition registered :: "sockaddr_in \<Rightarrow> cli_ptr \<Rightarrow> server \<Rightarrow> server \<Rightarrow> bool" where
  "registered cli c s t \<longleftrightarrow> wf_server t \<and> same_devices s t \<and> trace t = trace s \<and> tick s < tick t
     \<and> c \<in> set (g_clients t) \<and> sa (client_at t c) = cli
     \<and> (g_clients t = g_clients s \<and> client_key s c = sin_addr cli
          \<and> devices_connected (client_at t c) = devices_connected (client_at s c)
        \<or> c \<notin> set (g_clients s) \<and> g_clients t = g_clients s @ [c] \<and> devices_connected (client_at t c) = []
          \<and> (\<forall>x \<in> set (g_clients s). client_key s x \<noteq> sin_addr cli))
     \<and> (\<forall>x \<in> set (g_clients s). x \<noteq> c \<longrightarrow> client_at t x = client_at s x)"

lemma process_client_cases:
  assumes wf: "wf_server s"
  obtains (no_memory) t where "\<not> (\<forall>n. e_malloc E n)" "wf_server t" "same_devices s t"
      "g_clients t = g_clients s" "trace t = trace s" "tick s \<le> tick t"
      "\<And>x. x \<in> set (g_clients s) \<Longrightarrow> client_at t x = client_at s x"
      "\<And>m. process_client E cli m s = (-1, t)"
  | (ready) c t where "registered cli c s t"
      "last_heard_from (client_at t c) = e_time E (tick t - 1)"
      "\<And>m. process_client E cli m s = client_message E c m t"
  using wf
proof (cases rule: find_or_add_cases [where E = E and cli = cli])
  case (known c)
  let ?t = "snd (update_client E c cli s)"
  have "registered cli c s ?t" using known update_client_keeps [OF wf known(1,2)]
    by (simp add: registered_def same_devices_def)
  then show ?thesis using known by (intro ready [of c ?t]) (simp_all add: process_client_def case_prod_beta)
next
  case (no_memory t)
  then show ?thesis by (intro that(1) [of t]) (simp_all add: process_client_def)
next
  case (added u)
  let ?c = "next_ptr s"
  let ?t = "snd (update_client E ?c cli u)"
  have "wf_server ?t" using added by (intro update_client_keeps) simp_all
  then have "registered cli ?c s ?t" using added
    by (simp add: registered_def same_devices_def)
  then show ?thesis using added by (intro ready [of ?c ?t]) (simp_all add: process_client_def case_prod_beta)
qed

section \<open>Every datagram keeps the server well formed\<close>

text \<open>What no datagram and no sweep changes; undefined behaviour is never undone.\<close>

definition fixed_setup :: "server \<Rightarrow> server \<Rightarrow> bool" where
  "fixed_setup s t \<longleftrightarrow> conf t = conf s \<and> g_devices t = g_devices s \<and> exited t = exited s
     \<and> g_keep_going t = g_keep_going s \<and> (ub s \<longrightarrow> ub t)
     \<and> (\<forall>d. same_config (device_at s d) (device_at t d))"

lemma fixed_setup_refl [simp]: "fixed_setup s s"
  by (simp add: fixed_setup_def)

lemma fixed_setup_trans: "fixed_setup s t \<Longrightarrow> fixed_setup t u \<Longrightarrow> fixed_setup s u"
  unfolding fixed_setup_def by (metis same_config_trans)

lemma fixed_setup_same: "same_setup s t \<Longrightarrow> fixed_setup s t"
  by (simp add: same_setup_def fixed_setup_def)

lemma fixed_setup_io: "same_core s t \<Longrightarrow> (ub s \<Longrightarrow> ub t) \<Longrightarrow> fixed_setup s t"
  by (simp add: fixed_setup_def same_core_iff)

lemma fixed_setup_devices: "same_devices s t \<Longrightarrow> fixed_setup s t"
  by (simp add: same_devices_def fixed_setup_def)

text \<open>The contract of everything the main loop calls, in every environment.\<close>

locale server_operation =
  fixes run :: "server \<Rightarrow> int \<times> server"
  assumes keeps: "wf_server s \<Longrightarrow> wf_server (snd (run s)) \<and> fixed_setup s (snd (run s))"
begin

lemma keeps_wf: "wf_server s \<Longrightarrow> wf_server (snd (run s))"
  using keeps by simp

lemma keeps_setup: "wf_server s \<Longrightarrow> fixed_setup s (snd (run s))"
  using keeps by simp

lemma followed_by:
  "wf_server s \<Longrightarrow> wf_server t \<and> fixed_setup s t \<Longrightarrow> wf_server (snd (run t)) \<and> fixed_setup s (snd (run t))"
  using keeps fixed_setup_trans by blast

end

lemma runtime_only_keeps:
  "same_core s t \<Longrightarrow> (ub s \<Longrightarrow> ub t) \<Longrightarrow> wf_server s \<Longrightarrow> wf_server t \<and> fixed_setup s t"
  using wf_same_core fixed_setup_io by blast

lemma alter_keeps:
  "wf_server s \<Longrightarrow> wf_server (snd (alter_device_status E d st s))
     \<and> fixed_setup s (snd (alter_device_status E d st s))"
  using alter.keeps_wf alter.effect [of s d E st] same_setup_effect fixed_setup_same by blast

lemma get_device_listed:
  assumes "get_device ds nm s = (Some d, t)"
  shows "d \<in> set ds" "device_name (device_at s d) = nm" "t = s"
  using assms find_Some_set [of "\<lambda>d. device_key s d = nm" ds d]
  by (auto simp: get_device_find split: option.splits)

lemma get_device_missing:
  assumes "get_device ds nm s = (None, t)"
  shows "t = set_errno ENODEV s" "\<forall>d \<in> set ds. device_name (device_at s d) \<noteq> nm"
  using assms by (auto simp: get_device_find find_None_set split: option.splits)

lemma missing_keeps:
  assumes "get_device ds nm s = (None, t)" "wf_server s"
  shows "wf_server t" "wf_server (set_errno ENODEV t)" "fixed_setup s t"
    "fixed_setup s (set_errno ENODEV t)"
  using assms(2) by (simp_all add: get_device_missing(1) [OF assms(1)] fixed_setup_io)

text \<open>The requests a client can make, and the message of each.\<close>

datatype client_request =
    Ping | Devices | Up string | Down string | Force_down string | Status string | Client_status

fun request_text :: "client_request \<Rightarrow> string" where
  "request_text Ping = CLIENT_PING"
| "request_text Devices = CLIENT_DEVICES"
| "request_text (Up nm) = CLIENT_UP @ nm"
| "request_text (Down nm) = CLIENT_DOWN @ nm"
| "request_text (Force_down nm) = CLIENT_FORCE_DOWN @ nm"
| "request_text (Status nm) = CLIENT_STATUS @ nm"
| "request_text Client_status = CLIENT_CLIENT_STATUS"

definition perform :: "env \<Rightarrow> cli_ptr \<Rightarrow> client_request \<Rightarrow> server \<Rightarrow> int \<times> server" where
  "perform E c q s = (case q of
     Ping \<Rightarrow> (0, s)
   | Devices \<Rightarrow> send_device_list E c s
   | Up nm \<Rightarrow>
       (case get_device (g_devices s) (Some nm) s of (None, s) \<Rightarrow> (-1, s)
        | (Some d, s) \<Rightarrow> (case connect_client_to_device E c d s of (r, s) \<Rightarrow> if r < 0 then (-1, s) else (0, s)))
   | Down nm \<Rightarrow>
       (case get_device (devices_connected (client_at s c)) (Some nm) s of (None, s) \<Rightarrow> (-1, s)
        | (Some d, s) \<Rightarrow> (case disconnect_client_from_device E c d s of (r, s) \<Rightarrow> if r < 0 then (-1, s) else (0, s)))
   | Force_down nm \<Rightarrow>
       (case get_device (g_devices s) (Some nm) s of (None, s) \<Rightarrow> (-1, set_errno ENODEV s)
        | (Some d, s) \<Rightarrow> (case alter_device_status E d LINK_DOWN s of (r, s) \<Rightarrow>
            if r < 0 then (-1, s) else (0, upd_device d (clients_connected_update (\<lambda>_. [])) s)))
   | Status nm \<Rightarrow>
       (case get_device (g_devices s) (Some nm) s of (None, s) \<Rightarrow> (-1, s)
        | (Some d, s) \<Rightarrow> send_device_status E c d s)
   | Client_status \<Rightarrow> send_client_status E c s)"

lemma request_text_prefix: "starts_with CLIENT_PREFIX (request_text q)"
  by (cases q) (simp_all add: protocol_defs)

text \<open>The chain of \<open>strncmp\<close> finds the request a text was made from, and nothing else.\<close>

lemma client_message_request: "client_message E c (request_text q) s = perform E c q s"
  by (cases q) (simp_all add: client_message_def perform_def protocol_defs effect_simps case_prod_beta
      cong: option.case_cong if_cong)

lemma client_message_split:
  obtains (request) q rest where "m = request_text q @ rest" "client_message E c m s = perform E c q s"
  | (request_named) q where "m = request_text q" "client_message E c m s = perform E c q s"
  | (unknown) "client_message E c m s = (-1, set_errno ENOTSUP s)"
      "\<forall>p \<in> set client_commands. \<not> starts_with p m"
proof (cases "\<forall>p \<in> set client_commands. \<not> starts_with p m")
  case True
  then show ?thesis by (intro unknown) (simp_all add: client_message_def client_commands_def)
next
  case False
  then obtain p rest where p: "p \<in> set client_commands" "m = p @ rest" by (auto simp: starts_with_iff)
  then consider "p = CLIENT_PING" | "p = CLIENT_DEVICES" | "p = CLIENT_CLIENT_STATUS" | "p = CLIENT_UP"
    | "p = CLIENT_DOWN" | "p = CLIENT_FORCE_DOWN" | "p = CLIENT_STATUS"
    by (auto simp: client_commands_def)
  then show ?thesis
  proof cases
    case 1
    with p show ?thesis
      by (intro request [of Ping rest]) (simp_all add: client_message_def perform_def protocol_defs)
  next
    case 2
    with p show ?thesis
      by (intro request [of Devices rest]) (simp_all add: client_message_def perform_def protocol_defs)
  next
    case 3
    with p show ?thesis
      by (intro request [of Client_status rest]) (simp_all add: client_message_def perform_def protocol_defs)
  qed (use p request_named [of "Up rest"] request_named [of "Down rest"] request_named [of "Force_down rest"]
         request_named [of "Status rest"] in \<open>simp_all add: client_message_request [symmetric]\<close>)
qed

lemma client_message_cases:
  obtains (request) q where "client_message E c m s = perform E c q s"
  | (unknown) "client_message E c m s = (-1, set_errno ENOTSUP s)"
  by (rule client_message_split [of m E c s]) auto

lemma perform_keeps:
  assumes wf: "wf_server s" and c: "c \<in> set (g_clients s)"
  shows "wf_server (snd (perform E c q s)) \<and> fixed_setup s (snd (perform E c q s))"
proof (cases q)
  case Ping
  with wf show ?thesis by (simp add: perform_def)
next
  case Devices
  with runtime_only_keeps [OF device_list.core device_list.raises wf] show ?thesis by (simp add: perform_def)
next
  case Client_status
  with runtime_only_keeps [OF client_status.core client_status.raises wf] show ?thesis by (simp add: perform_def)
next
  case (Up nm)
  obtain p t where g: "get_device (g_devices s) (Some nm) s = (p, t)" by fastforce
  show ?thesis
  proof (cases p)
    case None
    with g Up missing_keeps [OF _ wf] show ?thesis by (simp add: perform_def)
  next
    case (Some d)
    note l = get_device_listed [OF g [unfolded Some]]
    with connect_keeps [OF wf c l(1), of E] fixed_setup_same g Up Some show ?thesis
      by (simp add: perform_def link_frame_def case_prod_beta)
  qed
next
  case (Down nm)
  obtain p t where g: "get_device (devices_connected (client_at s c)) (Some nm) s = (p, t)" by fastforce
  show ?thesis
  proof (cases p)
    case None
    with g Down missing_keeps [OF _ wf] show ?thesis by (simp add: perform_def)
  next
    case (Some d)
    note l = get_device_listed [OF g [unfolded Some]]
    have d: "d \<in> set (g_devices s)" by (rule wf_connected_device [OF wf c l(1)])
    obtain r u where ru: "disconnect_client_from_device E c d s = (r, u)" by fastforce
    from disconnect_keeps [OF wf c d ru] fixed_setup_same g Down Some l ru show ?thesis
      by (simp add: perform_def link_frame_def)
  qed
next
  case (Force_down nm)
  obtain p t where g: "get_device (g_devices s) (Some nm) s = (p, t)" by fastforce
  show ?thesis
  proof (cases p)
    case None
    with g Force_down missing_keeps [OF _ wf] show ?thesis by (simp add: perform_def)
  next
    case (Some d)
    note l = get_device_listed [OF g [unfolded Some]]
    from alter_keeps [OF wf, of E d LINK_DOWN] g Force_down Some l show ?thesis
      by (auto simp: perform_def case_prod_beta fixed_setup_def)
  qed
next
  case (Status nm)
  obtain p t where g: "get_device (g_devices s) (Some nm) s = (p, t)" by fastforce
  show ?thesis
  proof (cases p)
    case None
    with g Status missing_keeps [OF _ wf] show ?thesis by (simp add: perform_def)
  next
    case (Some d)
    with g Status get_device_listed(3) [OF g [unfolded Some]] runtime_only_keeps [OF device_status.core device_status.raises wf]
    show ?thesis by (simp add: perform_def)
  qed
qed

lemma client_message_keeps:
  assumes "wf_server s" "c \<in> set (g_clients s)"
  shows "wf_server (snd (client_message E c m s)) \<and> fixed_setup s (snd (client_message E c m s))"
proof (cases rule: client_message_cases [of E c m s])
  case (request q)
  with perform_keeps [OF assms] show ?thesis by simp
next
  case unknown
  with assms show ?thesis by (auto intro: fixed_setup_io)
qed

lemma process_client_keeps:
  assumes "wf_server s"
  shows "wf_server (snd (process_client E cli m s)) \<and> fixed_setup s (snd (process_client E cli m s))"
  using assms
proof (cases rule: process_client_cases [where E = E and cli = cli])
  case (no_memory t)
  then show ?thesis using fixed_setup_devices by simp
next
  case (ready c t)
  then have "wf_server t" "c \<in> set (g_clients t)" "fixed_setup s t"
    using fixed_setup_devices by (auto simp: registered_def)
  with client_message_keeps [OF this(1,2), of E m] ready(3) show ?thesis
    using fixed_setup_trans by simp
qed

lemma process_peer_keeps:
  assumes "wf_server s"
  shows "wf_server (snd (process_peer E m s)) \<and> fixed_setup s (snd (process_peer E m s))"
proof -
  obtain p t where up: "get_device (g_devices s) (Some (drop (length NOTIFY_ISUP) m)) s = (p, t)" by fastforce
  obtain q u where down: "get_device (g_devices s) (Some (drop (length NOTIFY_ISDOWN) m)) s = (q, u)" by fastforce
  have t: "t = (case p of None \<Rightarrow> set_errno ENODEV s | Some d \<Rightarrow> s)"
    and u: "u = (case q of None \<Rightarrow> set_errno ENODEV s | Some d \<Rightarrow> s)"
    using up down get_device_missing(1) get_device_listed(3) by (auto split: option.splits)
  have io: "fixed_setup s (set_errno e s)" for e by (rule fixed_setup_io) simp_all
  show ?thesis
    using alter_keeps [OF assms] io assms
    by (simp add: process_peer_def up down t u case_prod_beta split: option.splits)
qed

interpretation command: server_operation "process_command E p" for E p
proof unfold_locales
  fix s assume wf: "wf_server s"
  have step: "wf_server (undefined_if b s) \<and> fixed_setup s (undefined_if b s)" for b
    by (rule runtime_only_keeps [OF _ _ wf]) simp_all
  show "wf_server (snd (process_command E p s)) \<and> fixed_setup s (snd (process_command E p s))"
  proof (cases p)
    case (Recv_error e)
    with runtime_only_keeps [OF _ _ wf, of "set_errno e s"] show ?thesis by (simp add: process_command_def)
  next
    case (Packet cli bytes)
    let ?s = "undefined_if (\<not> length (received bytes) < MAX_RECV_BUFFER) s"
    have "wf_server ?s" "fixed_setup s ?s" using step by auto
    with Packet process_client_keeps [of ?s E cli] process_peer_keeps [of ?s E] fixed_setup_trans
      runtime_only_keeps [of ?s "set_errno ENOTSUP ?s"]
    show ?thesis by (auto simp: process_command_def Let_def)
  qed
qed

interpretation client_sweep: server_operation "timeout_old_clients E" for E
proof unfold_locales
  fix s assume "wf_server s"
  with timeout_old_clients_keeps [OF this] fixed_setup_same
  show "wf_server (snd (timeout_old_clients E s)) \<and> fixed_setup s (snd (timeout_old_clients E s))"
    by (metis prod.collapse)
qed

interpretation device_sweep: server_operation "timeout_old_devices E" for E
proof unfold_locales
  fix s assume "wf_server s"
  with timeout_old_devices_keeps [OF this] fixed_setup_same
  show "wf_server (snd (timeout_old_devices E s)) \<and> fixed_setup s (snd (timeout_old_devices E s))"
    by (metis prod.collapse)
qed

interpretation polling: server_operation "broadcast_status_message E" for E
  by unfold_locales (rule runtime_only_keeps [OF status_broadcast.core status_broadcast.raises])

end
