(* ===== verification/Server_Loop.thy ===== *)
theory Server_Loop
  imports Commands
begin

text \<open>
  The main loop of \<open>server/server.c\<close>. One iteration waits in \<open>select\<close> for at most
  \<open>g_poll_time\<close> seconds, handles the datagram if there is one, and then polls and sweeps
  whatever happened. Errors of the parts are reported with \<open>perror\<close> and do not stop the
  loop. The signal handler only clears \<open>g_keep_going\<close>, which the loop head reads, so a
  signal that arrives during an iteration takes effect at its end. The state reached
  after any history of wake-ups is given both as a function (\<open>serve\<close>) and as an inductive
  relation (\<open>reachable\<close>).
\<close>

section \<open>One iteration\<close>

datatype wakeup =
    Timed_out
  | Readable packet
  | Select_failed errno
  | Signalled wakeup

definition termination_handler :: "server \<Rightarrow> server" where
  "termination_handler s = s\<lparr>g_keep_going := False\<rparr>"

text \<open>What follows every return of \<open>select\<close> that does not exit.\<close>

definition poll_and_sweep :: "env \<Rightarrow> server \<Rightarrow> server" where
  "poll_and_sweep E s =
     (case broadcast_status_message E s of (_, s) \<Rightarrow>
      case timeout_old_clients E s of (_, s) \<Rightarrow>
      case timeout_old_devices E s of (_, s) \<Rightarrow> s)"

fun iteration :: "env \<Rightarrow> wakeup \<Rightarrow> server \<Rightarrow> server" where
  "iteration E Timed_out s = poll_and_sweep E s"
| "iteration E (Readable p) s = poll_and_sweep E (snd (process_command E p s))"
| "iteration E (Select_failed e) s =
     (if e = EINTR then poll_and_sweep E ((set_errno e s)\<lparr>g_keep_going := False\<rparr>)
      else (set_errno e s)\<lparr>exited := True\<rparr>)"
| "iteration E (Signalled w) s = termination_handler (iteration E w s)"

definition running :: "server \<Rightarrow> bool" where
  "running s \<longleftrightarrow> g_keep_going s \<and> \<not> exited s"

fun serve :: "env \<Rightarrow> wakeup list \<Rightarrow> server \<Rightarrow> server" where
  "serve E [] s = s"
| "serve E (w # ws) s = (if running s then serve E ws (iteration E w s) else s)"

text \<open>The relation of one pass through the loop, and what it reaches.\<close>

inductive loop_step :: "env \<Rightarrow> server \<Rightarrow> server \<Rightarrow> bool" for E where
  pass: "running s \<Longrightarrow> loop_step E s (iteration E w s)"

inductive reachable :: "env \<Rightarrow> server \<Rightarrow> server \<Rightarrow> bool" for E s0 where
  start: "reachable E s0 s0"
| step: "reachable E s0 s \<Longrightarrow> loop_step E s t \<Longrightarrow> reachable E s0 t"

inductive_cases loop_stepE: "loop_step E s t"

lemma reachable_trans: "reachable E s t \<Longrightarrow> reachable E t u \<Longrightarrow> reachable E s u"
  by (rotate_tac, induction rule: reachable.induct) (auto intro: reachable.intros)

lemma serve_reachable: "reachable E s (serve E ws s)"
proof (induction ws arbitrary: s)
  case Nil
  then show ?case by (simp add: reachable.start)
next
  case (Cons w ws)
  show ?case
  proof (cases "running s")
    case True
    then have "reachable E s (iteration E w s)" using reachable.start reachable.step loop_step.pass by blast
    with Cons.IH [of "iteration E w s"] True show ?thesis by (auto intro: reachable_trans)
  qed (simp add: reachable.start)
qed

lemma serve_append: "serve E (vs @ ws) s = (if running (serve E vs s) then serve E ws (serve E vs s) else serve E vs s)"
  by (induction vs arbitrary: s; cases ws) auto

lemma reachable_serve: "reachable E s t \<Longrightarrow> \<exists>ws. t = serve E ws s"
proof (induction rule: reachable.induct)
  case start
  show ?case by (rule exI [of _ "[]"]) simp
next
  case (step t u)
  then obtain ws where ws: "t = serve E ws s" by blast
  from step.hyps(2) obtain w where "running t" "u = iteration E w t" by (auto elim: loop_stepE)
  with ws have "u = serve E (ws @ [w]) s" by (simp add: serve_append)
  then show ?case ..
qed

section \<open>The invariant of the loop\<close>

text \<open>What the loop never changes: the configuration and the identity of the devices.\<close>

definition same_system :: "server \<Rightarrow> server \<Rightarrow> bool" where
  "same_system s t \<longleftrightarrow> conf t = conf s \<and> g_devices t = g_devices s
     \<and> (ub s \<longrightarrow> ub t) \<and> (\<forall>d. same_config (device_at s d) (device_at t d))"

lemma same_system_refl [simp]: "same_system s s"
  by (simp add: same_system_def)

lemma same_system_trans: "same_system s t \<Longrightarrow> same_system t u \<Longrightarrow> same_system s u"
  unfolding same_system_def by (metis same_config_trans)

lemma same_system_fixed: "fixed_setup s t \<Longrightarrow> same_system s t"
  by (simp add: fixed_setup_def same_system_def)

lemma poll_and_sweep_keeps:
  assumes "wf_server s"
  shows "wf_server (poll_and_sweep E s) \<and> fixed_setup s (poll_and_sweep E s)"
proof -
  let ?b = "snd (broadcast_status_message E s)"
  let ?c = "snd (timeout_old_clients E ?b)"
  have "wf_server ?b \<and> fixed_setup s ?b" by (rule polling.keeps [OF assms])
  then have "wf_server ?c \<and> fixed_setup s ?c" by (rule client_sweep.followed_by [OF assms])
  from device_sweep.followed_by [OF assms this, of E] show ?thesis
    by (simp add: poll_and_sweep_def case_prod_beta)
qed

lemma wf_flags [simp]:
  "wf_server (s\<lparr>g_keep_going := b\<rparr>) = wf_server s" "wf_server (s\<lparr>exited := b\<rparr>) = wf_server s"
  "wf_server (termination_handler s) = wf_server s"
  by (simp_all add: wf_defs termination_handler_def)

lemma same_system_flags [simp]:
  "same_system s (t\<lparr>g_keep_going := b\<rparr>) = same_system s t" "same_system s (t\<lparr>exited := b\<rparr>) = same_system s t"
  "same_system s (termination_handler t) = same_system s t"
  by (simp_all add: same_system_def termination_handler_def)

lemma iteration_keeps:
  assumes "wf_server s"
  shows "wf_server (iteration E w s) \<and> same_system s (iteration E w s)"
proof (induction w)
  case Timed_out
  show ?case using poll_and_sweep_keeps [OF assms] same_system_fixed by simp
next
  case (Readable p)
  let ?t = "snd (process_command E p s)"
  have "wf_server ?t \<and> fixed_setup s ?t" by (rule command.keeps [OF assms])
  moreover from this have "wf_server (poll_and_sweep E ?t) \<and> fixed_setup ?t (poll_and_sweep E ?t)"
    using poll_and_sweep_keeps by blast
  ultimately show ?case using fixed_setup_trans same_system_fixed iteration.simps(2) by metis
next
  case (Select_failed e)
  let ?t = "(set_errno e s)\<lparr>g_keep_going := False\<rparr>"
  have "wf_server ?t" "same_system s ?t" using assms by (simp_all add: same_system_def)
  then show ?case using poll_and_sweep_keeps [of ?t E] same_system_fixed [of ?t] same_system_trans [of s ?t] assms
    by (auto simp: same_system_def)
next
  case (Signalled w)
  then show ?case by simp
qed

lemma reachable_keeps:
  assumes "reachable E s0 s" "wf_server s0"
  shows "wf_server s \<and> same_system s0 s"
  using assms
proof (induction rule: reachable.induct)
  case start
  then show ?case by simp
next
  case (step s t)
  then obtain w where "t = iteration E w s" by (auto elim: loop_stepE)
  with step iteration_keeps [of s E w] show ?case by (auto intro: same_system_trans)
qed

end
