(* ===== verification/Server_Clock.thy ===== *)
theory Server_Clock
  imports Server_Loop
begin

text \<open>
  Where the times in the device records come from: the \<open>connect_time\<close> of every device
  that is not down is a value the clock showed earlier in this run (\<open>clocked\<close>). Each
  operation is shown to be \<open>timed\<close>, a relation that composes and preserves \<open>clocked\<close>.
\<close>

section \<open>The invariant and the steps that keep it\<close>

definition shown :: "env \<Rightarrow> server \<Rightarrow> int \<Rightarrow> bool" where
  "shown E s t \<longleftrightarrow> (\<exists>n < tick s. t = e_time E n)"

definition clocked :: "env \<Rightarrow> server \<Rightarrow> bool" where
  "clocked E s \<longleftrightarrow> (\<forall>d \<in> set (g_devices s). status (device_at s d) \<noteq> LINK_DOWN \<longrightarrow>
     shown E s (connect_time (device_at s d)))"

definition timed_device :: "env \<Rightarrow> dev_ptr \<Rightarrow> server \<Rightarrow> server \<Rightarrow> bool" where
  "timed_device E d s t \<longleftrightarrow> status (device_at t d) = LINK_DOWN
     \<or> shown E t (connect_time (device_at t d))
     \<or> connect_time (device_at t d) = connect_time (device_at s d) \<and> status (device_at s d) \<noteq> LINK_DOWN"

definition timed :: "env \<Rightarrow> server \<Rightarrow> server \<Rightarrow> bool" where
  "timed E s t \<longleftrightarrow> tick s \<le> tick t \<and> (\<forall>d. timed_device E d s t)"

lemma shown_later: "shown E s t \<Longrightarrow> tick s \<le> tick u \<Longrightarrow> shown E u t"
  unfolding shown_def using less_le_trans by blast

lemma timed_refl [simp]: "timed E s s"
  by (auto simp: timed_def timed_device_def)

lemma timed_trans:
  assumes "timed E s t" "timed E t u"
  shows "timed E s u"
proof -
  have "timed_device E d s u" for d
  proof -
    have "timed_device E d s t" "timed_device E d t u" using assms by (auto simp: timed_def)
    then show ?thesis using assms(2) shown_later [of E t _ u] by (auto simp: timed_device_def timed_def)
  qed
  with assms show ?thesis by (auto simp: timed_def)
qed

lemma clocked_timed: "clocked E s \<Longrightarrow> timed E s t \<Longrightarrow> g_devices t = g_devices s \<Longrightarrow> clocked E t"
  unfolding clocked_def timed_def timed_device_def by (metis shown_later)

lemma timed_io:
  assumes "same_core s t" "tick s \<le> tick t"
  shows "timed E s t"
  using assms same_core_fields(4) [OF assms(1)] by (auto simp: timed_def timed_device_def)

lemma timed_then_io: "timed E s t \<Longrightarrow> same_core t u \<Longrightarrow> tick t \<le> tick u \<Longrightarrow> timed E s u"
  using timed_trans timed_io by blast

lemma shown_same_tick: "tick t = tick s \<Longrightarrow> shown E t x = shown E s x"
  by (simp add: shown_def)

lemma timed_same:
  assumes "tick u = tick t" "\<And>d. connect_time (device_at u d) = connect_time (device_at t d)"
    "\<And>d. status (device_at u d) = status (device_at t d)"
  shows "timed E s u = timed E s t"
  using assms by (simp add: timed_def timed_device_def shown_same_tick [OF assms(1)])

lemma tick_upd [simp]: "tick (t\<lparr>g_clients := l\<rparr>) = tick t" "tick (free_client c t) = tick t"
  by (simp_all add: free_client_def)

lemma timed_upd [simp]:
  "timed E s (upd_device d (clients_connected_update f) t) = timed E s t"
  "timed E s (upd_device d (retries_update g) t) = timed E s t"
  "timed E s (upd_client c h t) = timed E s t"
  "timed E s (reset_retries d t) = timed E s t"
  "timed E s (set_errno e t) = timed E s t"
  "timed E s (t\<lparr>g_clients := l\<rparr>) = timed E s t"
  "timed E s (free_client c t) = timed E s t"
  "timed E s (undefined_if b t) = timed E s t"
  "timed E s (new_client cli t) = timed E s t"
  by (rule timed_same; simp add: reset_retries_def free_client_def)+

section \<open>The device operations\<close>

lemma tick_unlink: "tick (snd (unlink_device_from d cs s)) = tick s"
  by (induction cs arbitrary: s) (simp_all add: case_prod_beta Let_def devs.rm_result)

lemma force_down_clock:
  assumes "wf_server s"
  shows "tick s \<le> tick (snd (link_force_down E (Some d) s))"
    "connect_time (device_at (snd (link_force_down E (Some d) s)) e) = connect_time (device_at s e)"
proof -
  show "tick s \<le> tick (snd (link_force_down E (Some d) s))"
    by (simp add: link_force_down_def case_prod_beta Let_def effect_simps tick_unlink
        remove_device_from_all_clients_def)
  show "connect_time (device_at (snd (link_force_down E (Some d) s)) e) = connect_time (device_at s e)"
  proof (cases "command_result E (link_force_down_command (device_at s d)) s = 0")
    case True
    from link_force_down_zero [OF assms True] have
      "device_at (snd (link_force_down E (Some d) s)) =
       device_at (upd_device d (clients_connected_update (\<lambda>_. [])) (unlinked d (set (g_clients s)) s))"
      by (auto dest: same_core_fields(4))
    then show ?thesis by simp
  qed (simp add: link_force_down_nonzero)
qed

lemma timed_force_down:
  assumes "wf_server s"
  shows "timed E s (snd (link_force_down E (Some d) s))"
  using force_down_clock [OF assms] keep_status(4) [OF assms] by (auto simp: timed_def timed_device_def)

lemma timed_set_down: "timed E s t \<Longrightarrow> timed E s (set_status d LINK_DOWN t)"
  by (auto simp: timed_def timed_device_def set_status_def shown_def)

text \<open>Moving a device that was not down to another status keeps its old time.\<close>

lemma timed_set_status:
  assumes "timed E s t" "shown E t (connect_time (device_at t d))
      \<or> connect_time (device_at t d) = connect_time (device_at s d) \<and> status (device_at s d) \<noteq> LINK_DOWN"
  shows "timed E s (set_status d st t)"
  using assms by (auto simp: timed_def timed_device_def set_status_def shown_def)

lemma timed_now:
  assumes "timed E s t"
  shows "timed E s (upd_device d (connect_time_update (\<lambda>_. fst (time_now E t))) (snd (time_now E t)))"
    "shown E (snd (time_now E t)) (fst (time_now E t))"
proof -
  show now: "shown E (snd (time_now E t)) (fst (time_now E t))"
    by (auto simp: shown_def fst_time_now)
  show "timed E s (upd_device d (connect_time_update (\<lambda>_. fst (time_now E t))) (snd (time_now E t)))"
    using assms now shown_later [of E t _ "snd (time_now E t)"]
    by (auto simp: timed_def timed_device_def shown_same_tick [OF upd_device_simps(12)])
qed

lemma timed_system: "timed E s t \<Longrightarrow> timed E s (snd (system_call E c t))"
  by (rule timed_then_io [of E s t]) simp_all

lemma timed_link_up: "timed E s (snd (link_up E (Some d) s))"
  using timed_now(1) [OF timed_system [OF timed_refl]] timed_system [OF timed_refl]
  by (simp add: link_up_def case_prod_beta Let_def)

lemma timed_alter_to_down:
  assumes "wf_server s"
  shows "timed E s (snd (alter_to_down E d s))"
  using timed_force_down [OF assms, of E d] timed_set_down
  by (auto simp: alter_to_down_def case_prod_beta split: device_status_t.splits)

lemma timed_attempt_connect:
  assumes "wf_server s"
  shows "timed E s (snd (attempt_connect E d s))"
proof -
  let ?s = "upd_device d (retries_update (\<lambda>r. r - 1)) s"
  have base: "timed E s ?s" by simp
  have wf: "wf_server ?s" using assms by simp
  have down: "timed E s (snd (alter_to_down E d ?s))"
    using timed_trans [OF base timed_alter_to_down [OF wf]] .
  have up: "timed E s (snd (link_up E (Some d) ?s))"
    using timed_trans [OF base timed_link_up] .
  note now = timed_now(1) [OF up, of d] timed_now(2) [OF up]
  have "timed E s (set_status d LINK_CONNECTING (upd_device d (connect_time_update
      (\<lambda>_. fst (time_now E (snd (link_up E (Some d) ?s))))) (snd (time_now E (snd (link_up E (Some d) ?s))))))"
    by (rule timed_set_status [OF now(1)]) (use now(2) in \<open>simp add: shown_same_tick [OF upd_device_simps(12)]\<close>)
  with down up show ?thesis by (simp add: attempt_connect_def Let_def case_prod_beta)
qed

lemma timed_alter_to_connecting:
  assumes "wf_server s"
  shows "timed E s (snd (alter_to_connecting E d s))"
proof -
  let ?f = "snd (link_force_down E (Some d) s)"
  have "timed E s (sleep 2 ?f)"
    by (rule timed_then_io [OF timed_force_down [OF assms, of E d]]) simp_all
  then have a: "timed E s (reset_retries d (sleep 2 ?f))" by simp
  have wf: "wf_server (reset_retries d (sleep 2 ?f))" "wf_server (reset_retries d s)"
    using assms force_down.keeps_wf by simp_all
  have b: "timed E s (reset_retries d s)" by simp
  show ?thesis
    using timed_trans [OF a timed_attempt_connect [OF wf(1)]] timed_trans [OF b timed_attempt_connect [OF wf(2)]]
      timed_force_down [OF assms] timed_attempt_connect [OF assms]
    by (simp add: alter_to_connecting_def case_prod_beta split: device_status_t.splits)
qed

lemma timed_alter_to_disconnecting:
  assumes "wf_server s"
  shows "timed E s (snd (alter_to_disconnecting E d s))"
proof -
  let ?f = "snd (link_force_down E (Some d) s)" and ?l = "snd (link_down E (Some d) s)"
  have f: "timed E s ?f" by (rule timed_force_down [OF assms])
  have l: "timed E s ?l"
    using timed_now(1) [OF timed_system [OF timed_refl]] timed_system [OF timed_refl]
    by (simp add: link_down_def case_prod_beta Let_def)
  have ls: "timed E s (set_status d LINK_DISCONNECTING ?l)" if "status (device_at s d) = LINK_UP"
  proof (rule timed_set_status [OF l])
    show "shown E ?l (connect_time (device_at ?l d))
      \<or> connect_time (device_at ?l d) = connect_time (device_at s d) \<and> status (device_at s d) \<noteq> LINK_DOWN"
      using that timed_now(2) [of E s "snd (system_call E (link_down_command (device_at s d)) s)"]
      by (auto simp: link_down_def case_prod_beta Let_def shown_same_tick [OF upd_device_simps(12)]
          timed_system)
  qed
  have fs: "timed E s (set_status d LINK_DISCONNECTING ?f)" if "status (device_at s d) = LINK_CONNECTING"
    by (rule timed_set_status [OF f]) (use that force_down_clock(2) [OF assms] in simp)
  show ?thesis
    using f l ls fs timed_set_down [OF f]
    by (simp add: alter_to_disconnecting_def case_prod_beta split: device_status_t.splits)
qed

lemma timed_alter_to_up: "timed E s (snd (alter_to_up E d s))"
proof -
  note now = timed_now(1) [OF timed_refl, of E s d] timed_now(2) [OF timed_refl, of E s]
  have "timed E s (set_status d LINK_UP (upd_device d (connect_time_update (\<lambda>_. fst (time_now E s))) (snd (time_now E s))))"
    by (rule timed_set_status [OF now(1)]) (use now(2) in \<open>simp add: shown_same_tick [OF upd_device_simps(12)]\<close>)
  then show ?thesis by (simp add: alter_to_up_def case_prod_beta split: device_status_t.splits)
qed

lemma timed_alter:
  "wf_server s \<Longrightarrow> timed E s (snd (alter_device_status E d st s))"
  using timed_alter_to_down timed_alter_to_connecting timed_alter_to_disconnecting timed_alter_to_up
  by (cases st) (simp_all add: alter_device_status_def)


section \<open>Links, sweeps and datagrams\<close>

lemma tick_add_client: "add_client E cs c s = (r, l, t) \<Longrightarrow> tick s \<le> tick t"
  by (auto simp: add_client_def get_client_find malloc_def Let_def set_errno_def
      split: option.splits if_splits)

lemma tick_add_device: "add_device E ds d s = (r, l, t) \<Longrightarrow> tick s \<le> tick t"
  by (auto simp: add_device_def get_device_find malloc_def Let_def set_errno_def
      split: option.splits if_splits)

lemma timed_connect:
  assumes "wf_server s" "c \<in> set (g_clients s)" "d \<in> set (g_devices s)"
  shows "timed E s (snd (connect_client_to_device E c d s))"
proof -
  obtain r1 t where rl: "raise_link E d s = (r1, t)" by fastforce
  have wr: "wf_server (reset_retries d s)" using assms(1) by simp
  have "timed E s (reset_retries d s)" by simp
  then have tt: "timed E s t"
    using rl timed_trans [OF _ timed_alter [OF wr, of E d LINK_CONNECTING]]
    by (auto simp: raise_link_def prod_eq_iff split: if_splits)
  with raise_link_keeps [OF assms(1), of E d c] rl have wt: "wf_server t" and ft: "link_frame c d s t"
    by auto
  then have ct: "c \<in> set (g_clients t)" "d \<in> set (g_devices t)"
    using assms by (auto simp: link_frame_def same_setup_def same_clients_def)
  obtain r2 cs u where ac: "add_client E (clients_connected (device_at t d)) c t = (r2, cs, u)"
    by (metis prod_cases3)
  note al = add_client_list [OF wt ct ac]
  define u' where "u' = upd_device d (clients_connected_update (\<lambda>_. cs)) u"
  have tu: "timed E s u'"
    unfolding u'_def using timed_then_io [OF tt al(1) tick_add_client [OF ac]] by simp
  have wu: "wf_server u'"
    unfolding u'_def by (rule wf_set_clients)
      (use wf_same_core [OF al(1) wt] al(3,4) same_core_fields(3) [OF al(1)] in auto)
  have cu: "c \<in> set (g_clients u')" "d \<in> set (g_devices u')"
    using ct same_core_fields(2,3) [OF al(1)] by (simp_all add: u'_def)
  obtain r3 ds v where ad: "add_device E (devices_connected (client_at u' c)) d u' = (r3, ds, v)"
    by (metis prod_cases3)
  note dl = add_device_list [OF wu cu ad]
  define v' where "v' = upd_client c (devices_connected_update (\<lambda>_. ds)) v"
  have "timed E s v'"
    unfolding v'_def using timed_then_io [OF tu dl(1) tick_add_device [OF ad]] by simp
  with connect_unfold [OF rl ac u'_def ad v'_def] tt tu show ?thesis by auto
qed

lemma timed_disconnect:
  assumes "wf_server s" "d \<in> set (g_devices s)"
  shows "timed E s (snd (disconnect_client_from_device E c d s))"
proof -
  obtain r t where rt: "release_link E c d s = (r, t)" by fastforce
  have w: "timed E s (without_client c d s)" by (simp add: without_client_def)
  have tt: "timed E s t"
    using rt w timed_trans [OF w timed_alter [OF without_client_keeps(1) [OF assms], of E c d LINK_DISCONNECTING]]
    by (auto simp: release_link_def prod_eq_iff split: if_splits)
  then show ?thesis using disconnect_unfold [OF rt] by simp
qed

lemma timed_disconnect_each:
  assumes "wf_server s" "c \<in> set (g_clients s)" "set ds \<subseteq> set (g_devices s)"
  shows "timed E s (snd (disconnect_from_each E c ds s))"
  using assms
proof (induction ds arbitrary: s)
  case Nil
  then show ?case by simp
next
  case (Cons d ds)
  obtain q t where qt: "disconnect_client_from_device E c d s = (q, t)" by fastforce
  have d: "d \<in> set (g_devices s)" using Cons.prems(3) by simp
  note k = disconnect_keeps [OF Cons.prems(1,2) d qt]
  have t: "timed E s t" using timed_disconnect [OF Cons.prems(1) d, of E c] qt by simp
  have "c \<in> set (g_clients t)" "set ds \<subseteq> set (g_devices t)"
    using k(2) Cons.prems by (auto simp: link_frame_def same_setup_def same_clients_def)
  from timed_trans [OF t Cons.IH [OF k(1) this]] t qt show ?case by simp
qed

lemma timed_expire_clients:
  assumes "wf_server s" "distinct cs" "set cs \<subseteq> set (g_clients s)"
  shows "timed E s (snd (expire_clients E cs s))"
  using assms
proof (induction cs arbitrary: s)
  case Nil
  then show ?case by simp
next
  case (Cons c cs)
  define s1 where "s1 = snd (time_now E s)"
  have core: "same_core s s1" "tick s \<le> tick s1" by (simp_all add: s1_def)
  note f = same_core_fields [OF core(1)]
  have w1: "wf_server s1" "c \<in> set (g_clients s1)" using Cons.prems f by (auto simp: s1_def)
  have t1: "timed E s s1" by (rule timed_io [OF core])
  obtain r t where rt: "remove_client_from_all_devices E c s1 = (r, t)" by fastforce
  note k = remove_client_from_all_devices_keeps [OF w1 rt]
  have "timed E s1 t"
    using timed_disconnect_each [OF w1, of "g_devices s1" E] rt
    by (simp add: remove_client_from_all_devices_def)
  then have t2: "timed E s t" by (rule timed_trans [OF t1])
  have sub: "set cs \<subseteq> set (g_clients s1)" using Cons.prems f by simp
  have keep: "timed E s (snd (expire_clients E cs s1))"
    using timed_trans [OF t1 Cons.IH [OF w1(1) _ sub]] Cons.prems(2) by simp
  have drop: "timed E s (snd (expire_clients E cs (drop_client c t)))" if "r = 0"
  proof -
    note one = expire_one [OF w1 rt that]
    have dist: "distinct (g_clients s1)" using w1(1) by (simp add: wf_defs)
    have "set cs \<subseteq> set (g_clients (drop_client c t))"
      using one(5) sub dist Cons.prems(2) by auto
    from Cons.IH [OF one(2) _ this] Cons.prems(2) have "timed E (drop_client c t) (snd (expire_clients E cs (drop_client c t)))"
      by simp
    moreover have "timed E s (drop_client c t)" using t2 by (simp add: drop_client_def)
    ultimately show ?thesis by (rule timed_trans [rotated])
  qed
  have one: "r = 0 \<Longrightarrow> rm_client (g_clients t) c t = (0, remove1 c (g_clients s1), t)"
    "r = 0 \<Longrightarrow> drop_client c t = free_client c (t\<lparr>g_clients := remove1 c (g_clients s1)\<rparr>)"
    using expire_one(1,6) [OF w1 rt] by auto
  have tm: "time_now E s = (e_time E (tick s), s1)" by (simp add: s1_def time_now_def)
  from k(5) consider "r = 0" | "r = -1" by auto
  then show ?case
  proof cases
    case 1
    with one keep drop tm rt show ?thesis by (simp add: Let_def)
  next
    case 2
    with keep t2 tm rt show ?thesis by simp
  qed
qed

lemma timed_client_sweep:
  "wf_server s \<Longrightarrow> timed E s (snd (timeout_old_clients E s))"
  unfolding timeout_old_clients_def by (rule timed_expire_clients) (auto simp: wf_defs)

lemma timed_expire_devices:
  assumes "wf_server s"
  shows "timed E s (snd (expire_devices E ds s))"
  using assms
proof (induction ds arbitrary: s)
  case Nil
  then show ?case by simp
next
  case (Cons d ds)
  define s1 where "s1 = snd (time_now E s)"
  have t1: "timed E s s1" by (rule timed_io) (simp_all add: s1_def)
  have w1: "wf_server s1" using Cons.prems by (simp add: s1_def)
  have swept: "timed E s (snd (alter_device_status E d st s1))"
    "timed E s (snd (expire_devices E ds (snd (alter_device_status E d st s1))))" for st
  proof -
    show a: "timed E s (snd (alter_device_status E d st s1))"
      by (rule timed_trans [OF t1 timed_alter [OF w1]])
    show "timed E s (snd (expire_devices E ds (snd (alter_device_status E d st s1))))"
      by (rule timed_trans [OF a Cons.IH [OF alter.keeps_wf [OF w1]]])
  qed
  have "timed E s (snd (expire_devices E ds s1))" by (rule timed_trans [OF t1 Cons.IH [OF w1]])
  with swept Cons.IH [OF Cons.prems] show ?case
    by (simp add: case_prod_beta s1_def split: device_status_t.splits)
qed

lemma timed_device_sweep: "wf_server s \<Longrightarrow> timed E s (snd (timeout_old_devices E s))"
  unfolding timeout_old_devices_def by (rule timed_expire_devices)

lemma timed_missing: "get_device ds nm s = (None, t) \<Longrightarrow> timed E s t"
  by (drule get_device_missing(1)) simp

lemma timed_perform:
  assumes wf: "wf_server s" and c: "c \<in> set (g_clients s)"
  shows "timed E s (snd (perform E c q s))"
proof -
  have sends: "timed E s (snd (send_device_list E c s))" "timed E s (snd (send_client_status E c s))"
    "timed E s (snd (send_device_status E c d s))" for d
    by (simp_all add: timed_io [OF device_list.core device_list.later]
        timed_io [OF client_status.core client_status.later] timed_io [OF device_status.core device_status.later])
  show ?thesis
  proof (cases q)
    case (Up nm)
    obtain p t where g: "get_device (g_devices s) (Some nm) s = (p, t)" by fastforce
    show ?thesis
    proof (cases p)
      case None
      with g Up timed_missing [of _ _ s t E] show ?thesis by (simp add: perform_def)
    next
      case (Some d)
      with g Up get_device_listed [OF g [unfolded Some]] timed_connect [OF wf c] show ?thesis
        by (simp add: perform_def case_prod_beta)
    qed
  next
    case (Down nm)
    obtain p t where g: "get_device (devices_connected (client_at s c)) (Some nm) s = (p, t)" by fastforce
    show ?thesis
    proof (cases p)
      case None
      with g Down timed_missing [of _ _ s t E] show ?thesis by (simp add: perform_def)
    next
      case (Some d)
      note l = get_device_listed [OF g [unfolded Some]]
      from g Down Some l timed_disconnect [OF wf wf_connected_device [OF wf c l(1)]] show ?thesis
        by (simp add: perform_def case_prod_beta)
    qed
  next
    case (Force_down nm)
    obtain p t where g: "get_device (g_devices s) (Some nm) s = (p, t)" by fastforce
    show ?thesis
    proof (cases p)
      case None
      with g Force_down timed_missing [of _ _ s t E] show ?thesis by (simp add: perform_def)
    next
      case (Some d)
      with g Force_down get_device_listed(3) [OF g [unfolded Some]] timed_alter [OF wf] show ?thesis
        by (simp add: perform_def case_prod_beta)
    qed
  next
    case (Status nm)
    obtain p t where g: "get_device (g_devices s) (Some nm) s = (p, t)" by fastforce
    show ?thesis
    proof (cases p)
      case None
      with g Status timed_missing [of _ _ s t E] show ?thesis by (simp add: perform_def)
    next
      case (Some d)
      with g Status get_device_listed(3) [OF g [unfolded Some]] sends show ?thesis
        by (simp add: perform_def)
    qed
  qed (use sends in \<open>simp_all add: perform_def\<close>)
qed

lemma timed_client_message:
  assumes "wf_server s" "c \<in> set (g_clients s)"
  shows "timed E s (snd (client_message E c m s))"
  by (cases rule: client_message_cases [of E c m s]) (simp_all add: timed_perform [OF assms])

lemma timed_same_devices: "same_devices s t \<Longrightarrow> tick s \<le> tick t \<Longrightarrow> timed E s t"
  by (auto simp: timed_def timed_device_def same_devices_def)

lemma timed_command:
  assumes "wf_server s"
  shows "timed E s (snd (process_command E p s))"
proof (cases p)
  case (Recv_error e)
  then show ?thesis by (simp add: process_command_def)
next
  case (Packet cli bytes)
  define s1 where "s1 = undefined_if (\<not> length (received bytes) < MAX_RECV_BUFFER) s"
  have t1: "timed E s s1" and w1: "wf_server s1" using assms by (simp_all add: s1_def)
  have client: "timed E s (snd (process_client E cli m s1))" for m
    using w1
  proof (cases rule: process_client_cases [where E = E and cli = cli])
    case (no_memory t)
    then show ?thesis using timed_trans [OF t1 timed_same_devices] by simp
  next
    case (ready c t)
    have t: "timed E s t" "wf_server t" "c \<in> set (g_clients t)"
      using ready(1) timed_trans [OF t1 timed_same_devices [of s1 t]] by (auto simp: registered_def)
    show ?thesis using timed_trans [OF t(1) timed_client_message [OF t(2,3)]] ready(3) by simp
  qed
  have peer: "timed E s (snd (process_peer E m s1))" for m
    using timed_trans [OF t1 timed_alter [OF w1]] t1
    by (auto simp: process_peer_def get_device_find case_prod_beta split: option.splits)
  from Packet client peer t1 show ?thesis by (simp add: process_command_def Let_def s1_def)
qed

lemma timed_poll:
  assumes "wf_server s"
  shows "timed E s (poll_and_sweep E s)"
proof -
  let ?b = "snd (broadcast_status_message E s)"
  let ?c = "snd (timeout_old_clients E ?b)"
  have b: "timed E s ?b" "wf_server ?b"
    using timed_io [OF status_broadcast.core status_broadcast.later] polling.keeps_wf [OF assms] by auto
  have c: "timed E s ?c" "wf_server ?c"
    using timed_trans [OF b(1) timed_client_sweep [OF b(2)]] client_sweep.keeps_wf [OF b(2)] by auto
  show ?thesis using timed_trans [OF c(1) timed_device_sweep [OF c(2)]]
    by (simp add: poll_and_sweep_def case_prod_beta)
qed

lemma timed_flags [simp]:
  "timed E s (t\<lparr>g_keep_going := b\<rparr>) = timed E s t" "timed E s (t\<lparr>exited := b\<rparr>) = timed E s t"
  "timed E s (termination_handler t) = timed E s t"
  by (rule timed_same; simp add: termination_handler_def)+

lemma timed_iteration:
  assumes "wf_server s"
  shows "timed E s (iteration E w s)"
proof (induction w)
  case (Readable p)
  show ?case
    using timed_trans [OF timed_command [OF assms] timed_poll [OF command.keeps_wf [OF assms]], of E p] by simp
next
  case (Select_failed e)
  have "timed E s ((set_errno e s)\<lparr>g_keep_going := False\<rparr>)" "wf_server ((set_errno e s)\<lparr>g_keep_going := False\<rparr>)"
    using assms by simp_all
  from timed_trans [OF this(1) timed_poll [OF this(2)]] show ?case by auto
qed (simp_all add: timed_poll [OF assms])

lemma reachable_clocked:
  assumes "reachable E s0 s" "wf_server s0" "clocked E s0"
  shows "clocked E s"
  using assms
proof (induction rule: reachable.induct)
  case (step s t)
  then obtain w where "t = iteration E w s" by (auto elim: loop_stepE)
  moreover have "wf_server s" using reachable_keeps step by blast
  ultimately show ?case using step clocked_timed timed_iteration iteration_keeps
    by (metis same_system_def)
qed

end
