(* ===== verification/Server_Safety.thy ===== *)
theory Server_Safety
  imports Server_Clock
begin

text \<open>
  Memory safety of the server over whole runs. Undefined behaviour can come from three
  places only: a datagram that fills the receive buffer, a device without a description
  when a client asks for the list, and an uptime and user count too long for the buffer of
  a status reply. With datagrams shorter than the buffer, described devices, a clock
  that moves forward by less than $10^8$ seconds during the run and less than ten thousand
  hosts, no run raises \<open>ub\<close>, whatever fails in the environment.
\<close>

section \<open>Which operations can raise the flag\<close>

definition short_packet :: "packet \<Rightarrow> bool" where
  "short_packet p = (case p of Packet _ bytes \<Rightarrow> length bytes < MAX_RECV_BUFFER | Recv_error _ \<Rightarrow> True)"

lemma short_received: "length bytes < MAX_RECV_BUFFER \<Longrightarrow> length (received bytes) < MAX_RECV_BUFFER"
  by (simp add: received_def)

definition short_uptimes :: "env \<Rightarrow> server \<Rightarrow> bool" where
  "short_uptimes E s \<longleftrightarrow> (\<forall>d \<in> set (g_devices s). status (device_at s d) = LINK_UP \<longrightarrow>
     (\<forall>n \<ge> tick s. length (uptime_text (e_time E n - connect_time (device_at s d))
                       (int (length (clients_connected (device_at s d))))) \<le> 13))"

lemma ub_send_device_status_short:
  assumes wf: "wf_server s" "few_clients s" "d \<in> set (g_devices s)" and short: "short_uptimes E s"
  shows "ub (snd (send_device_status E c d s)) = ub s"
proof -
  obtain nm where nm: "device_name (device_at s d) = Some nm" using wf by (auto simp: wf_defs)
  define t where "t = snd (malloc E (undefined_if False s))"
  have t: "device_at t = device_at s" "tick t = Suc (tick s)" "ub t = ub s" "wf_server t" "few_clients t"
    "g_devices t = g_devices s"
    using wf by (simp_all add: t_def few_clients_def)
  obtain p u where pu: "print_device_status E d t = (p, u)" by fastforce
  have u: "ub u = ub s" using ub_print_safe [OF t(4,5), of d E] t wf(3) pu by simp
  show ?thesis
  proof (cases p)
    case None
    with u pu nm show ?thesis
      by (simp add: send_device_status_def case_prod_beta Let_def t_def)
  next
    case (Some st)
    have "length st \<le> length nm + 17"
      using print_device_status_shape [OF pu [unfolded Some], of nm] nm t short wf(3)
      by (cases "status (device_at s d)") (auto simp: lengths_of_status_words short_uptimes_def
          intro: order_trans)
    then have "length (SERVER_STATUS_PREFIX @ st) + 1
        \<le> length SERVER_STATUS_PREFIX + length SERVER_STATUS_DISCONNECTING + length nm + 4"
      by (simp add: lengths_of_status_words)
    with u pu nm Some show ?thesis
      by (simp add: send_device_status_def case_prod_beta Let_def t_def)
  qed
qed

text \<open>Requests change no client's identity, and raise the flag only where a reply overflows.\<close>

lemma perform_frame:
  assumes wf: "wf_server s" and c: "c \<in> set (g_clients s)"
  shows "same_clients s (snd (perform E c q s))"
    and "few_clients s \<Longrightarrow> described s \<Longrightarrow> short_uptimes E s \<Longrightarrow> ub (snd (perform E c q s)) = ub s"
proof -
  have "same_clients s (snd (perform E c q s)) \<and> (few_clients s \<and> described s \<and> short_uptimes E s
    \<longrightarrow> ub (snd (perform E c q s)) = ub s)"
  proof (cases q)
    case (Up nm)
    obtain p t where g: "get_device (g_devices s) (Some nm) s = (p, t)" by fastforce
    show ?thesis
    proof (cases p)
      case None
      with g Up get_device_missing(1) [OF g [unfolded None]] show ?thesis
        by (simp add: perform_def same_clients_io)
    next
      case (Some d)
      with g Up get_device_listed [OF g [unfolded Some]] connect_keeps [OF wf c, of d E] show ?thesis
        by (auto simp: perform_def case_prod_beta link_frame_def same_setup_def)
    qed
  next
    case (Down nm)
    obtain p t where g: "get_device (devices_connected (client_at s c)) (Some nm) s = (p, t)" by fastforce
    show ?thesis
    proof (cases p)
      case None
      with g Down get_device_missing(1) [OF g [unfolded None]] show ?thesis
        by (simp add: perform_def same_clients_io)
    next
      case (Some d)
      note l = get_device_listed [OF g [unfolded Some]]
      obtain r u where ru: "disconnect_client_from_device E c d s = (r, u)" by fastforce
      from g Down Some l ru disconnect_keeps(2) [OF wf c wf_connected_device [OF wf c l(1)] ru] show ?thesis
        by (simp add: perform_def link_frame_def same_setup_def)
    qed
  next
    case (Force_down nm)
    obtain p t where g: "get_device (g_devices s) (Some nm) s = (p, t)" by fastforce
    show ?thesis
    proof (cases p)
      case None
      with g Force_down get_device_missing(1) [OF g [unfolded None]] show ?thesis
        by (simp add: perform_def same_clients_io)
    next
      case (Some d)
      with g Force_down get_device_listed(3) [OF g [unfolded Some]]
        same_clients_effect [OF alter.effect [OF wf, of d E LINK_DOWN]] alter.keeps_ub [OF wf, of E d LINK_DOWN]
      show ?thesis by (simp add: perform_def case_prod_beta)
    qed
  next
    case (Status nm)
    obtain p t where g: "get_device (g_devices s) (Some nm) s = (p, t)" by fastforce
    show ?thesis
    proof (cases p)
      case None
      with g Status get_device_missing(1) [OF g [unfolded None]] show ?thesis
        by (simp add: perform_def same_clients_io)
    next
      case (Some d)
      with g Status get_device_listed [OF g [unfolded Some]] device_status.keeps_clients
        ub_send_device_status_short [OF wf]
      show ?thesis by (simp add: perform_def)
    qed
  qed (simp_all add: perform_def device_list.keeps_clients client_status.keeps_clients
      ub_send_device_list [OF wf] ub_send_client_status [OF wf c])
  then show "same_clients s (snd (perform E c q s))"
    "few_clients s \<Longrightarrow> described s \<Longrightarrow> short_uptimes E s \<Longrightarrow> ub (snd (perform E c q s)) = ub s" by auto
qed

section \<open>Bounded numbers of hosts and bounded time\<close>

definition known_hosts :: "in_addr set \<Rightarrow> server \<Rightarrow> bool" where
  "known_hosts A s \<longleftrightarrow> client_key s ` set (g_clients s) \<subseteq> A"

definition few_hosts :: "in_addr set \<Rightarrow> bool" where
  "few_hosts A \<longleftrightarrow> card A < 10 ^ 4"

definition steady_clock :: "env \<Rightarrow> bool" where
  "steady_clock E \<longleftrightarrow> (\<forall>m n. m \<le> n \<longrightarrow> e_time E m \<le> e_time E n \<and> e_time E n < e_time E m + 10 ^ 8)"

lemma few_listed_clients:
  assumes "wf_server s" "known_hosts A s" "few_hosts A"
  shows "length (g_clients s) < 10 ^ 4"
proof -
  have "inj_on (client_key s) (set (g_clients s))" "distinct (g_clients s)"
    using assms(1) by (auto simp: wf_defs)
  then have "length (g_clients s) = card (client_key s ` set (g_clients s))"
    by (simp add: card_image distinct_card)
  also have "\<dots> \<le> card A" using assms(2) by (intro card_mono) (auto simp: known_hosts_def)
  finally show ?thesis using assms(3) by (simp add: few_hosts_def)
qed

lemma few_clients_hosts: "wf_server s \<Longrightarrow> known_hosts A s \<Longrightarrow> few_hosts A \<Longrightarrow> few_clients s"
  using few_listed_clients [of s A] by (simp add: few_clients_def)

lemma short_uptime:
  assumes "0 \<le> t" "t < 10 ^ 8" "n < 10 ^ 4"
  shows "length (uptime_text t (int n)) \<le> 13"
proof -
  have "c_int t = t" using assms by (intro c_int_id) simp_all
  moreover have "length (print_num t) \<le> Suc 7" using assms by (intro length_print_num) simp_all
  moreover have "length (print_num (int n)) \<le> Suc 3" using assms(3) by (intro length_print_num) simp_all
  ultimately show ?thesis using assms by (simp add: uptime_text_def print_int_def)
qed

lemma short_uptimesI:
  assumes wf: "wf_server s" and hosts: "known_hosts A s" "few_hosts A" and clock: "clocked E s" "steady_clock E"
  shows "short_uptimes E s"
  unfolding short_uptimes_def
proof (intro ballI allI impI)
  fix d n assume d: "d \<in> set (g_devices s)" "status (device_at s d) = LINK_UP" and n: "tick s \<le> n"
  have cc: "distinct (clients_connected (device_at s d))" "distinct (g_clients s)"
    "set (clients_connected (device_at s d)) \<subseteq> set (g_clients s)"
    using wf d by (auto simp: wf_defs)
  then have "length (clients_connected (device_at s d)) \<le> length (g_clients s)"
    using card_mono [of "set (g_clients s)"] by (simp add: distinct_card [symmetric])
  with few_listed_clients [OF wf hosts] have users: "length (clients_connected (device_at s d)) < 10 ^ 4" by simp
  from clock(1) d obtain m where "m < tick s" "connect_time (device_at s d) = e_time E m"
    by (auto simp: clocked_def shown_def)
  then have "0 \<le> e_time E n - connect_time (device_at s d) \<and> e_time E n - connect_time (device_at s d) < 10 ^ 8"
    using clock(2) n by (auto simp: steady_clock_def algebra_simps)
  with users short_uptime show "length (uptime_text (e_time E n - connect_time (device_at s d))
    (int (length (clients_connected (device_at s d))))) \<le> 13" by blast
qed

section \<open>The safety invariant\<close>

text \<open>Everything that makes the next step safe.\<close>

definition safe :: "env \<Rightarrow> in_addr set \<Rightarrow> server \<Rightarrow> bool" where
  "safe E A s \<longleftrightarrow> wf_server s \<and> known_hosts A s \<and> clocked E s \<and> described s \<and> \<not> ub s"

lemma described_fixed: "fixed_setup s t \<Longrightarrow> described t = described s"
  by (simp add: described_def fixed_setup_def same_config_def)

lemma known_hosts_fewer: "known_hosts A s \<Longrightarrow> fewer_clients s t \<Longrightarrow> known_hosts A t"
  by (auto simp: known_hosts_def fewer_clients_def)

definition sender_in :: "in_addr set \<Rightarrow> packet \<Rightarrow> bool" where
  "sender_in A p = (case p of Packet cli _ \<Rightarrow> sin_addr cli \<in> A | Recv_error _ \<Rightarrow> True)"

lemma safe_step:
  assumes "safe E A s" "wf_server t" "fixed_setup s t" "timed E s t" "fewer_clients s t" "ub t = ub s"
  shows "safe E A t"
  using assms clocked_timed [of E s t] known_hosts_fewer [of A s t] described_fixed [of s t]
  by (simp add: safe_def fixed_setup_def)

lemma safe_errno [simp]: "safe E A (set_errno e s) = safe E A s"
  by (simp add: safe_def known_hosts_def clocked_def shown_def described_def)

lemma safe_client_message:
  assumes "safe E A s" "few_hosts A" "steady_clock E" "c \<in> set (g_clients s)"
  shows "safe E A (snd (client_message E c m s))"
proof (cases rule: client_message_cases [of E c m s])
  case (request q)
  have wf: "wf_server s" using assms(1) by (simp add: safe_def)
  have "few_clients s" "short_uptimes E s" "described s"
    using assms few_clients_hosts short_uptimesI by (auto simp: safe_def)
  with perform_frame [OF wf assms(4), of E q] perform_keeps [OF wf assms(4), of E q]
    timed_perform [OF wf assms(4), of E q] request
  show ?thesis by (intro safe_step [OF assms(1)]) (auto intro: fewer_clients_same)
next
  case unknown
  then show ?thesis using assms(1) by simp
qed

lemma registered_hosts:
  assumes "registered cli c s t" "known_hosts A s" "sin_addr cli \<in> A"
  shows "known_hosts A t"
proof -
  have "client_key t x \<in> A" if "x \<in> set (g_clients t)" for x
    using that assms by (cases "x = c") (auto simp: registered_def known_hosts_def)
  then show ?thesis by (auto simp: known_hosts_def)
qed

lemma safe_command:
  assumes "safe E A s" "few_hosts A" "steady_clock E" "sender_in A p" "short_packet p"
  shows "safe E A (snd (process_command E p s))"
proof (cases p)
  case (Recv_error e)
  then show ?thesis using assms(1) by (simp add: process_command_def)
next
  case (Packet cli bytes)
  have wf: "wf_server s" using assms(1) by (simp add: safe_def)
  have s: "undefined_if (\<not> length (received bytes) < MAX_RECV_BUFFER) s = s"
    using short_received [of bytes] assms(5) Packet by (simp add: short_packet_def undefined_if_def)
  have client: "safe E A (snd (process_client E cli m s))" for m
    using wf
  proof (cases rule: process_client_cases [where E = E and cli = cli])
    case (no_memory t)
    have "fewer_clients s t \<or> known_hosts A t"
      using assms(1) no_memory(4,7) by (auto simp: safe_def known_hosts_def)
    then have "known_hosts A t" using assms(1) known_hosts_fewer by (auto simp: safe_def)
    then show ?thesis using no_memory assms(1) clocked_timed [OF _ timed_same_devices [OF no_memory(3,6)]]
      by (auto simp: safe_def same_devices_def described_def)
  next
    case (ready c t)
    have sd: "same_devices s t" "tick s \<le> tick t" "wf_server t" "c \<in> set (g_clients t)"
      using ready(1) by (auto simp: registered_def)
    have "known_hosts A t"
      using registered_hosts [OF ready(1)] assms(1,4) Packet by (simp add: safe_def sender_in_def)
    then have "safe E A t"
      using sd assms(1) clocked_timed [OF _ timed_same_devices [OF sd(1,2)]]
      by (auto simp: safe_def same_devices_def described_def)
    then show ?thesis using safe_client_message [OF _ assms(2,3) sd(4)] ready(3) by simp
  qed
  have alt: "safe E A (snd (alter_device_status E d st s))" for d st
    by (rule safe_step [OF assms(1)])
      (use alter_keeps [OF wf] timed_alter [OF wf] same_clients_effect [OF alter.effect [OF wf]] alter.keeps_ub [OF wf]
       in \<open>auto intro: fewer_clients_same\<close>)
  have io: "safe E A (set_errno e s)" for e using assms(1) by simp
  have peer: "safe E A (snd (process_peer E m s))" for m
    using alt io assms(1)
    by (simp add: process_peer_def get_device_find case_prod_beta split: option.splits)
  from client peer io show ?thesis by (simp add: process_command_def Packet Let_def s)
qed

lemma safe_poll:
  assumes "safe E A s" "few_hosts A"
  shows "safe E A (poll_and_sweep E s)"
proof -
  let ?b = "snd (broadcast_status_message E s)"
  let ?c = "snd (timeout_old_clients E ?b)"
  let ?d = "snd (timeout_old_devices E ?c)"
  have wf: "wf_server s" using assms(1) by (simp add: safe_def)
  have few: "few_clients s" using assms few_clients_hosts by (auto simp: safe_def)
  have b: "safe E A ?b"
    by (rule safe_step [OF assms(1)])
      (use polling.keeps [OF wf] timed_io [OF status_broadcast.core status_broadcast.later]
        status_broadcast.keeps_clients ub_broadcast_status [OF wf few] in \<open>auto intro: fewer_clients_same\<close>)
  then have wb: "wf_server ?b" by (simp add: safe_def)
  obtain rc where rc: "timeout_old_clients E ?b = (rc, ?c)" by (metis prod.collapse)
  note kc = timeout_old_clients_keeps [OF wb rc]
  have c: "safe E A ?c"
    by (rule safe_step [OF b]) (use kc fixed_setup_same timed_client_sweep [OF wb] in \<open>auto simp: same_setup_def\<close>)
  then have wc: "wf_server ?c" by (simp add: safe_def)
  obtain rd where rd: "timeout_old_devices E ?c = (rd, ?d)" by (metis prod.collapse)
  note kd = timeout_old_devices_keeps [OF wc rd]
  have "safe E A ?d"
    by (rule safe_step [OF c])
      (use kd fixed_setup_same timed_device_sweep [OF wc] in \<open>auto simp: same_setup_def intro: fewer_clients_same\<close>)
  then show ?thesis by (simp add: poll_and_sweep_def case_prod_beta)
qed

fun safe_input :: "in_addr set \<Rightarrow> wakeup \<Rightarrow> bool" where
  "safe_input A (Readable p) = (sender_in A p \<and> short_packet p)"
| "safe_input A (Signalled w) = safe_input A w"
| "safe_input A _ = True"

lemma safe_flags [simp]:
  "safe E A (s\<lparr>g_keep_going := b\<rparr>) = safe E A s" "safe E A (s\<lparr>exited := b\<rparr>) = safe E A s"
  "safe E A (termination_handler s) = safe E A s"
  by (simp_all add: safe_def known_hosts_def clocked_def shown_def described_def termination_handler_def)

lemma safe_iteration:
  assumes "safe E A s" "few_hosts A" "steady_clock E" "safe_input A w"
  shows "safe E A (iteration E w s)"
  using assms(4)
  by (induction w) (simp_all add: safe_poll safe_command assms)

lemma safe_serve:
  assumes "safe E A s" "few_hosts A" "steady_clock E" "\<forall>w \<in> set ws. safe_input A w"
  shows "safe E A (serve E ws s)"
  using assms by (induction ws arbitrary: s) (simp_all add: safe_iteration)

end
