(* ===== verification/Consistency.thy ===== *)
theory Consistency
  imports Server_Safety
begin

text \<open>
  The functional invariant of the server when the commands it runs succeed: the lists of
  clients and devices mirror each other (\<open>symmetric_links\<close>) and a device is up or dialling
  exactly when some client wants it (\<open>demand_matches\<close>). Every operation keeps it; in
  other environments only the well-formedness of \<open>Server_State\<close> holds.
\<close>

section \<open>The invariant\<close>

definition consistent :: "server \<Rightarrow> bool" where
  "consistent s \<longleftrightarrow> wf_server s \<and> symmetric_links s \<and> demand_matches s \<and> 0 \<le> g_retries (conf s)"

definition wanted :: "device_t \<Rightarrow> bool" where
  "wanted x \<longleftrightarrow> status x \<in> {LINK_UP, LINK_CONNECTING}"

lemma demand_matches_wanted:
  "demand_matches s \<longleftrightarrow> (\<forall>d \<in> set (g_devices s). (clients_connected (device_at s d) \<noteq> []) = wanted (device_at s d))"
  by (simp add: demand_matches_def wanted_def)

lemma consistentD:
  assumes "consistent s"
  shows "wf_server s" "symmetric_links s" "demand_matches s" "0 \<le> g_retries (conf s)"
  using assms by (simp_all add: consistent_def)

lemma consistent_same_core: "same_core s t \<Longrightarrow> consistent s \<Longrightarrow> consistent t"
  using wf_same_core same_core_invariants same_core_fields(1) by (auto simp: consistent_def)

text \<open>A change to one device is judged at that device alone.\<close>

lemma demand_matches_one:
  assumes "demand_matches s" "g_devices t = g_devices s" "\<And>e. e \<noteq> d \<Longrightarrow> device_at t e = device_at s e"
    "(clients_connected (device_at t d) \<noteq> []) = wanted (device_at t d)"
  shows "demand_matches t"
proof -
  have "(clients_connected (device_at t e) \<noteq> []) = wanted (device_at t e)" if "e \<in> set (g_devices s)" for e
    using assms(3) [of e] assms(1,4) that by (cases "e = d") (simp_all add: demand_matches_wanted)
  then show ?thesis by (simp add: demand_matches_wanted assms(2))
qed

text \<open>In a well-formed state an entry is determined by its key.\<close>

lemma same_address:
  "wf_server s \<Longrightarrow> c \<in> set (g_clients s) \<Longrightarrow> d \<in> set (g_devices s) \<Longrightarrow>
     p \<in> set (clients_connected (device_at s d)) \<Longrightarrow> client_key s p = client_key s c \<Longrightarrow> p = c"
  using wf_connected_client [of s d p] by (auto simp: wf_server_def wf_clients_def dest: inj_onD)

lemma same_name:
  "wf_server s \<Longrightarrow> c \<in> set (g_clients s) \<Longrightarrow> d \<in> set (g_devices s) \<Longrightarrow>
     p \<in> set (devices_connected (client_at s c)) \<Longrightarrow> device_key s p = device_key s d \<Longrightarrow> p = d"
  using wf_connected_device [of s c p] by (auto simp: wf_server_def wf_devices_def dest: inj_onD)

section \<open>Changing the status of a device\<close>

text \<open>A successful change leaves a device idle exactly when it is not wanted.\<close>

lemma wb_alter_fields:
  assumes "well_behaved E" "wf_server s" "\<not> refused new (status (device_at s d))"
  shows "status (device_at (snd (alter_device_status E d new s)) d) = next_status d new s"
    "clients_connected (device_at (snd (alter_device_status E d new s)) d) =
       (if drops_links d new s then [] else clients_connected (device_at s d))"
    "fst (alter_device_status E d new s) = 0"
proof -
  have "fst (alter_device_status E d new s) = 0" using wb_alter [OF assms] by simp
  then show "fst (alter_device_status E d new s) = 0"
    "status (device_at (snd (alter_device_status E d new s)) d) = next_status d new s"
    "clients_connected (device_at (snd (alter_device_status E d new s)) d) =
       (if drops_links d new s then [] else clients_connected (device_at s d))"
    using wb_alter [OF assms] alter_outcome [OF assms(2), of E d new] by auto
qed

lemma demand_matches_alter:
  assumes wb: "well_behaved E" and s: "wf_server s" "demand_matches s"
    and d: "d \<in> set (g_devices s)" "\<not> refused new (status (device_at s d))"
    and new: "new = LINK_CONNECTING \<Longrightarrow> status (device_at s d) = LINK_CONNECTING"
      "new = LINK_DISCONNECTING \<Longrightarrow> status (device_at s d) = LINK_DISCONNECTING"
  shows "demand_matches (snd (alter_device_status E d new s))"
proof -
  let ?t = "snd (alter_device_status E d new s)"
  have g: "g_devices ?t = g_devices s" using alter.keeps_lists [OF s(1)] by simp
  have other: "device_at ?t e = device_at s e" if "e \<noteq> d" for e
    by (rule alter.keeps_other_devices [OF s(1) that])
  have m: "(clients_connected (device_at s d) \<noteq> []) = wanted (device_at s d)"
    using s(2) d(1) by (simp add: demand_matches_wanted)
  note a = wb_alter_fields [OF wb s(1) d(2)]
  have "((if drops_links d new s then [] else clients_connected (device_at s d)) \<noteq> []) =
      (next_status d new s \<in> {LINK_UP, LINK_CONNECTING})"
    using m d(2) new
    by (cases new; cases "status (device_at s d)")
       (simp_all add: wanted_def next_status_def drops_links_def)
  then have "(clients_connected (device_at ?t d) \<noteq> []) = wanted (device_at ?t d)"
    by (simp only: a wanted_def)
  with demand_matches_one [OF s(2) g other] show ?thesis by blast
qed

lemma consistent_alter:
  assumes "well_behaved E" "consistent s" "d \<in> set (g_devices s)"
    and "new = LINK_CONNECTING \<Longrightarrow> status (device_at s d) = LINK_CONNECTING"
      "new = LINK_DISCONNECTING \<Longrightarrow> status (device_at s d) = LINK_DISCONNECTING"
  shows "consistent (snd (alter_device_status E d new s))"
proof (cases "refused new (status (device_at s d))")
  case True
  have "same_core s (set_errno EINVAL s)" by simp
  from consistent_same_core [OF this assms(2)] True show ?thesis by (simp add: alter_refused)
next
  case False
  note s = consistentD [OF assms(2)]
  show ?thesis
    using alter.keeps_wf [OF s(1)] alter.keeps_symmetry [OF s(1,2)] alter.keeps_lists [OF s(1)] s(4)
      demand_matches_alter [OF assms(1) s(1,3) assms(3) False assms(4,5)]
    by (simp add: consistent_def)
qed

section \<open>Connecting a client\<close>

lemma wb_raise_link:
  assumes wb: "well_behaved E" and con: "consistent s" and d: "d \<in> set (g_devices s)"
    and rl: "raise_link E d s = (r, t)"
  shows "r = 0" "wf_server t" "symmetric_links t" "status (device_at t d) \<in> {LINK_UP, LINK_CONNECTING}"
    "clients_connected (device_at t d) = clients_connected (device_at s d)"
    "\<And>e. e \<noteq> d \<Longrightarrow> device_at t e = device_at s e"
proof -
  note s = consistentD [OF con]
  have dm: "(clients_connected (device_at s d) \<noteq> []) = wanted (device_at s d)"
    using s(3) d by (simp add: demand_matches_wanted)
  let ?z = "reset_retries d s"
  have z: "wf_server ?z" "symmetric_links ?z" "clients_connected (device_at ?z d) = clients_connected (device_at s d)"
    "retries (device_at ?z d) = g_retries (conf s)"
    using s by (auto simp: symmetric_links_def reset_retries_def)
  have "r = 0 \<and> wf_server t \<and> symmetric_links t \<and> status (device_at t d) \<in> {LINK_UP, LINK_CONNECTING}
    \<and> clients_connected (device_at t d) = clients_connected (device_at s d)
    \<and> (\<forall>e. e \<noteq> d \<longrightarrow> device_at t e = device_at s e)"
  proof (cases "clients_connected (device_at s d) = []")
    case True
    with dm have st: "status (device_at ?z d) \<in> {LINK_DOWN, LINK_DISCONNECTING}"
      by (cases "status (device_at s d)") (simp_all add: wanted_def)
    then have nr: "\<not> refused LINK_CONNECTING (status (device_at ?z d))" by auto
    have t: "r = fst (alter_device_status E d LINK_CONNECTING ?z)" "t = snd (alter_device_status E d LINK_CONNECTING ?z)"
      using rl True by (auto simp: raise_link_def prod_eq_iff)
    have next_st: "next_status d LINK_CONNECTING ?z = LINK_CONNECTING"
      using st s(4) by (auto simp: next_status_def exhausted_def)
    note a = wb_alter_fields [OF wb z(1) nr]
    have "device_at t e = device_at s e" if "e \<noteq> d" for e
      using alter.keeps_other_devices [OF z(1) that] that by (simp add: t)
    then show ?thesis
      using a alter.keeps_wf [OF z(1)] alter.keeps_symmetry [OF z(1,2)] True z(3)
      by (simp add: t next_st)
  next
    case False
    with rl s dm show ?thesis by (auto simp: raise_link_def wanted_def)
  qed
  then show "r = 0" "wf_server t" "symmetric_links t" "status (device_at t d) \<in> {LINK_UP, LINK_CONNECTING}"
    "clients_connected (device_at t d) = clients_connected (device_at s d)"
    "\<And>e. e \<noteq> d \<Longrightarrow> device_at t e = device_at s e" by auto
qed

lemma wb_add_client_ok:
  assumes "well_behaved E" "add_client E cs c s = (r, l, t)"
    "distinct cs" "\<And>p. p \<in> set cs \<Longrightarrow> client_key s p = client_key s c \<Longrightarrow> p = c"
  shows "\<not> (r < 0 \<and> errno t \<noteq> EALREADY)" "errno t = EALREADY \<or> r = 0"
  using assms by (cases rule: clis.add_cases [of cs s c E]; auto simp: well_behaved_def)+

lemma wb_add_device_ok:
  assumes "well_behaved E" "add_device E ds d s = (r, l, t)"
    "distinct ds" "\<And>p. p \<in> set ds \<Longrightarrow> device_key s p = device_key s d \<Longrightarrow> p = d"
  shows "\<not> (r < 0 \<and> errno t \<noteq> EALREADY)" "errno t = EALREADY \<or> r = 0"
  using assms by (cases rule: devs.add_cases [of ds s d E]; auto simp: well_behaved_def)+

lemma wb_connect:
  assumes wb: "well_behaved E" and con: "consistent s"
    and c: "c \<in> set (g_clients s)" and d: "d \<in> set (g_devices s)"
  shows "fst (connect_client_to_device E c d s) = 0 \<and> consistent (snd (connect_client_to_device E c d s))
    \<and> set (clients_connected (device_at (snd (connect_client_to_device E c d s)) d)) =
        insert c (set (clients_connected (device_at s d)))
    \<and> status (device_at (snd (connect_client_to_device E c d s)) d) \<in> {LINK_UP, LINK_CONNECTING}"
proof -
  note s = consistentD [OF con]
  obtain r1 t where rl: "raise_link E d s = (r1, t)" by fastforce
  note up = wb_raise_link [OF wb con d rl]
  have ft: "link_frame c d s t" using raise_link_keeps [OF s(1), of E d c] rl by simp
  then have ct: "c \<in> set (g_clients t)" "d \<in> set (g_devices t)" and g: "g_devices t = g_devices s"
      "g_clients t = g_clients s" "conf t = conf s"
    using c d by (auto simp: link_frame_def same_setup_def same_clients_def)
  obtain r2 cs u where ac: "add_client E (clients_connected (device_at t d)) c t = (r2, cs, u)"
    by (metis prod_cases3)
  note al = add_client_list [OF up(2) ct ac]
  have "distinct (clients_connected (device_at t d))"
    "\<And>p. p \<in> set (clients_connected (device_at t d)) \<Longrightarrow> client_key t p = client_key t c \<Longrightarrow> p = c"
    using up(2) ct same_address [OF up(2) ct] by (auto simp: wf_defs)
  note ok2 = wb_add_client_ok [OF wb ac this]
  define u' where "u' = upd_device d (clients_connected_update (\<lambda>_. cs)) u"
  have wu: "wf_server u'"
    unfolding u'_def by (rule wf_set_clients)
      (use wf_same_core [OF al(1) up(2)] al(3,4) same_core_fields(3) [OF al(1)] in auto)
  note fu = same_core_fields [OF al(1)]
  have cu: "c \<in> set (g_clients u')" "d \<in> set (g_devices u')" using ct fu by (simp_all add: u'_def)
  obtain r3 ds v where ad: "add_device E (devices_connected (client_at u' c)) d u' = (r3, ds, v)"
    by (metis prod_cases3)
  note dl = add_device_list [OF wu cu ad]
  have "distinct (devices_connected (client_at u' c))"
    "\<And>p. p \<in> set (devices_connected (client_at u' c)) \<Longrightarrow> device_key u' p = device_key u' d \<Longrightarrow> p = d"
    using wu cu same_name [OF wu cu] by (auto simp: wf_defs)
  note ok3 = wb_add_device_ok [OF wb ad this]
  define v' where "v' = upd_client c (devices_connected_update (\<lambda>_. ds)) v"
  note fv = same_core_fields [OF dl(1)]
  have eq: "connect_client_to_device E c d s = (0, v')"
    using connect_unfold [OF rl ac u'_def ad v'_def] up(1) ok2(1) ok3(1) by auto
  have dev: "device_at v' = (device_at t)(d := (device_at t d)\<lparr>clients_connected := cs\<rparr>)"
    and cli: "client_at v' = (client_at t)(c := (client_at t c)\<lparr>devices_connected := ds\<rparr>)"
    and gl: "g_devices v' = g_devices s" "g_clients v' = g_clients s" "conf v' = conf s"
    using fu fv g by (simp_all add: v'_def u'_def)
  have sets: "set cs = insert c (set (clients_connected (device_at t d)))"
    "set ds = insert d (set (devices_connected (client_at t c)))"
    using al(6) [OF ok2(2)] dl(6) [OF ok3(2)] fu by (simp_all add: u'_def)
  have "wf_server v'" using connect_keeps [OF s(1) c d, of E] by (simp add: eq)
  moreover have "symmetric_links v'"
    using up(3) sets by (auto simp: symmetric_links_def dev cli gl g)
  moreover have "demand_matches v'"
  proof -
    have "cs \<noteq> []" using sets(1) by auto
    then show ?thesis using up(4,6) s(3) by (auto simp: demand_matches_def dev gl)
  qed
  ultimately show ?thesis using s(4) sets(1) up(4,5) eq by (simp add: consistent_def gl dev)
qed

section \<open>Disconnecting a client\<close>

lemma wb_release_link:
  assumes wb: "well_behaved E" and con: "consistent s" and d: "d \<in> set (g_devices s)"
    and rt: "release_link E c d s = (r, t)"
  shows "r = 0" "symmetric_except (\<lambda>x y. x = c \<and> y = d) t" "demand_matches t" "wf_server t"
    "clients_connected (device_at t d) = remove1 c (clients_connected (device_at s d))"
proof -
  note s = consistentD [OF con]
  let ?w = "without_client c d s"
  note w = without_client_keeps [OF s(1) d, of c]
  have sx: "symmetric_except (\<lambda>x y. x = c \<and> y = d) ?w"
    unfolding symmetric_except_def
  proof (intro ballI impI)
    fix x y assume x: "x \<in> set (g_clients ?w)" "y \<in> set (g_devices ?w)" "\<not> (x = c \<and> y = d)"
    have "x \<in> set (clients_connected (device_at s y)) \<longleftrightarrow> y \<in> set (devices_connected (client_at s x))"
      using s(2) x by (simp add: symmetric_links_def)
    moreover have "x \<in> set (clients_connected (device_at ?w y)) \<longleftrightarrow> x \<in> set (clients_connected (device_at s y))"
      using x(3) w(3) by (cases "y = d") (auto simp del: without_client_simps(1))
    ultimately show "x \<in> set (clients_connected (device_at ?w y)) \<longleftrightarrow> y \<in> set (devices_connected (client_at ?w x))"
      by simp
  qed
  have dm: "(clients_connected (device_at s d) \<noteq> []) = wanted (device_at s d)"
    using s(3) d by (simp add: demand_matches_wanted)
  have "r = 0 \<and> symmetric_except (\<lambda>x y. x = c \<and> y = d) t \<and> demand_matches t
    \<and> clients_connected (device_at t d) = remove1 c (clients_connected (device_at s d))"
  proof (cases "c \<in> set (clients_connected (device_at s d)) \<and> remove1 c (clients_connected (device_at s d)) = []")
    case True
    then have t: "r = fst (alter_device_status E d LINK_DISCONNECTING ?w)"
      "t = snd (alter_device_status E d LINK_DISCONNECTING ?w)"
      using rt by (auto simp: release_link_def prod_eq_iff)
    have "clients_connected (device_at s d) \<noteq> []" using True by auto
    with dm have st: "status (device_at s d) \<in> {LINK_UP, LINK_CONNECTING}" by (simp add: wanted_def)
    then have nr: "\<not> refused LINK_DISCONNECTING (status (device_at ?w d))" by auto
    note a = wb_alter_fields [OF wb w(1) nr]
    have next_st: "next_status d LINK_DISCONNECTING ?w = LINK_DISCONNECTING"
      using st by (auto simp: next_status_def)
    have other: "device_at t e = device_at s e" if "e \<noteq> d" for e
      using alter.keeps_other_devices [OF w(1) that] that by (simp add: t)
    have cc: "clients_connected (device_at t d) = []" using a(2) True by (simp add: t)
    have g: "g_devices t = g_devices s" using alter.keeps_lists [OF w(1)] by (simp add: t)
    have "status (device_at t d) = LINK_DISCONNECTING" using a(1) next_st by (simp add: t)
    then have "demand_matches t"
      using demand_matches_one [OF s(3) g other] cc by (simp add: wanted_def)
    then show ?thesis
      using a(3) alter.keeps_symmetry_except [OF w(1) sx] cc True by (simp add: t)
  next
    case False
    then have t: "r = 0" "t = ?w" using rt by (auto simp: release_link_def)
    have "(clients_connected (device_at ?w e) \<noteq> []) = wanted (device_at ?w e)"
      if "e \<in> set (g_devices s)" for e
    proof (cases "e = d")
      case True
      have "(remove1 c (clients_connected (device_at s d)) = []) = (clients_connected (device_at s d) = [])"
        using False by (cases "c \<in> set (clients_connected (device_at s d))") auto
      with dm True show ?thesis by (simp add: wanted_def)
    next
      case other: False
      with s(3) that show ?thesis by (simp add: demand_matches_wanted)
    qed
    then have "demand_matches ?w" by (simp add: demand_matches_wanted)
    with sx t show ?thesis by simp
  qed
  moreover have "wf_server t" using release_link_keeps(1) [OF s(1) d, of E c] rt by simp
  ultimately show "r = 0" "symmetric_except (\<lambda>x y. x = c \<and> y = d) t" "demand_matches t" "wf_server t"
    "clients_connected (device_at t d) = remove1 c (clients_connected (device_at s d))" by auto
qed

lemma wb_disconnect:
  assumes wb: "well_behaved E" and con: "consistent s"
    and c: "c \<in> set (g_clients s)" and d: "d \<in> set (g_devices s)"
  shows "fst (disconnect_client_from_device E c d s) = 0 \<and> consistent (snd (disconnect_client_from_device E c d s))
    \<and> clients_connected (device_at (snd (disconnect_client_from_device E c d s)) d) =
        remove1 c (clients_connected (device_at s d))
    \<and> d \<notin> set (devices_connected (client_at (snd (disconnect_client_from_device E c d s)) c))"
proof -
  note s = consistentD [OF con]
  obtain r t where rt: "release_link E c d s = (r, t)" by fastforce
  note rel = wb_release_link [OF wb con d rt]
  obtain q u where qu: "disconnect_client_from_device E c d s = (q, u)" by fastforce
  note k = disconnect_keeps [OF s(1) c d qu]
  define t1 where "t1 = (if d \<in> set (devices_connected (client_at t c)) then t else set_errno ENODEV t)"
  have u: "q = 0" "u = upd_client c (devices_connected_update (\<lambda>_. remove1 d (devices_connected (client_at t c)))) t1"
    using disconnect_unfold [OF rt] qu rel(1) by (auto simp: t1_def)
  have t1: "device_at t1 = device_at t" "client_at t1 = client_at t" "g_devices t1 = g_devices t"
    "g_clients t1 = g_clients t" "conf t1 = conf t" by (simp_all add: t1_def)
  have g: "g_clients t = g_clients s" "g_devices t = g_devices s" "conf t = conf s"
    using k(2) t1 by (auto simp: u link_frame_def same_setup_def same_clients_def)
  have dist: "distinct (devices_connected (client_at t c))" "distinct (clients_connected (device_at s d))"
    using rel(4) s(1) c d g by (auto simp: wf_defs)
  have "symmetric_links u"
    unfolding symmetric_links_def
  proof (intro ballI)
    fix x y assume xy: "x \<in> set (g_clients u)" "y \<in> set (g_devices u)"
    show "x \<in> set (clients_connected (device_at u y)) \<longleftrightarrow> y \<in> set (devices_connected (client_at u x))"
    proof (cases "x = c \<and> y = d")
      case True
      then show ?thesis using dist rel(5) t1 by (simp add: u)
    next
      case False
      then show ?thesis using rel(2) xy dist t1 by (auto simp: symmetric_except_def u)
    qed
  qed
  moreover have "demand_matches u" using rel(3) t1 by (simp add: demand_matches_def u)
  ultimately have "consistent u" using k(1) s(4) g t1 by (simp add: consistent_def u)
  with qu u rel(5) dist t1 show ?thesis by simp
qed


section \<open>The sweeps\<close>

lemma wb_last_client:
  assumes "well_behaved E" "consistent s" "c \<in> set (g_clients s)" "d \<in> set (g_devices s)"
    and "c \<in> set (clients_connected (device_at s d))"
  shows "if clients_connected (device_at s d) = [c]
    then status (device_at (snd (disconnect_client_from_device E c d s)) d) = LINK_DISCONNECTING
      \<and> trace (snd (disconnect_client_from_device E c d s)) = trace s @
          [if status (device_at s d) = LINK_UP then Ran (link_down_command (device_at s d)) 0
           else forced_down (device_at s d)]
    else status (device_at (snd (disconnect_client_from_device E c d s)) d) = status (device_at s d)
      \<and> trace (snd (disconnect_client_from_device E c d s)) = trace s"
proof -
  obtain r t where rt: "release_link E c d s = (r, t)" by fastforce
  have "fst (disconnect_client_from_device E c d s) = 0" using wb_disconnect [OF assms(1-4)] by blast
  then have r: "\<not> r < 0" using disconnect_unfold [OF rt] by (auto split: if_splits)
  have after: "status (device_at (snd (disconnect_client_from_device E c d s)) d) = status (device_at t d)"
    "trace (snd (disconnect_client_from_device E c d s)) = trace t"
    using disconnect_unfold [OF rt] r by simp_all
  have wf: "wf_server s" by (rule consistentD(1) [OF assms(2)])
  have "clients_connected (device_at s d) \<noteq> []" using assms(5) by (metis empty_iff list.set(1))
  then have st: "status (device_at s d) \<in> {LINK_UP, LINK_CONNECTING}"
    using consistentD(3) [OF assms(2)] assms(4) unfolding demand_matches_def by blast
  let ?w = "without_client c d s"
  have trace_without: "trace ?w = trace s" by simp
  have last: "remove1 c (clients_connected (device_at s d)) = [] \<longleftrightarrow> clients_connected (device_at s d) = [c]"
    using assms(5) by (cases "clients_connected (device_at s d)") auto
  have t: "t = (if clients_connected (device_at s d) = [c]
      then snd (alter_device_status E d LINK_DISCONNECTING ?w) else ?w)"
    using rt assms(5) unfolding release_link_def last by (simp add: prod_eq_iff split: if_splits)
  have n: "\<not> refused LINK_DISCONNECTING (status (device_at ?w d))" using st by auto
  have w: "wf_server ?w" using without_client_keeps(1) [OF wf assms(4)] .
  have cmds: "link_down_command (device_at ?w d) = link_down_command (device_at s d)"
    "link_force_down_command (device_at ?w d) = link_force_down_command (device_at s d)"
    by (simp_all add: without_client_def)
  note a = wb_alter [OF assms(1) w n] wb_alter_fields [OF assms(1) w n]
  show ?thesis
  proof (cases "clients_connected (device_at s d) = [c]")
    case True
    have "next_status d LINK_DISCONNECTING ?w = LINK_DISCONNECTING" using st by (auto simp: next_status_def)
    moreover have "alter_events d LINK_DISCONNECTING ?w =
        [if status (device_at s d) = LINK_UP then Ran (link_down_command (device_at s d)) 0
         else forced_down (device_at s d)]"
      by (simp add: alter_events_def forced_down_def cmds)
    ultimately show ?thesis using True a(1,2) by (simp only: after t if_True trace_without) simp
  next
    case False
    then show ?thesis by (simp add: after t)
  qed
qed

lemma wb_disconnect_each:
  assumes "well_behaved E" "consistent s" "c \<in> set (g_clients s)" "set ds \<subseteq> set (g_devices s)"
  shows "fst (disconnect_from_each E c ds s) = 0 \<and> consistent (snd (disconnect_from_each E c ds s))"
  using assms
proof (induction ds arbitrary: s)
  case Nil
  then show ?case by simp
next
  case (Cons d ds)
  have d: "d \<in> set (g_devices s)" using Cons.prems by simp
  obtain q t where qt: "disconnect_client_from_device E c d s = (q, t)" by fastforce
  from wb_disconnect [OF Cons.prems(1-3) d] qt have q: "q = 0" "consistent t" by auto
  have "c \<in> set (g_clients t)" "set ds \<subseteq> set (g_devices t)"
    using disconnect_keeps(2) [OF consistentD(1) [OF Cons.prems(2)] Cons.prems(3) d qt] Cons.prems(3,4)
    by (auto simp: link_frame_def same_setup_def same_clients_def)
  from Cons.IH [OF Cons.prems(1) q(2) this] qt q show ?case by simp
qed

lemma consistent_drop_client:
  assumes "consistent s" "wf_server (drop_client c s)"
  shows "consistent (drop_client c s)"
proof -
  have "distinct (g_clients s)" using assms(1) by (simp add: consistent_def wf_defs)
  then show ?thesis using assms
    by (simp add: consistent_def symmetric_links_def demand_matches_def)
qed

lemma wb_expire_clients:
  assumes "well_behaved E" "consistent s" "distinct cs" "set cs \<subseteq> set (g_clients s)"
  shows "fst (expire_clients E cs s) = 0 \<and> consistent (snd (expire_clients E cs s))"
  using assms
proof (induction cs arbitrary: s)
  case Nil
  then show ?case by simp
next
  case (Cons c cs)
  define s1 where "s1 = snd (time_now E s)"
  have core: "same_core s s1" by (simp add: s1_def)
  note f = same_core_fields [OF core]
  have con: "consistent s1" by (rule consistent_same_core [OF core Cons.prems(2)])
  then have w1: "wf_server s1" "c \<in> set (g_clients s1)" and sub: "set cs \<subseteq> set (g_clients s1)"
    using Cons.prems(4) f by (auto simp: consistent_def)
  obtain r t where rt: "remove_client_from_all_devices E c s1 = (r, t)" by fastforce
  from wb_disconnect_each [OF Cons.prems(1) con w1(2), of "g_devices s1"] rt
  have r: "r = 0" "consistent t" by (simp_all add: remove_client_from_all_devices_def)
  note one = expire_one [OF w1 rt r(1)]
  have dist: "distinct (g_clients s1)" using w1(1) by (simp add: wf_defs)
  have subd: "set cs \<subseteq> set (g_clients (drop_client c t))" using one(5) sub dist Cons.prems(3) by auto
  have cond: "consistent (drop_client c t)" by (rule consistent_drop_client [OF r(2) one(2)])
  have tm: "time_now E s = (e_time E (tick s), s1)" by (simp add: s1_def time_now_def)
  have "expire_clients E (c # cs) s = expire_clients E cs s1
      \<or> expire_clients E (c # cs) s = expire_clients E cs (drop_client c t)"
    using tm rt r(1) one(1) by (simp add: one(6) Let_def)
  with Cons.IH [OF Cons.prems(1) con _ sub] Cons.IH [OF Cons.prems(1) cond _ subd] Cons.prems(3)
  show ?case by (auto simp del: expire_clients.simps)
qed

lemma wb_client_sweep:
  "well_behaved E \<Longrightarrow> consistent s \<Longrightarrow>
     fst (timeout_old_clients E s) = 0 \<and> consistent (snd (timeout_old_clients E s))"
  unfolding timeout_old_clients_def by (rule wb_expire_clients) (auto simp: consistent_def wf_defs)

lemma wb_expire_devices:
  assumes "well_behaved E" "consistent s" "set ds \<subseteq> set (g_devices s)"
  shows "fst (expire_devices E ds s) = 0 \<and> consistent (snd (expire_devices E ds s))"
  using assms
proof (induction ds arbitrary: s)
  case Nil
  then show ?case by simp
next
  case (Cons d ds)
  show ?case
  proof (cases rule: expire_step_device [of s d E ds])
    case (skipped t)
    with Cons.IH [OF Cons.prems(1) consistent_same_core [OF skipped(2) Cons.prems(2)]] Cons.prems(3)
    show ?thesis by (simp add: same_core_fields(2) [OF skipped(2)])
  next
    case (swept st due t u r)
    have con: "consistent t" by (rule consistent_same_core [OF swept(5) Cons.prems(2)])
    note f = same_core_fields [OF swept(5)]
    have d: "d \<in> set (g_devices t)" "status (device_at t d) = st" using Cons.prems(3) f swept(4) by auto
    have "consistent u"
      using consistent_alter [OF Cons.prems(1) con d(1), of st] d(2) swept(8) by simp
    moreover have "r = 0"
      using wb_alter_fields(3) [OF Cons.prems(1) consistentD(1) [OF con], of st d] d(2) swept(3,8) by auto
    moreover have "g_devices u = g_devices s"
      using alter.keeps_lists [OF consistentD(1) [OF con], of E d st] swept(8) f by simp
    ultimately show ?thesis using Cons.IH [OF Cons.prems(1), of u] Cons.prems(3) swept(9) by simp
  qed
qed

lemma wb_device_sweep:
  "well_behaved E \<Longrightarrow> consistent s \<Longrightarrow>
     fst (timeout_old_devices E s) = 0 \<and> consistent (snd (timeout_old_devices E s))"
  unfolding timeout_old_devices_def by (rule wb_expire_devices) simp_all

section \<open>Datagrams\<close>

lemma wb_alter_down:
  assumes "well_behaved E" "consistent s" "d \<in> set (g_devices s)"
  shows "fst (alter_device_status E d LINK_DOWN s) = 0" "consistent (snd (alter_device_status E d LINK_DOWN s))"
    "clients_connected (device_at (snd (alter_device_status E d LINK_DOWN s)) d) = []"
    "status (device_at (snd (alter_device_status E d LINK_DOWN s)) d) = LINK_DOWN"
proof -
  note a = wb_alter_fields [OF assms(1) consistentD(1) [OF assms(2)], of LINK_DOWN d]
  show con: "consistent (snd (alter_device_status E d LINK_DOWN s))"
    by (rule consistent_alter [OF assms]) simp_all
  show "fst (alter_device_status E d LINK_DOWN s) = 0" using a by simp
  show st: "status (device_at (snd (alter_device_status E d LINK_DOWN s)) d) = LINK_DOWN"
    using a(1) by (simp add: next_status_def)
  show "clients_connected (device_at (snd (alter_device_status E d LINK_DOWN s)) d) = []"
    using consistentD(3) [OF con] assms(3) st alter.keeps_lists [OF consistentD(1) [OF assms(2)]]
    by (auto simp: demand_matches_def)
qed

lemma consistent_clear_idle:
  assumes "consistent s" "clients_connected (device_at s d) = []"
  shows "consistent (upd_device d (clients_connected_update (\<lambda>_. [])) s)"
proof (rule consistent_same_core [OF _ assms(1)])
  show "same_core s (upd_device d (clients_connected_update (\<lambda>_. [])) s)"
    using assms(2) by (auto simp: same_core_iff fun_eq_iff)
qed

lemma consistent_perform:
  assumes wb: "well_behaved E" and con: "consistent s" and c: "c \<in> set (g_clients s)"
  shows "consistent (snd (perform E c q s))"
proof (cases q)
  case (Up nm)
  obtain p t where g: "get_device (g_devices s) (Some nm) s = (p, t)" by fastforce
  show ?thesis
  proof (cases p)
    case None
    with consistent_same_core [OF _ con, of t] g Up get_device_missing(1) [OF g [unfolded None]] show ?thesis
      by (simp add: perform_def)
  next
    case (Some d)
    with g Up get_device_listed [OF g [unfolded Some]] wb_connect [OF wb con c] show ?thesis
      by (simp add: perform_def case_prod_beta)
  qed
next
  case (Down nm)
  obtain p t where g: "get_device (devices_connected (client_at s c)) (Some nm) s = (p, t)" by fastforce
  show ?thesis
  proof (cases p)
    case None
    with consistent_same_core [OF _ con, of t] g Down get_device_missing(1) [OF g [unfolded None]] show ?thesis
      by (simp add: perform_def)
  next
    case (Some d)
    note l = get_device_listed [OF g [unfolded Some]]
    have "d \<in> set (g_devices s)" by (rule wf_connected_device [OF consistentD(1) [OF con] c l(1)])
    with g Down Some l wb_disconnect [OF wb con c] show ?thesis
      by (simp add: perform_def case_prod_beta)
  qed
next
  case (Force_down nm)
  obtain p t where g: "get_device (g_devices s) (Some nm) s = (p, t)" by fastforce
  show ?thesis
  proof (cases p)
    case None
    with consistent_same_core [OF _ con, of "set_errno ENODEV t"] g Force_down get_device_missing(1) [OF g [unfolded None]] show ?thesis
      by (simp add: perform_def)
  next
    case (Some d)
    note l = get_device_listed [OF g [unfolded Some]]
    with g Force_down Some wb_alter_down [OF wb con l(1)] consistent_clear_idle show ?thesis
      by (simp add: perform_def case_prod_beta)
  qed
next
  case (Status nm)
  obtain p t where g: "get_device (g_devices s) (Some nm) s = (p, t)" by fastforce
  show ?thesis
  proof (cases p)
    case None
    with consistent_same_core [OF _ con, of t] g Status get_device_missing(1) [OF g [unfolded None]] show ?thesis
      by (simp add: perform_def)
  next
    case (Some d)
    with g Status get_device_listed(3) [OF g [unfolded Some]] consistent_same_core [OF device_status.core con]
    show ?thesis by (simp add: perform_def)
  qed
qed (use con consistent_same_core [OF device_list.core con] consistent_same_core [OF client_status.core con]
       in \<open>simp_all add: perform_def\<close>)

lemma consistent_registered:
  assumes con: "consistent s" and reg: "registered cli c s t"
  shows "consistent t"
proof -
  note s = consistentD [OF con]
  have sd: "device_at t = device_at s" "g_devices t = g_devices s" "conf t = conf s"
    and wft: "wf_server t" using reg by (auto simp: registered_def same_devices_def)
  have "x \<in> set (clients_connected (device_at t d)) \<longleftrightarrow> d \<in> set (devices_connected (client_at t x))"
    if x: "x \<in> set (g_clients t)" and d: "d \<in> set (g_devices t)" for x d
  proof (cases "x \<in> set (g_clients s)")
    case True
    with reg have "devices_connected (client_at t x) = devices_connected (client_at s x)"
      unfolding registered_def by (cases "x = c") metis+
    with True s(2) d sd show ?thesis by (simp add: symmetric_links_def)
  next
    case False
    with reg x have new: "c \<notin> set (g_clients s) \<and> g_clients t = g_clients s @ [c]
        \<and> devices_connected (client_at t c) = []"
      unfolding registered_def by metis
    with False x have "x = c" "devices_connected (client_at t x) = []" by auto
    moreover have "x \<notin> set (clients_connected (device_at s d))"
      using False wf_connected_client [OF s(1), of d x] d sd by auto
    ultimately show ?thesis using sd by simp
  qed
  then have "symmetric_links t" by (simp add: symmetric_links_def)
  moreover have "demand_matches t" using s(3) sd by (simp add: demand_matches_def)
  ultimately show ?thesis using s(4) sd wft by (simp add: consistent_def)
qed

lemma consistent_command:
  assumes wb: "well_behaved E" and con: "consistent s"
  shows "consistent (snd (process_command E p s))"
proof (cases p)
  case (Recv_error e)
  with consistent_same_core [OF _ con, of "set_errno e s"] show ?thesis by (simp add: process_command_def)
next
  case (Packet cli bytes)
  define s1 where "s1 = undefined_if (\<not> length (received bytes) < MAX_RECV_BUFFER) s"
  have con1: "consistent s1" by (rule consistent_same_core [OF _ con]) (simp add: s1_def)
  have io: "consistent (set_errno e s1)" for e by (rule consistent_same_core [OF _ con1]) simp
  have mem: "\<forall>n. e_malloc E n" using wb by (simp add: well_behaved_def)
  from consistentD(1) [OF con1] have client: "consistent (snd (process_client E cli m s1))" for m
  proof (cases rule: process_client_cases [where E = E and cli = cli])
    case (no_memory t)
    with mem show ?thesis by blast
  next
    case (ready c t)
    have t: "consistent t" by (rule consistent_registered [OF con1 ready(1)])
    have c: "c \<in> set (g_clients t)" using ready(1) by (simp add: registered_def)
    have "consistent (snd (client_message E c m t))"
      by (cases rule: client_message_cases [of E c m t])
        (use consistent_perform [OF wb t c] consistent_same_core [OF _ t, of "set_errno ENOTSUP t"] in auto)
    with ready(3) show ?thesis by simp
  qed
  have peer: "consistent (snd (process_peer E m s1))" for m
  proof -
    obtain p t where up: "get_device (g_devices s1) (Some (drop (length NOTIFY_ISUP) m)) s1 = (p, t)" by fastforce
    obtain q u where down: "get_device (g_devices s1) (Some (drop (length NOTIFY_ISDOWN) m)) s1 = (q, u)" by fastforce
    have t: "p = None \<Longrightarrow> t = set_errno ENODEV s1" "\<And>d. p = Some d \<Longrightarrow> t = s1 \<and> d \<in> set (g_devices s1)"
      and u: "q = None \<Longrightarrow> u = set_errno ENODEV s1" "\<And>d. q = Some d \<Longrightarrow> u = s1 \<and> d \<in> set (g_devices s1)"
      using up down get_device_missing(1) get_device_listed by blast+
    have "consistent (snd (alter_device_status E d LINK_UP s1))" if "d \<in> set (g_devices s1)" for d
      by (rule consistent_alter [OF wb con1 that]) simp_all
    then show ?thesis
      using t u io wb_alter_down(2) [OF wb con1]
      by (cases p; cases q) (simp_all add: process_peer_def up down case_prod_beta)
  qed
  from Packet client peer io show ?thesis by (simp add: process_command_def Let_def s1_def)
qed

section \<open>The main loop\<close>

lemma consistent_flags [simp]:
  "consistent (s\<lparr>g_keep_going := b\<rparr>) = consistent s" "consistent (s\<lparr>exited := b\<rparr>) = consistent s"
  "consistent (termination_handler s) = consistent s"
  by (simp_all add: consistent_def symmetric_links_def demand_matches_def termination_handler_def)

lemma consistent_errno [simp]: "consistent (set_errno e s) = consistent s"
  by (simp add: consistent_def symmetric_links_def demand_matches_def)

lemma consistent_poll:
  assumes "well_behaved E" "consistent s"
  shows "consistent (poll_and_sweep E s)"
proof -
  let ?b = "snd (broadcast_status_message E s)"
  have "consistent ?b" by (rule consistent_same_core [OF status_broadcast.core assms(2)])
  with wb_client_sweep [OF assms(1)] wb_device_sweep [OF assms(1)] show ?thesis
    by (simp add: poll_and_sweep_def case_prod_beta)
qed

lemma consistent_iteration:
  assumes "well_behaved E" "consistent s"
  shows "consistent (iteration E w s)"
proof (induction w)
  case (Readable p)
  show ?case using consistent_poll [OF assms(1) consistent_command [OF assms]] by simp
qed (simp_all add: consistent_poll assms)

lemma reachable_consistent:
  assumes "reachable E s0 s" "well_behaved E" "consistent s0"
  shows "consistent s"
  using assms by (induction rule: reachable.induct) (auto elim!: loop_stepE intro: consistent_iteration)

end
