(* ===== verification/Retries.thy ===== *)
theory Retries
  imports Consistency
begin

text \<open>
  How often the server dials. A device that is connecting is dialled again by each sweep
  that finds it overdue, until its counter runs out; then it is forced down. The number of
  dialling commands after a first connection is bounded by \<open>g_retries + 1\<close>.
\<close>

text \<open>One request for \<open>LINK_CONNECTING\<close>, and a series of them.\<close>

definition redial :: "env \<Rightarrow> dev_ptr \<Rightarrow> server \<Rightarrow> server" where
  "redial E d s = snd (alter_device_status E d LINK_CONNECTING s)"

lemma wb_link_up_state:
  assumes "well_behaved E"
  shows "link_up E (Some d) s =
    (0, upd_device d (connect_time_update (\<lambda>_. e_time E (Suc (tick s))))
          (snd (time_now E (snd (system_call E (link_up_command (device_at s d)) s)))))"
  using assms by (simp add: link_up_def case_prod_beta Let_def fst_system_call wb_e_system fst_time_now)

lemma attempt_with_retries_left:
  assumes wb: "well_behaved E" and left: "0 \<le> retries (device_at s d)"
  shows "fst (attempt_connect E d s) = 0"
    "status (device_at (snd (attempt_connect E d s)) d) = LINK_CONNECTING"
    "retries (device_at (snd (attempt_connect E d s)) d) = retries (device_at s d) - 1"
    "link_up_command (device_at (snd (attempt_connect E d s)) d) = link_up_command (device_at s d)"
    "link_force_down_command (device_at (snd (attempt_connect E d s)) d) = link_force_down_command (device_at s d)"
    "clients_connected (device_at (snd (attempt_connect E d s)) d) = clients_connected (device_at s d)"
    "trace (snd (attempt_connect E d s)) = trace s @ [Ran (link_up_command (device_at s d)) 0]"
  using left
  by (simp_all add: attempt_connect_def Let_def case_prod_beta wb_link_up_state [OF wb] wb_system_trace [OF wb]
      set_status_def)

lemma redial_step:
  assumes wb: "well_behaved E" and wf: "wf_server s" and st: "status (device_at s d) = LINK_CONNECTING"
    and left: "0 \<le> retries (device_at s d)"
  shows "wf_server (redial E d s)" "status (device_at (redial E d s) d) = LINK_CONNECTING"
    "retries (device_at (redial E d s) d) = retries (device_at s d) - 1"
    "link_up_command (device_at (redial E d s) d) = link_up_command (device_at s d)"
    "trace (redial E d s) = trace s @ [Ran (link_up_command (device_at s d)) 0]"
  using attempt_with_retries_left [OF wb left] alter.keeps_wf [OF wf, of E d LINK_CONNECTING] st
  by (simp_all add: redial_def alter_device_status_def alter_to_connecting_def)

lemma redial_series:
  assumes "well_behaved E" "wf_server s" "status (device_at s d) = LINK_CONNECTING"
    "int k \<le> retries (device_at s d) + 1"
  shows "wf_server ((redial E d ^^ k) s) \<and> status (device_at ((redial E d ^^ k) s) d) = LINK_CONNECTING
    \<and> retries (device_at ((redial E d ^^ k) s) d) = retries (device_at s d) - int k
    \<and> link_up_command (device_at ((redial E d ^^ k) s) d) = link_up_command (device_at s d)
    \<and> trace ((redial E d ^^ k) s) = trace s @ replicate k (Ran (link_up_command (device_at s d)) 0)"
  using assms(4)
proof (induction k)
  case 0
  then show ?case using assms by simp
next
  case (Suc k)
  let ?t = "(redial E d ^^ k) s"
  have ih: "wf_server ?t" "status (device_at ?t d) = LINK_CONNECTING"
    "retries (device_at ?t d) = retries (device_at s d) - int k"
    "link_up_command (device_at ?t d) = link_up_command (device_at s d)"
    "trace ?t = trace s @ replicate k (Ran (link_up_command (device_at s d)) 0)"
    using Suc by auto
  have "0 \<le> retries (device_at ?t d)" using ih(3) Suc.prems by simp
  with redial_step [OF assms(1) ih(1,2)] ih show ?case
    by (simp add: replicate_append_same flip: replicate_Suc)
qed

lemma redial_exhausted:
  assumes "well_behaved E" "wf_server s" "status (device_at s d) = LINK_CONNECTING"
    "retries (device_at s d) < 0"
  shows "status (device_at (redial E d s) d) = LINK_DOWN" "clients_connected (device_at (redial E d s) d) = []"
    "trace (redial E d s) = trace s @ [forced_down (device_at s d)]"
  using wb_alter [OF assms(1,2), of LINK_CONNECTING d] wb_alter_fields [OF assms(1,2), of LINK_CONNECTING d] assms
  by (simp_all add: redial_def next_status_def exhausted_def alter_events_def drops_links_def Let_def)

end
