(* ===== verification/Config_File.thy ===== *)
theory Config_File
  imports Protocol Unix_IO
begin

text \<open>
  Reading a configuration file, as the three copies of \<open>read_config.c\<close> (server, client,
  peer) have it in common. A heap buffer is the list of its bytes, so that a scan that
  finds no terminator runs out of the list and is undefined; the byte \<open>strncpy\<close> leaves
  unwritten at the end of a section buffer is whatever the heap holds (\<open>e_heap\<close>). The two
  \<open>char *\<close> variables that \<open>parse_line\<close> fills keep their old value between calls and are
  \<open>c_ptr\<close>s. The definitions are polymorphic in the program's own variables.
\<close>

section \<open>Scanning a buffer\<close>

datatype scan_result = Found nat | Missing | Out_of_bounds

fun scan :: "char list \<Rightarrow> nat \<Rightarrow> char list \<Rightarrow> scan_result" where
  "scan accept i [] = Out_of_bounds"
| "scan accept i (c # cs) =
     (if c = NUL then Missing else if c \<in> set accept then Found i else scan accept (Suc i) cs)"

definition strpbrk_at :: "char list \<Rightarrow> nat \<Rightarrow> char list \<Rightarrow> scan_result" where
  "strpbrk_at buf i accept = scan accept i (drop i buf)"

lemma scan_Found: "scan accept i xs = Found j \<Longrightarrow> i \<le> j \<and> j < i + length xs"
  by (induction accept i xs rule: scan.induct) (auto split: if_splits)

lemma strpbrk_at_Found: "strpbrk_at buf i accept = Found j \<Longrightarrow> i \<le> j \<and> j < length buf"
  using scan_Found [of accept i "drop i buf" j] by (auto simp: strpbrk_at_def)

text \<open>Allocation without a check of the result.\<close>

definition alloc :: "env \<Rightarrow> 'a io_scheme \<Rightarrow> 'a io_scheme" where
  "alloc E s = (case malloc E s of (ok, s) \<Rightarrow> undefined_if (\<not> ok) s)"

definition strdup :: "env \<Rightarrow> string \<Rightarrow> 'a io_scheme \<Rightarrow> string option \<times> 'a io_scheme" where
  "strdup E t s = (case malloc E s of (ok, s) \<Rightarrow> (if ok then Some t else None, s))"

section \<open>One line\<close>

datatype c_ptr = Wild | Null | Text string | Freed

text \<open>\<open>free\<close> of a pointer, and whether it is undefined.\<close>

definition free_ptr :: "c_ptr \<Rightarrow> 'a io_scheme \<Rightarrow> c_ptr \<times> 'a io_scheme" where
  "free_ptr p s = (case p of
     Text _ \<Rightarrow> (Freed, s) | Null \<Rightarrow> (Null, s)
   | Wild \<Rightarrow> (Freed, undefined_if True s) | Freed \<Rightarrow> (Freed, undefined_if True s))"

definition parse_line ::
  "env \<Rightarrow> string \<Rightarrow> c_ptr \<Rightarrow> c_ptr \<Rightarrow> 'a io_scheme \<Rightarrow> int \<times> c_ptr \<times> c_ptr \<times> 'a io_scheme" where
  "parse_line E line name value s =
     (case strpbrk line (TAB @ '' ='') of
        None \<Rightarrow> (0, name, value, s)
      | Some pos \<Rightarrow>
          (case malloc E s of (ok, s) \<Rightarrow>
             if \<not> ok then (-1, Null, value, s)
             else let name = Text (take (length line - length pos) line)
             in case strpbrk pos (CHR 0x22 # ''0123456789'') of
                  None \<Rightarrow> (-1, name, value, s)
                | Some pos \<Rightarrow>
                    if hd pos = CHR 0x22
                    then (let pos = tl pos in case strpbrk pos [CHR 0x22] of
                            None \<Rightarrow> (0, name, value, undefined_if True s)
                          | Some end_pos \<Rightarrow>
                              (case malloc E s of (ok, s) \<Rightarrow>
                                 if \<not> ok then (-1, name, Null, s)
                                 else (0, name, Text (take (length pos - length end_pos) pos), s)))
                    else (case strdup E pos s of
                            (None, s) \<Rightarrow> (-1, name, Null, s)
                          | (Some v, s) \<Rightarrow> (0, name, Text v, s))))"

section \<open>The lines of a section\<close>

record 'a parser =
  p_run :: "'a io_scheme"
  p_name :: c_ptr
  p_value :: c_ptr

definition fail_parser :: "('a, 'b) parser_scheme \<Rightarrow> ('a, 'b) parser_scheme" where
  "fail_parser p = p\<lparr>p_run := undefined_if True (p_run p)\<rparr>"

text \<open>
  The loop of both section parsers. The search starts one byte after the start of the
  line. Each line is copied to fresh memory and handed to the body of the loop.
\<close>

function parse_lines ::
  "env \<Rightarrow> (string \<Rightarrow> ('a, 'b) parser_scheme \<Rightarrow> ('a, 'b) parser_scheme) \<Rightarrow> char list \<Rightarrow> nat
     \<Rightarrow> ('a, 'b) parser_scheme \<Rightarrow> ('a, 'b) parser_scheme" where
  "parse_lines E body buf prev_pos p =
     (case strpbrk_at buf (prev_pos + 1) NL of
        Missing \<Rightarrow> p
      | Out_of_bounds \<Rightarrow> fail_parser p
      | Found pos \<Rightarrow>
          let line = c_string (take (pos - prev_pos) (drop prev_pos buf));
              p = p\<lparr>p_run := alloc E (p_run p)\<rparr>
          in parse_lines E body buf (pos + 1) (body line p))"
  by pat_completeness auto
termination
proof (relation "measure (\<lambda>(E, body, buf, prev_pos, p). length buf - prev_pos)", goal_cases)
  case (2 E body buf prev_pos p pos line q)
  then show ?case using strpbrk_at_Found [of buf "prev_pos + 1" NL pos] by auto
qed simp

declare parse_lines.simps [simp del]

section \<open>A section of options\<close>

text \<open>
  One line of the server's, the client's or the peer's own section. Only a pointer to a live
  string may be read.
\<close>

definition option_line ::
  "env \<Rightarrow> (string \<Rightarrow> string \<Rightarrow> 'a io_scheme \<Rightarrow> 'a io_scheme) \<Rightarrow> string \<Rightarrow> 'a parser \<Rightarrow> 'a parser" where
  "option_line E set_opt line p =
     (if line = [] then p
      else (case parse_line E line (p_name p) (p_value p) (p_run p) of (r, name, value, s) \<Rightarrow>
        p\<lparr>p_name := name, p_value := value,
          p_run := (if r < 0 then s
             else (case (name, value) of
                     (Text n, Text v) \<Rightarrow> set_opt n v s
                   | _ \<Rightarrow> undefined_if True s))\<rparr>))"

definition parse_options ::
  "env \<Rightarrow> (string \<Rightarrow> string \<Rightarrow> 'a io_scheme \<Rightarrow> 'a io_scheme) \<Rightarrow> char list \<Rightarrow> 'a io_scheme \<Rightarrow> int \<times> 'a io_scheme" where
  "parse_options E set_opt data s =
     (case strpbrk_at data 0 NL of
        Found pos \<Rightarrow>
          (0, p_run (parse_lines E (option_line E set_opt) data (pos + 1)
                 \<lparr>p_run = alloc E s, p_name = Wild, p_value = Wild\<rparr>))
      | _ \<Rightarrow> (0, undefined_if True s))"

text \<open>The two values every numeric option is judged by.\<close>

definition numeric_value :: "string \<Rightarrow> int" where
  "numeric_value v = c_int (fst (strtoul v))"

definition number_valid :: "string \<Rightarrow> bool" where
  "number_valid v \<longleftrightarrow> v \<noteq> [] \<and> snd (strtoul v) = []"

section \<open>Finding a section\<close>

text \<open>
  The bytes of the buffer a section is copied to: up to the next bracket the copy is not
  terminated.
\<close>

definition copy_section :: "env \<Rightarrow> string \<Rightarrow> 'a io_scheme \<Rightarrow> char list \<times> 'a io_scheme" where
  "copy_section E start s =
     (case strchr (tl start) (CHR ''['') of
        None \<Rightarrow> (start @ [NUL], alloc E s)
      | Some end_pos \<Rightarrow>
          (take (length start - length end_pos) start @ [e_heap E (tick s)], alloc E s))"

definition get_section :: "env \<Rightarrow> string \<Rightarrow> string \<Rightarrow> 'a io_scheme \<Rightarrow> char list option \<times> 'a io_scheme" where
  "get_section E header config_data s =
     (case strstr config_data header of
        None \<Rightarrow> (None, set_errno ENOMSG s)
      | Some start \<Rightarrow> (case copy_section E start s of (buf, s) \<Rightarrow> (Some buf, s)))"

text \<open>Without the section the defaults stay.\<close>

definition read_section ::
  "env \<Rightarrow> string \<Rightarrow> (char list \<Rightarrow> 'a io_scheme \<Rightarrow> int \<times> 'a io_scheme) \<Rightarrow> string \<Rightarrow> 'a io_scheme \<Rightarrow> int \<times> 'a io_scheme" where
  "read_section E header parse config s =
     (case get_section E header config s of
        (None, s) \<Rightarrow> (if errno s \<noteq> ENOMSG then -1 else 0, s)
      | (Some buf, s) \<Rightarrow> parse buf s)"

section \<open>Opening the file\<close>

text \<open>
  The file system is a parameter: what opening and mapping a file gives, and whether
  unmapping and closing succeed. The mapping is filled up with zero bytes to the end of
  its last page, so the text is terminated unless the file ends with a page. The file is
  opened once in each program, so the test for an open file never fails.
\<close>

record file_system =
  fs_open :: "string \<Rightarrow> errno + char list"
  fs_munmap :: int
  fs_close :: int
  fs_errno :: errno

definition PAGE_SIZE :: nat where
  "PAGE_SIZE = 4096"

definition open_config_file ::
  "file_system \<Rightarrow> string option \<Rightarrow> 'a io_scheme \<Rightarrow> char list option \<times> 'a io_scheme" where
  "open_config_file F config_file s = (case config_file of
     None \<Rightarrow> (None, set_errno ENOENT s)
   | Some path \<Rightarrow>
       (case fs_open F path of
          Inl e \<Rightarrow> (None, set_errno e s)
        | Inr bytes \<Rightarrow>
            (Some bytes, undefined_if (length bytes mod PAGE_SIZE = 0 \<and> NUL \<notin> set bytes) s)))"

definition close_config_file :: "file_system \<Rightarrow> 'a io_scheme \<Rightarrow> int \<times> 'a io_scheme" where
  "close_config_file F s =
     (if fs_munmap F < 0 \<or> fs_close F < 0 then (-1, set_errno (fs_errno F) s) else (0, s))"

text \<open>Closing after an error keeps the \<open>errno\<close> of the error.\<close>

definition close_after_error :: "file_system \<Rightarrow> 'a io_scheme \<Rightarrow> int \<times> 'a io_scheme" where
  "close_after_error F s =
     (let real_errno = errno s in case close_config_file F s of (_, s) \<Rightarrow> (-1, set_errno real_errno s))"

text \<open>\<open>read_config\<close> of the client and of the peer, which have one section.\<close>

definition read_one_section ::
  "env \<Rightarrow> file_system \<Rightarrow> string option \<Rightarrow> string \<Rightarrow> (char list \<Rightarrow> 'a io_scheme \<Rightarrow> int \<times> 'a io_scheme)
     \<Rightarrow> 'a io_scheme \<Rightarrow> int \<times> 'a io_scheme" where
  "read_one_section E F config_file header parse s =
     (case open_config_file F config_file s of
        (None, s) \<Rightarrow> (if errno s = ENOENT then 0 else -1, s)
      | (Some bytes, s) \<Rightarrow>
          (case read_section E header parse (c_string bytes) s of (r, s) \<Rightarrow>
             if r < 0 then close_after_error F s
             else (case close_config_file F s of (r, s) \<Rightarrow> (if r < 0 then -1 else 0, s))))"

section \<open>Facts about the loop over the lines\<close>

text \<open>An invariant of the loop body is an invariant of the loop.\<close>

lemma parse_lines_invariant:
  assumes "P p" "\<And>line q. P q \<Longrightarrow> P (body line q)"
    and "\<And>q. P q \<Longrightarrow> P (q\<lparr>p_run := alloc E (p_run q)\<rparr>)" "\<And>q. P q \<Longrightarrow> P (fail_parser q)"
  shows "P (parse_lines E body buf prev_pos p)"
  using assms
proof (induction E body buf prev_pos p rule: parse_lines.induct)
  case (1 E body buf prev_pos p)
  show ?case
  proof (cases "strpbrk_at buf (prev_pos + 1) NL")
    case (Found pos)
    let ?line = "c_string (take (pos - prev_pos) (drop prev_pos buf))"
    have "P (parse_lines E body buf (pos + 1) (body ?line (p\<lparr>p_run := alloc E (p_run p)\<rparr>)))"
      by (rule "1.IH" [OF Found refl refl]) (use "1.prems" in blast)+
    with Found show ?thesis by (subst parse_lines.simps) (simp add: Let_def)
  qed (subst parse_lines.simps, use "1.prems" in simp)+
qed

lemma parse_line_same_core:
  "parse_line E line n v s = (r, n', v', t) \<Longrightarrow> same_core s t"
  by (auto simp: parse_line_def case_prod_beta Let_def strdup_def split: option.splits if_splits)

lemma same_core_alloc [simp]: "same_core s (alloc E t) = same_core s t"
  by (simp add: alloc_def case_prod_beta)

lemma alloc_ub: "(\<And>n. e_malloc E n) \<Longrightarrow> ub (alloc E t) = ub t"
  by (simp add: alloc_def case_prod_beta fst_malloc)

text \<open>What storing an option keeps, the whole section keeps.\<close>

lemma parse_options_invariant:
  assumes "R s" and io: "\<And>s t. R s \<Longrightarrow> same_core s t \<Longrightarrow> R t"
    and opt: "\<And>n v s. R s \<Longrightarrow> R (set_opt n v s)"
  shows "R (snd (parse_options E set_opt data s))"
proof -
  have body: "R (p_run (option_line E set_opt line q))" if "R (p_run q)" for line q
  proof -
    obtain r n v t where pl: "parse_line E line (p_name q) (p_value q) (p_run q) = (r, n, v, t)"
      by (metis prod_cases4)
    have t: "R t" by (rule io [OF that parse_line_same_core [OF pl]])
    have "R (undefined_if True t)" by (rule io [OF t]) simp
    with that t opt show ?thesis
      by (cases n; cases v) (simp_all add: option_line_def pl)
  qed
  have "R (p_run (parse_lines E (option_line E set_opt) data k \<lparr>p_run = alloc E s, p_name = Wild, p_value = Wild\<rparr>))" for k
  proof (rule parse_lines_invariant)
    show "R (p_run (q\<lparr>p_run := alloc E (p_run q)\<rparr>))" if "R (p_run q)" for q :: "'a parser"
      using io [OF that, of "alloc E (p_run q)"] by simp
    show "R (p_run (fail_parser q))" if "R (p_run q)" for q :: "'a parser"
      using io [OF that, of "undefined_if True (p_run q)"] by (simp add: fail_parser_def)
    show "R (p_run \<lparr>p_run = alloc E s, p_name = Wild, p_value = Wild\<rparr>)"
      using io [OF assms(1), of "alloc E s"] by simp
  qed (rule body)
  moreover have "R (undefined_if True s)" by (rule io [OF assms(1)]) simp
  ultimately show ?thesis by (simp add: parse_options_def split: scan_result.splits)
qed

section \<open>Reading what the format prescribes\<close>

text \<open>A line \<open>name = "value"\<close>.\<close>

definition QUOTE :: char where
  "QUOTE = CHR 0x22"

definition string_line :: "string \<Rightarrow> string \<Rightarrow> string" where
  "string_line nm v = nm @ '' = '' @ QUOTE # v @ [QUOTE]"

definition plain_name :: "string \<Rightarrow> bool" where
  "plain_name nm \<longleftrightarrow> set nm \<inter> set (TAB @ '' ='') = {} \<and> set nm \<inter> {CHR 0x0A, NUL} = {} \<and> nm \<noteq> []"

definition plain_value :: "string \<Rightarrow> bool" where
  "plain_value v \<longleftrightarrow> set v \<inter> {QUOTE, CHR 0x0A, NUL} = {}"

lemma strpbrk_skip: "set xs \<inter> set acc = {} \<Longrightarrow> y \<in> set acc \<Longrightarrow> strpbrk (xs @ y # ys) acc = Some (y # ys)"
  by (simp add: strpbrk_def dropWhile_append2 disjoint_iff)

lemma parse_line_string:
  assumes nm: "plain_name nm" and v: "plain_value v" and E: "\<And>n. e_malloc E n"
  shows "\<exists>t. parse_line E (string_line nm v) n0 v0 s = (0, Text nm, Text v, t) \<and> same_core s t \<and> ub t = ub s"
proof -
  have a: "strpbrk (string_line nm v) (TAB @ '' ='') = Some ('' = '' @ QUOTE # v @ [QUOTE])"
    using strpbrk_skip [of nm "TAB @ '' =''" "CHR '' ''" "''= '' @ QUOTE # v @ [QUOTE]"] nm
    by (simp add: string_line_def plain_name_def)
  have b: "strpbrk ('' = '' @ QUOTE # v @ [QUOTE]) (CHR 0x22 # ''0123456789'') = Some (QUOTE # v @ [QUOTE])"
    by (simp add: strpbrk_def QUOTE_def)
  have c: "strpbrk (v @ [QUOTE]) [CHR 0x22] = Some [QUOTE]"
    using strpbrk_skip [of v "[CHR 0x22]" QUOTE "[]"] v by (simp add: plain_value_def QUOTE_def)
  have len: "take (length (string_line nm v) - length ('' = '' @ QUOTE # v @ [QUOTE])) (string_line nm v) = nm"
    by (simp add: string_line_def)
  have hd: "hd (QUOTE # v @ [QUOTE]) = CHR 0x22" "tl (QUOTE # v @ [QUOTE]) = v @ [QUOTE]" by (simp_all add: QUOTE_def)
  show ?thesis
    unfolding parse_line_def a b option.case hd Let_def c len
    using E by (simp add: case_prod_beta fst_malloc)
qed

text \<open>A section whose lines each end with a newline, closed by an empty line.\<close>

definition line_text :: "string \<Rightarrow> bool" where
  "line_text l \<longleftrightarrow> l \<noteq> [] \<and> set l \<inter> {CHR 0x0A, NUL} = {}"

lemma scan_line: "set l \<inter> {CHR 0x0A, NUL} = {} \<Longrightarrow> scan NL i (l @ NL @ rest) = Found (i + length l)"
  by (induction l arbitrary: i) (auto simp: NL_def NUL_def)

lemma length_NL [simp]: "length NL = Suc 0"
  by (simp add: NL_def)

lemma next_line:
  assumes "line_text l"
  shows "strpbrk_at (pre @ l @ NL @ rest) (length pre + 1) NL = Found (length pre + length l)"
    "c_string (take (length l) (drop (length pre) (pre @ l @ NL @ rest))) = l"
proof -
  obtain c cs where l: "l = c # cs" using assms by (cases l) (auto simp: line_text_def)
  have "drop (length pre + 1) (pre @ l @ NL @ rest) = cs @ NL @ rest" by (simp add: l)
  then show "strpbrk_at (pre @ l @ NL @ rest) (length pre + 1) NL = Found (length pre + length l)"
    using assms scan_line [of cs "length pre + 1" rest] by (simp add: strpbrk_at_def line_text_def l)
  show "c_string (take (length l) (drop (length pre) (pre @ l @ NL @ rest))) = l"
    using assms by (simp add: line_text_def c_string_id)
qed

end
