(* ===== verification/Config.thy ===== *)
theory Config
  imports Retries Config_File
begin

text \<open>
  The server's configuration: \<open>server/read_config.c\<close>, on the routines of \<open>Config_File\<close>. The
  loop over the device sections may not end, so it is a partial function whose value is
  \<open>None\<close> then.
\<close>

section \<open>The server section\<close>

text \<open>Storing \<open>strdup\<close> of a value; a NULL multicast group is dereferenced later.\<close>

definition set_multicast_group :: "env \<Rightarrow> string \<Rightarrow> server \<Rightarrow> server" where
  "set_multicast_group E v s = (case strdup E v s of
     (None, s) \<Rightarrow> undefined_if True s
   | (Some v, s) \<Rightarrow> s\<lparr>conf := (conf s)\<lparr>g_multicast_group := v\<rparr>\<rparr>)"

definition set_server_option :: "env \<Rightarrow> string \<Rightarrow> string \<Rightarrow> server \<Rightarrow> server" where
  "set_server_option E name value s =
       (if strcaseeq name ''fork'' \<and> number_valid value
        then s\<lparr>conf := (conf s)\<lparr>g_fork := numeric_value value\<rparr>\<rparr>
        else if strcaseeq name ''debug'' \<and> number_valid value
        then s\<lparr>conf := (conf s)\<lparr>g_debug := numeric_value value\<rparr>\<rparr>
        else if strcaseeq name ''poll_time'' \<and> number_valid value
        then s\<lparr>conf := (conf s)\<lparr>g_poll_time := numeric_value value\<rparr>\<rparr>
        else if strcaseeq name ''srv_port'' \<and> number_valid value
        then s\<lparr>conf := (conf s)\<lparr>g_srv_port := c_ushort (numeric_value value)\<rparr>\<rparr>
        else if strcaseeq name ''srv_inaddr'' \<and> number_valid value
        then (case strdup E value s of (v, s) \<Rightarrow> s\<lparr>conf := (conf s)\<lparr>g_srv_inaddr := v\<rparr>\<rparr>)
        else if strcaseeq name ''client_timeout'' \<and> number_valid value
        then s\<lparr>conf := (conf s)\<lparr>g_client_timeout := numeric_value value\<rparr>\<rparr>
        else if strcaseeq name ''multicast_group''
        then set_multicast_group E value s
        else if strcaseeq name ''retries'' \<and> number_valid value
        then s\<lparr>conf := (conf s)\<lparr>g_retries := numeric_value value\<rparr>\<rparr>
        else if strcaseeq name ''connect_timeout'' \<and> number_valid value
        then s\<lparr>conf := (conf s)\<lparr>g_connect_timeout := numeric_value value\<rparr>\<rparr>
        else if strcaseeq name ''disconnect_timeout'' \<and> number_valid value
        then s\<lparr>conf := (conf s)\<lparr>g_disconnect_timeout := numeric_value value\<rparr>\<rparr>
        else s)"

definition SERVER_SECTION :: string where
  "SERVER_SECTION = ''[Server]''"

definition get_server_section :: "env \<Rightarrow> string \<Rightarrow> server \<Rightarrow> char list option \<times> server" where
  "get_server_section E = get_section E SERVER_SECTION"

definition parse_server_section :: "env \<Rightarrow> char list \<Rightarrow> server \<Rightarrow> int \<times> server" where
  "parse_server_section E = parse_options E (set_server_option E)"

section \<open>A device section\<close>

record 'a device_parser = "'a parser" +
  p_device :: device_t

type_synonym section_parser = "unit server_ext device_parser"

definition start_device :: "server \<Rightarrow> section_parser" where
  "start_device s = \<lparr>p_run = s, p_name = Wild, p_value = Wild, p_device = zero_device\<rparr>"

definition set_device_option :: "env \<Rightarrow> string \<Rightarrow> string \<Rightarrow> device_t \<times> server \<Rightarrow> device_t \<times> server" where
  "set_device_option E name value = (\<lambda>(x, s).
     if strcaseeq name ''name''
     then (case strdup E value s of (v, s) \<Rightarrow> (x\<lparr>device_name := v\<rparr>, s))
     else if strcaseeq name ''description''
     then (case strdup E value s of (v, s) \<Rightarrow> (x\<lparr>device_description := v\<rparr>, s))
     else if strcaseeq name ''link_up''
     then (case strdup E value s of (v, s) \<Rightarrow> (x\<lparr>link_up_command := v\<rparr>, s))
     else if strcaseeq name ''link_down''
     then (case strdup E value s of (v, s) \<Rightarrow> (x\<lparr>link_down_command := v\<rparr>, s))
     else if strcaseeq name ''link_force_down''
     then (case strdup E value s of (v, s) \<Rightarrow> (x\<lparr>link_force_down_command := v\<rparr>, s))
     else (x, s))"

text \<open>Unlike in the server section, name and value are freed after every line.\<close>

definition free_both :: "section_parser \<Rightarrow> section_parser" where
  "free_both p =
     (case free_ptr (p_name p) (p_run p) of (name, s) \<Rightarrow>
      case free_ptr (p_value p) s of (value, s) \<Rightarrow>
        p\<lparr>p_name := name, p_value := value, p_run := s\<rparr>)"

definition device_line :: "env \<Rightarrow> string \<Rightarrow> section_parser \<Rightarrow> section_parser" where
  "device_line E line p = free_both
     (if line = [] then p
      else (case parse_line E line (p_name p) (p_value p) (p_run p) of (r, name, value, s) \<Rightarrow>
        let p = p\<lparr>p_name := name, p_value := value, p_run := s\<rparr>
        in if r < 0 then p
           else (case (name, value) of
                   (Text n, Text v) \<Rightarrow>
                     (case set_device_option E n v (p_device p, s) of (x, s) \<Rightarrow> p\<lparr>p_device := x, p_run := s\<rparr>)
                 | _ \<Rightarrow> fail_parser p)))"

definition install_device :: "device_t \<Rightarrow> server \<Rightarrow> dev_ptr \<times> server" where
  "install_device x s = (next_ptr s, s\<lparr>next_ptr := Suc (next_ptr s), device_at := (device_at s)(next_ptr s := x)\<rparr>)"

definition parse_device_section :: "env \<Rightarrow> char list \<Rightarrow> server \<Rightarrow> int \<times> server" where
  "parse_device_section E device_data s =
     (case malloc E s of (ok, s) \<Rightarrow>
        if \<not> ok then (-1, undefined_if True s)
        else (case strpbrk_at device_data 0 NL of
                Found pos \<Rightarrow>
                  let p = parse_lines E (device_line E) device_data (pos + 1) (start_device (alloc E s));
                      s = p_run p
                  in if device_name (p_device p) \<noteq> None
                     then (case install_device (p_device p) s of (new_device, s) \<Rightarrow>
                           case add_device E (g_devices s) new_device s of (_, l, s) \<Rightarrow>
                             (0, s\<lparr>g_devices := l\<rparr>))
                     else (0, s)
              | _ \<Rightarrow> (0, undefined_if True s)))"

section \<open>Finding the sections\<close>

definition DEVICE_SECTION :: string where
  "DEVICE_SECTION = ''[Device]''"

text \<open>
  \<open>cur_pos\<close> is a static variable, so it is passed in and out. The position it is set to is
  counted from the start of the section, not of the file.
\<close>

definition get_next_device_section ::
  "env \<Rightarrow> string \<Rightarrow> int \<Rightarrow> server \<Rightarrow> char list option \<times> int \<times> server" where
  "get_next_device_section E config_data cur_pos s =
     (if cur_pos = -1 then (None, 0, set_errno ENOMSG s)
      else (case strstr (drop (nat cur_pos) config_data) DEVICE_SECTION of
              None \<Rightarrow> (None, 0, set_errno ENOMSG s)
            | Some start \<Rightarrow>
                let cur_pos = (case strchr (tl start) (CHR ''['') of
                      None \<Rightarrow> -1
                    | Some end_pos \<Rightarrow> int (length start) - int (length end_pos) + 1)
                in case copy_section E start s of (buf, s) \<Rightarrow> (Some buf, cur_pos, s)))"

partial_function (option) read_devices :: "env \<Rightarrow> string \<Rightarrow> int \<Rightarrow> server \<Rightarrow> (int \<times> server) option" where
  "read_devices E config_data cur_pos s =
     (case get_next_device_section E config_data cur_pos s of (section_data, cur_pos, s) \<Rightarrow>
        (case section_data of
           None \<Rightarrow> Some (0, s)
         | Some buf \<Rightarrow>
             (case parse_device_section E buf s of (r, s) \<Rightarrow>
                if r < 0 then Some (-1, s) else read_devices E config_data cur_pos s)))"

declare read_devices.simps [code]

section \<open>The whole file\<close>

text \<open>The first half of \<open>read_config\<close>: without a server section the defaults stay.\<close>

definition read_server_section :: "env \<Rightarrow> string \<Rightarrow> server \<Rightarrow> int \<times> server" where
  "read_server_section E = read_section E SERVER_SECTION (parse_server_section E)"

definition read_config :: "env \<Rightarrow> file_system \<Rightarrow> server \<Rightarrow> (int \<times> server) option" where
  "read_config E F s =
     (case open_config_file F (g_config_file (conf s)) s of
        (None, s) \<Rightarrow> Some (if errno s = ENOENT then 0 else -1, s)
      | (Some bytes, s) \<Rightarrow>
          let config = c_string bytes
          in case read_server_section E config s of (r, s) \<Rightarrow>
             if r < 0 then Some (close_after_error F s)
             else (case read_devices E config 0 s of
                     None \<Rightarrow> None
                   | Some (r, s) \<Rightarrow>
                       if r < 0 then Some (close_after_error F s)
                       else (case close_config_file F s of (r, s) \<Rightarrow> Some (if r < 0 then -1 else 0, s))))"

section \<open>The command line\<close>

text \<open>
  The arguments after the program's name. The test \<open>++i > argc\<close> lets \<open>i = argc\<close> through, so
  a switch without its value reads \<open>argv[argc]\<close>, which is NULL.
\<close>

fun parse_arguments :: "env \<Rightarrow> string list \<Rightarrow> server \<Rightarrow> server" where
  "parse_arguments E [] s = s"
| "parse_arguments E (cur_arg # args) s =
     (case cur_arg of
        c # switch # _ \<Rightarrow>
          if c \<noteq> CHR ''-'' then parse_arguments E args s
          else if switch = CHR ''f''
          then parse_arguments E args (s\<lparr>conf := (conf s)\<lparr>g_fork := 0\<rparr>\<rparr>)
          else if switch = CHR ''d''
          then parse_arguments E args (s\<lparr>conf := (conf s)\<lparr>g_debug := 1\<rparr>\<rparr>)
          else if switch = CHR ''c''
          then (case args of
                  [] \<Rightarrow> undefined_if True s
                | a # args \<Rightarrow> (case strdup E a s of (v, s) \<Rightarrow>
                    parse_arguments E args (s\<lparr>conf := (conf s)\<lparr>g_config_file := v\<rparr>\<rparr>)))
          else if switch = CHR ''p''
          then (case args of
                  [] \<Rightarrow> undefined_if True s
                | a # args \<Rightarrow>
                    parse_arguments E args (s\<lparr>conf := (conf s)\<lparr>g_poll_time := atoi a\<rparr>\<rparr>))
          else parse_arguments E args s
      | _ \<Rightarrow> parse_arguments E args s)"

definition parse_command_line :: "env \<Rightarrow> string list \<Rightarrow> server \<Rightarrow> int \<times> server" where
  "parse_command_line E argv s = (if length argv = 1 then (0, s) else (0, parse_arguments E (tl argv) s))"

end
