(* ===== verification/Config_Facts.thy ===== *)
theory Config_Facts
  imports Config
begin

text \<open>
  What \<open>read_config.c\<close> establishes: whatever the file holds, the server starts with a
  well-formed, idle device list.
\<close>

section \<open>The configured state\<close>

text \<open>Before the loop starts: no clients, and every device idle with a fresh address.\<close>

definition configured :: "server \<Rightarrow> bool" where
  "configured s \<longleftrightarrow> wf_devices s \<and> g_clients s = []
     \<and> (\<forall>d \<in> set (g_devices s). d < next_ptr s \<and> status (device_at s d) = LINK_DOWN
            \<and> clients_connected (device_at s d) = [])"

definition only_conf :: "server \<Rightarrow> server \<Rightarrow> bool" where
  "only_conf s t \<longleftrightarrow> g_devices t = g_devices s \<and> g_clients t = g_clients s \<and> device_at t = device_at s
     \<and> client_at t = client_at s \<and> client_live t = client_live s \<and> next_ptr t = next_ptr s
     \<and> g_keep_going t = g_keep_going s \<and> exited t = exited s"

lemma only_conf_refl [simp]: "only_conf s s"
  by (simp add: only_conf_def)

lemma only_conf_trans: "only_conf s t \<Longrightarrow> only_conf t u \<Longrightarrow> only_conf s u"
  by (simp add: only_conf_def)

lemma only_conf_io: "same_core s t \<Longrightarrow> only_conf s t"
  by (simp add: only_conf_def same_core_iff)

lemma configured_only_conf: "only_conf s t \<Longrightarrow> configured t = configured s"
  by (simp add: only_conf_def configured_def wf_devices_def)

lemma configured_boot: "configured boot"
  by (simp add: configured_def boot_def wf_devices_def)

lemma configured_wf: "configured s \<Longrightarrow> wf_server s"
  by (auto simp: configured_def wf_server_def wf_clients_def wf_links_def)

lemma configured_symmetric: "configured s \<Longrightarrow> symmetric_links s \<and> demand_matches s"
  by (simp add: configured_def symmetric_links_def demand_matches_def)

lemma configured_clocked: "configured s \<Longrightarrow> clocked E s"
  by (simp add: configured_def clocked_def)

lemma alloc_simps [simp]:
  "only_conf s (alloc E t) = only_conf s t" "e_malloc E (tick t) \<Longrightarrow> ub (alloc E t) = ub t"
  "conf (alloc E t) = conf t" "tick (alloc E t) = Suc (tick t)" "trace (alloc E t) = trace t"
  by (simp_all add: alloc_def case_prod_beta only_conf_def fst_malloc)

lemma only_conf_strdup: "strdup E t s = (v, u) \<Longrightarrow> only_conf s u"
  by (auto simp: strdup_def case_prod_beta split: if_splits intro: only_conf_io)

lemma only_conf_upd [simp]:
  "only_conf s (t\<lparr>conf := c\<rparr>) = only_conf s t" "only_conf s (undefined_if b t) = only_conf s t"
  "only_conf s (set_errno e t) = only_conf s t"
  by (simp_all add: only_conf_def)

section \<open>What the parsers may change\<close>

lemma set_server_option_only_conf: "only_conf s (set_server_option E n v s)"
proof -
  obtain w u where w: "strdup E v s = (w, u)" by fastforce
  note u = only_conf_strdup [OF w]
  have "only_conf s (set_multicast_group E v s)" using u by (cases w) (simp_all add: set_multicast_group_def w)
  with u show ?thesis by (simp add: set_server_option_def w)
qed

lemma free_ptr_only_conf [simp]: "only_conf s (snd (free_ptr p t)) = only_conf s t"
  by (cases p) (simp_all add: free_ptr_def)

definition parsing :: "server \<Rightarrow> section_parser \<Rightarrow> bool" where
  "parsing s p \<longleftrightarrow> only_conf s (p_run p) \<and> status (p_device p) = LINK_DOWN \<and> clients_connected (p_device p) = []"

lemma set_device_option_keeps:
  assumes "set_device_option E n v (x, s) = (y, t)"
  shows "only_conf s t" "status y = status x" "clients_connected y = clients_connected x"
  using assms only_conf_strdup [of E v s]
  by (auto simp: set_device_option_def split: if_splits prod.splits)

lemma free_both_keeps: "parsing s p \<Longrightarrow> parsing s (free_both p)"
  by (simp add: free_both_def parsing_def case_prod_beta)

lemma device_line_keeps:
  assumes "parsing s p"
  shows "parsing s (device_line E line p)"
proof (cases "line = []")
  case True
  with assms free_both_keeps show ?thesis by (simp add: device_line_def)
next
  case False
  obtain r n v t where pl: "parse_line E line (p_name p) (p_value p) (p_run p) = (r, n, v, t)"
    by (metis prod_cases4)
  have t: "only_conf s t" using assms only_conf_io [OF parse_line_same_core [OF pl]] only_conf_trans by (auto simp: parsing_def)
  obtain x u where so: "\<And>a b. n = Text a \<Longrightarrow> v = Text b \<Longrightarrow> set_device_option E a b (p_device p, t) = (x, u)"
    by (cases n; cases v) (auto, metis prod.exhaust)
  have "parsing s (p\<lparr>p_name := n, p_value := v, p_run := t\<rparr>)"
    "parsing s (fail_parser (p\<lparr>p_name := n, p_value := v, p_run := t\<rparr>))"
    using assms t by (simp_all add: parsing_def fail_parser_def)
  moreover have "parsing s (p\<lparr>p_name := n, p_value := v, p_device := x, p_run := u\<rparr>)"
    if "n = Text a" "v = Text b" for a b
    using set_device_option_keeps [OF so [OF that]] t assms only_conf_trans by (auto simp: parsing_def)
  ultimately show ?thesis
    using False so free_both_keeps by (auto simp: device_line_def pl Let_def split: c_ptr.splits)
qed

lemma parsing_start: "only_conf s t \<Longrightarrow> parsing s (start_device t)"
  by (simp add: parsing_def start_device_def zero_device_def)

lemma parsing_steps:
  "parsing s q \<Longrightarrow> parsing s (q\<lparr>p_run := alloc E (p_run q)\<rparr>)" "parsing s q \<Longrightarrow> parsing s (fail_parser q)"
  by (simp_all add: parsing_def fail_parser_def)

lemma parse_server_section_only_conf: "only_conf s (snd (parse_server_section E buf s))"
  unfolding parse_server_section_def
proof (rule parse_options_invariant)
  show "only_conf s u" if "only_conf s t" "same_core t u" for t u :: server
    using that only_conf_io only_conf_trans by blast
  show "only_conf s (set_server_option E n v t)" if "only_conf s t" for n v t
    using that set_server_option_only_conf only_conf_trans by blast
qed simp

lemma configured_install:
  assumes conf: "configured s" and x: "status x = LINK_DOWN" "clients_connected x = []" "device_name x \<noteq> None"
  shows "configured (case install_device x s of (p, t) \<Rightarrow>
    case add_device E (g_devices t) p t of (_, l, t) \<Rightarrow> t\<lparr>g_devices := l\<rparr>)"
proof -
  let ?p = "next_ptr s"
  let ?t = "s\<lparr>next_ptr := Suc ?p, device_at := (device_at s)(?p := x)\<rparr>"
  have old: "d \<in> set (g_devices s) \<Longrightarrow> d < ?p" for d using conf by (simp add: configured_def)
  have inj: "inj_on (device_key ?t) (set (g_devices s)) = inj_on (device_key s) (set (g_devices s))"
    by (rule inj_on_cong) (use old in auto)
  have base: "configured ?t"
    using conf old inj by (auto simp: configured_def wf_devices_def less_Suc_eq)
  have dist: "distinct (g_devices ?t)" using base by (simp add: configured_def wf_devices_def)
  obtain r l u where a: "add_device E (g_devices ?t) ?p ?t = (r, l, u)" by (metis prod_cases3)
  have "configured (u\<lparr>g_devices := l\<rparr>)"
  proof (cases rule: devs.add_cases [of "g_devices ?t" ?t ?p E])
    case (present d)
    with a have "l = g_devices ?t" "same_core ?t u" by auto
    with base configured_only_conf [OF only_conf_io [of ?t u]] same_core_fields(2) [of ?t u]
    show ?thesis by (simp add: configured_def wf_devices_def)
  next
    case (no_memory v)
    with a have "l = g_devices ?t" "same_core ?t u" by auto
    with base configured_only_conf [OF only_conf_io [of ?t u]] same_core_fields(2) [of ?t u]
    show ?thesis by (simp add: configured_def wf_devices_def)
  next
    case (appended v)
    with a have l: "l = g_devices s @ [?p]" and core: "same_core ?t u"
      and key: "\<And>d. d \<in> set (g_devices s) \<Longrightarrow> device_key ?t d \<noteq> device_key ?t ?p" by auto
    note f = same_core_fields [OF core]
    have "device_key ?t ?p \<notin> device_key ?t ` (set (g_devices s) - {?p})" using key by (metis (no_types, lifting) DiffD1 imageE)
    moreover have "inj_on (device_key ?t) (set (g_devices s))"
      using base by (simp add: configured_def wf_devices_def)
    ultimately have "inj_on (device_key ?t) (set l)" by (simp only: l set_append list.set inj_on_insert Un_insert_right) simp
    moreover have "?p \<notin> set (g_devices s)" using old by blast
    ultimately show ?thesis using base f l x
      by (simp add: configured_def wf_devices_def)
  qed
  with a show ?thesis by (simp add: install_device_def)
qed

lemma parse_device_section_configured:
  assumes "configured s"
  shows "configured (snd (parse_device_section E buf s))"
proof -
  define s1 where "s1 = snd (malloc E s)"
  have s1: "only_conf s s1" by (simp add: s1_def only_conf_io)
  have u: "configured (undefined_if True s1)"
    using assms s1 configured_only_conf [of s "undefined_if True s1"] by simp
  have "configured (snd (case strpbrk_at buf 0 NL of
      Found pos \<Rightarrow>
        let p = parse_lines E (device_line E) buf (pos + 1) (start_device (alloc E s1)); s = p_run p
        in if device_name (p_device p) \<noteq> None
           then (case install_device (p_device p) s of (new_device, s) \<Rightarrow>
                 case add_device E (g_devices s) new_device s of (_, l, s) \<Rightarrow> (0, s\<lparr>g_devices := l\<rparr>))
           else (0 :: int, s)
    | _ \<Rightarrow> (0, undefined_if True s1)))"
  proof (cases "strpbrk_at buf 0 NL")
    case (Found pos)
    define p where "p = parse_lines E (device_line E) buf (Suc pos) (start_device (alloc E s1))"
    have "parsing s p"
      unfolding p_def by (rule parse_lines_invariant) (simp_all add: parsing_start s1 device_line_keeps parsing_steps)
    then have "configured (p_run p)" "status (p_device p) = LINK_DOWN" "clients_connected (p_device p) = []"
      using assms configured_only_conf by (auto simp: parsing_def)
    with configured_install [of "p_run p" "p_device p" E] Found show ?thesis
      by (auto simp: p_def [symmetric] Let_def case_prod_beta)
  qed (use u in simp_all)
  then show ?thesis
    using u by (simp add: parse_device_section_def case_prod_beta flip: s1_def)
qed


section \<open>Reading the whole file\<close>

lemma next_section_only_conf:
  "get_next_device_section E T cur s = (b, cur', t) \<Longrightarrow> only_conf s t"
  by (auto simp: get_next_device_section_def copy_section_def Let_def split: option.splits if_splits)

lemma read_devices_configured:
  assumes "read_devices E T cur s = Some (r, t)" "configured s"
  shows "configured t"
proof -
  have "configured s \<longrightarrow> configured (snd (r, t))"
    using assms(1)
  proof (rule read_devices.raw_induct [rotated])
    fix rec E T cur s y
    assume IH: "\<And>E T cur s y. rec E T cur s = Some y \<Longrightarrow> configured s \<longrightarrow> configured (snd y)"
      and y: "(case get_next_device_section E T cur s of (section_data, cur_pos, s) \<Rightarrow>
        case section_data of None \<Rightarrow> Some (0, s)
        | Some buf \<Rightarrow> (case parse_device_section E buf s of (r, s) \<Rightarrow>
            if r < 0 then Some (-1, s) else rec E T cur_pos s)) = Some y"
    show "configured s \<longrightarrow> configured (snd y)"
    proof
      assume s: "configured s"
      obtain b c t where n: "get_next_device_section E T cur s = (b, c, t)" by (metis prod_cases3)
      then have t: "configured t" using s configured_only_conf next_section_only_conf by blast
      show "configured (snd y)"
      proof (cases b)
        case None
        with n y t show ?thesis by auto
      next
        case (Some buf)
        obtain q u where pu: "parse_device_section E buf t = (q, u)" by fastforce
        then have "configured u" using parse_device_section_configured [OF t, of E buf] by simp
        then show ?thesis using y n Some pu IH [of E T c u y] by (auto split: if_splits)
      qed
    qed
  qed
  with assms(2) show ?thesis by simp
qed

lemma get_section_same_core: "get_section E header T s = (g, v) \<Longrightarrow> same_core s v"
  by (auto simp: get_section_def copy_section_def split: option.splits)

lemma read_server_section_configured:
  assumes "read_server_section E T s = (q, t)" "configured s"
  shows "configured t"
proof -
  obtain g v where g: "get_section E SERVER_SECTION T s = (g, v)" by fastforce
  have v: "configured v"
    using assms(2) configured_only_conf [OF only_conf_io [OF get_section_same_core [OF g]]] by simp
  moreover have "configured (snd (parse_server_section E buf v))" for buf
    using v configured_only_conf parse_server_section_only_conf by blast
  ultimately show ?thesis using assms(1) g
    by (cases g) (auto simp: read_server_section_def read_section_def prod_eq_iff)
qed

lemma read_config_configured:
  assumes "read_config E F s = Some (r, t)" "configured s"
  shows "configured t"
proof -
  obtain b u where o: "open_config_file F (g_config_file (conf s)) s = (b, u)" by fastforce
  then have u: "configured u"
    using assms(2) configured_only_conf [of s u]
    by (auto simp: open_config_file_def split: option.splits sum.splits)
  have close: "configured (snd (close_config_file F v))" "configured (snd (close_after_error F v))" if "configured v" for v
  proof -
    have "only_conf v (snd (close_config_file F v))" "only_conf v (snd (close_after_error F v))"
      by (simp_all add: close_config_file_def close_after_error_def case_prod_beta Let_def)
    then show "configured (snd (close_config_file F v))" "configured (snd (close_after_error F v))"
      using that configured_only_conf by blast+
  qed
  show ?thesis
  proof (cases b)
    case None
    with o u assms(1) show ?thesis by (simp add: read_config_def split: if_splits)
  next
    case (Some bytes)
    obtain q w where q: "read_server_section E (c_string bytes) u = (q, w)" by fastforce
    have w: "configured w" using read_server_section_configured [OF q u] .
    note rc = assms(1) [unfolded read_config_def o Some]
    show ?thesis
    proof (cases "q < 0")
      case True
      with rc q close(2) [OF w] show ?thesis by (simp add: Let_def prod_eq_iff)
    next
      case False
      with rc q obtain r1 x where x: "read_devices E (c_string bytes) 0 w = Some (r1, x)"
        by (fastforce simp: Let_def split: option.splits)
      have "configured x" using read_devices_configured [OF x w] .
      with close [of x] rc False q x show ?thesis
        by (auto simp: Let_def case_prod_beta prod_eq_iff split: if_splits)
    qed
  qed
qed

end
