(* ===== verification/Server_Program.thy ===== *)
theory Server_Program
  imports Config_Facts
begin

text \<open>
  \<open>main\<close> of \<open>server/server.c\<close>: command line, configuration, daemon, socket, the two
  broadcasts around the main loop. The calls of the operating system that only succeed or
  fail are the fields of \<open>process\<close>; the wake-ups of the loop are a list, and a program
  that has consumed the list without stopping is still waiting in \<open>select\<close>.
\<close>

record process =
  fork_result :: int
  setsid_result :: int
  socket_result :: int
  bind_result :: "sockaddr_in \<Rightarrow> int"

datatype outcome = Exit_success | Exit_failure | Waiting

text \<open>The address the server binds: an address that cannot be read leaves the zero of \<open>memset\<close>.\<close>

definition server_address :: "server_conf \<Rightarrow> sockaddr_in" where
  "server_address cfg = \<lparr>
     sin_addr = (case g_srv_inaddr cfg of None \<Rightarrow> 0
                 | Some a \<Rightarrow> (case inet_aton a of None \<Rightarrow> 0 | Some x \<Rightarrow> x)),
     sin_port = g_srv_port cfg\<rparr>"

text \<open>From the first broadcast to the end of \<open>main\<close>.\<close>

definition serve_clients :: "env \<Rightarrow> wakeup list \<Rightarrow> server \<Rightarrow> outcome \<times> server" where
  "serve_clients E ws s =
     (case broadcast_init_message E s of (_, s) \<Rightarrow>
        let s = serve E ws s
        in if exited s then (Exit_failure, s)
           else if g_keep_going s then (Waiting, s)
           else (case broadcast_quit_message E s of (_, s) \<Rightarrow> (Exit_success, s)))"

definition start_server :: "env \<Rightarrow> process \<Rightarrow> wakeup list \<Rightarrow> server \<Rightarrow> outcome \<times> server" where
  "start_server E P ws s =
     (if g_fork (conf s) \<noteq> 0 \<and> fork_result P = -1 then (Exit_failure, s)
      else if g_fork (conf s) \<noteq> 0 \<and> fork_result P \<noteq> 0 then (Exit_success, s)
      else if g_fork (conf s) \<noteq> 0 \<and> setsid_result P = -1 then (Exit_failure, s)
      else if socket_result P < 0 then (Exit_failure, s)
      else if bind_result P (server_address (conf s)) < 0 then (Exit_failure, s)
      else serve_clients E ws s)"

definition main_program ::
  "env \<Rightarrow> file_system \<Rightarrow> process \<Rightarrow> string list \<Rightarrow> wakeup list \<Rightarrow> (outcome \<times> server) option" where
  "main_program E F P argv ws =
     (case parse_command_line E argv boot of (r, s) \<Rightarrow>
        if r < 0 then Some (Exit_failure, s)
        else (case read_config E F s of
                None \<Rightarrow> None
              | Some (r, s) \<Rightarrow>
                  if r < 0 then Some (Exit_failure, s) else Some (start_server E P ws s)))"

section \<open>Every run keeps the stores well formed\<close>

lemma parse_arguments_only_conf: "only_conf s (parse_arguments E args s)"
proof (induction "length args" arbitrary: args s rule: less_induct)
  case less
  show ?case
  proof (cases args)
    case (Cons a rest)
    have rec: "only_conf s (parse_arguments E xs t)" if "length xs \<le> length rest" "only_conf s t" for xs t
      using less [of xs t] that Cons only_conf_trans by auto
    have dup: "only_conf s (parse_arguments E (tl rest) (snd (strdup E v s)\<lparr>conf := c\<rparr>))" for v c
      using only_conf_strdup [of E v s] by (intro rec) (auto simp: prod_eq_iff)
    have rest: "rest = [] \<or> (\<exists>v vs. rest = v # vs)" by (cases rest) auto
    have "only_conf s (parse_arguments E (a # rest) s)"
      unfolding parse_arguments.simps(2) using rest rec dup
      by (auto simp: case_prod_beta simp del: parse_arguments.simps split: list.split)
    then show ?thesis using Cons by simp
  qed simp
qed

lemma configured_command_line: "configured (snd (parse_command_line E argv boot))"
  using configured_boot configured_only_conf [OF parse_arguments_only_conf [of boot E "tl argv"]]
  by (simp add: parse_command_line_def)

lemma serve_keeps: "wf_server s \<Longrightarrow> wf_server (serve E ws s)"
  using reachable_keeps [OF serve_reachable] by blast

lemma serve_clients_wf: "wf_server s \<Longrightarrow> wf_server (snd (serve_clients E ws s))"
  using serve_keeps init_broadcast.keeps_wf quit_broadcast.keeps_wf
  by (simp add: serve_clients_def case_prod_beta Let_def)

lemma start_server_wf: "wf_server s \<Longrightarrow> wf_server (snd (start_server E P ws s))"
  using serve_clients_wf by (simp add: start_server_def)

lemma main_program_wf:
  assumes "main_program E F P argv ws = Some (o1, t)"
  shows "wf_server t"
proof -
  obtain r s where rs: "parse_command_line E argv boot = (r, s)" by fastforce
  have s: "configured s" using configured_command_line [of E argv] rs by simp
  from assms rs consider "t = s" | q u where "read_config E F s = Some (q, u)"
      "t = u \<or> t = snd (start_server E P ws u)"
    by (auto simp: main_program_def prod_eq_iff split: if_splits option.splits)
  then show ?thesis
  proof cases
    case 1
    with s configured_wf show ?thesis by simp
  next
    case 2
    have "wf_server u" using configured_wf read_config_configured [OF 2(1) s] by blast
    with 2(2) start_server_wf show ?thesis by auto
  qed
qed

section \<open>The loop ends when it is told to\<close>

lemma serve_stopped: "\<not> running s \<Longrightarrow> serve E ws s = s"
  by (cases ws) simp_all

lemma signal_stops: "g_keep_going (iteration E (Signalled w) s) = False"
  by (simp add: termination_handler_def)

lemma poll_keeps_flag:
  "wf_server s \<Longrightarrow> g_keep_going (poll_and_sweep E s) = g_keep_going s \<and> exited (poll_and_sweep E s) = exited s"
  using poll_and_sweep_keeps [of s E] by (simp add: fixed_setup_def)

lemma interrupted_stops:
  "wf_server s \<Longrightarrow> g_keep_going (iteration E (Select_failed EINTR) s) = False"
  using poll_keeps_flag [of "(set_errno EINTR s)\<lparr>g_keep_going := False\<rparr>" E] by simp

end
