(* ===== verification/Client_Lists.thy ===== *)
theory Client_Lists
  imports Config_File Pointer_List
begin

text \<open>
  The data and the list functions of the Linux client: \<open>linux_client/client.h\<close> and
  \<open>linux_client/list_fns.c\<close>. The client keeps the servers it has heard of and, for each,
  the devices that server controls. Names that the link server uses too have the prefix
  \<open>client_\<close> or \<open>cdev_\<close>. The list of servers meets the contract of \<open>pointer_list\<close> for
  adding and looking up, but not for removing: \<open>rm_server\<close> drops the whole list when the
  server is at its head.
\<close>

section \<open>Data\<close>

type_synonym srv_ptr = nat
type_synonym cdev_ptr = nat

record client_device_t =
  cdev_name :: "string option"
  cdev_description :: "string option"
  cdev_status :: device_status_t
  cdev_connect_time :: int
  cdev_no_users :: "32 word"

record server_t =
  srv_sa :: sockaddr_in
  srv_last_heard_from :: int
  devices_controlled :: "cdev_ptr list"

record client_conf =
  c_debug :: int
  c_config_file :: "string option"
  c_multicast_group :: "string option"
  c_multicast_port :: port
  c_server_timeout :: int

definition client_defaults :: client_conf where
  "client_defaults = \<lparr>
     c_debug = 0,
     c_config_file = Some ''./link_client.conf'',
     c_multicast_group = Some ''239.255.42.42'',
     c_multicast_port = 6789,
     c_server_timeout = 60\<rparr>"

text \<open>
  \<open>servers_locked\<close> says whether the listener thread holds \<open>g_servers_mutex\<close>, and
  \<open>bad_unlocks\<close> counts the calls that unlock it without holding it.
\<close>

record link_client = io +
  c_conf :: client_conf
  g_servers :: "srv_ptr list"
  server_at :: "srv_ptr \<Rightarrow> server_t"
  cdevice_at :: "cdev_ptr \<Rightarrow> client_device_t"
  server_live :: "srv_ptr \<Rightarrow> bool"
  c_next_ptr :: nat
  servers_locked :: bool
  bad_unlocks :: nat
  c_exited :: bool

definition zero_cdevice :: client_device_t where
  "zero_cdevice = \<lparr>cdev_name = None, cdev_description = None, cdev_status = LINK_DOWN,
     cdev_connect_time = 0, cdev_no_users = 0\<rparr>"

definition zero_server :: server_t where
  "zero_server = \<lparr>srv_sa = \<lparr>sin_addr = 0, sin_port = 0\<rparr>, srv_last_heard_from = 0, devices_controlled = []\<rparr>"

definition client_boot :: link_client where
  "client_boot = \<lparr>errno = E0, tick = 0, trace = [], ub = False, c_conf = client_defaults,
     g_servers = [], server_at = (\<lambda>_. zero_server), cdevice_at = (\<lambda>_. zero_cdevice),
     server_live = (\<lambda>_. False), c_next_ptr = 1, servers_locked = False, bad_unlocks = 0,
     c_exited = False\<rparr>"

definition upd_server :: "srv_ptr \<Rightarrow> (server_t \<Rightarrow> server_t) \<Rightarrow> link_client \<Rightarrow> link_client" where
  "upd_server p f s = s\<lparr>server_at := (server_at s)(p := f (server_at s p))\<rparr>"

definition upd_cdevice :: "cdev_ptr \<Rightarrow> (client_device_t \<Rightarrow> client_device_t) \<Rightarrow> link_client \<Rightarrow> link_client" where
  "upd_cdevice p f s = s\<lparr>cdevice_at := (cdevice_at s)(p := f (cdevice_at s p))\<rparr>"

lemma same_core_client:
  "same_core s t \<longleftrightarrow> c_conf t = c_conf (s :: link_client) \<and> g_servers t = g_servers s
     \<and> server_at t = server_at s \<and> cdevice_at t = cdevice_at s \<and> server_live t = server_live s
     \<and> c_next_ptr t = c_next_ptr s \<and> servers_locked t = servers_locked s
     \<and> bad_unlocks t = bad_unlocks s \<and> c_exited t = c_exited s"
  by (cases s; cases t) (auto simp: same_core_def)

lemma same_core_client_fields:
  assumes "same_core s t"
  shows "c_conf t = c_conf (s :: link_client)" "g_servers t = g_servers s" "server_at t = server_at s"
    "cdevice_at t = cdevice_at s" "server_live t = server_live s" "c_next_ptr t = c_next_ptr s"
    "servers_locked t = servers_locked s" "bad_unlocks t = bad_unlocks s" "c_exited t = c_exited s"
  using assms by (simp_all add: same_core_client)

lemmas client_fields_io [simp] =
  same_core_client_fields [of s "set_errno e s" for s e, simplified]
  same_core_client_fields [of s "snd (time_now E s)" for s E, simplified]
  same_core_client_fields [of s "snd (malloc E s)" for s E, simplified]
  same_core_client_fields [of s "undefined_if b s" for s b, simplified]
  same_core_client_fields [of s "snd (strdup E t s)" for s E t, simplified strdup_def]

lemma upd_server_simps [simp]:
  "server_at (upd_server p f s) = (server_at s)(p := f (server_at s p))"
  "cdevice_at (upd_server p f s) = cdevice_at s" "g_servers (upd_server p f s) = g_servers s"
  "c_conf (upd_server p f s) = c_conf s" "server_live (upd_server p f s) = server_live s"
  "c_next_ptr (upd_server p f s) = c_next_ptr s" "servers_locked (upd_server p f s) = servers_locked s"
  "bad_unlocks (upd_server p f s) = bad_unlocks s" "c_exited (upd_server p f s) = c_exited s"
  "ub (upd_server p f s) = ub s" "errno (upd_server p f s) = errno s" "tick (upd_server p f s) = tick s"
  by (simp_all add: upd_server_def)

lemma upd_cdevice_simps [simp]:
  "cdevice_at (upd_cdevice p g s) = (cdevice_at s)(p := g (cdevice_at s p))"
  "server_at (upd_cdevice p g s) = server_at s" "g_servers (upd_cdevice p g s) = g_servers s"
  "c_conf (upd_cdevice p g s) = c_conf s" "server_live (upd_cdevice p g s) = server_live s"
  "c_next_ptr (upd_cdevice p g s) = c_next_ptr s" "servers_locked (upd_cdevice p g s) = servers_locked s"
  "bad_unlocks (upd_cdevice p g s) = bad_unlocks s" "c_exited (upd_cdevice p g s) = c_exited s"
  "ub (upd_cdevice p g s) = ub s" "errno (upd_cdevice p g s) = errno s" "tick (upd_cdevice p g s) = tick s"
  by (simp_all add: upd_cdevice_def)

section \<open>Devices of a server\<close>

fun client_get_device :: "cdev_ptr list \<Rightarrow> string option \<Rightarrow> link_client \<Rightarrow> cdev_ptr option \<times> link_client" where
  "client_get_device [] nm s = (None, set_errno ENODEV s)"
| "client_get_device (d # ds) nm s =
     (if cdev_name (cdevice_at s d) = nm then (Some d, s) else client_get_device ds nm s)"

definition client_add_device ::
  "env \<Rightarrow> cdev_ptr list \<Rightarrow> cdev_ptr \<Rightarrow> link_client \<Rightarrow> int \<times> cdev_ptr list \<times> link_client" where
  "client_add_device E ds new_device s =
     (case client_get_device ds (cdev_name (cdevice_at s new_device)) s of
        (Some _, s) \<Rightarrow> (-1, ds, set_errno EALREADY s)
      | (None, s) \<Rightarrow>
          (case malloc E s of (ok, s) \<Rightarrow>
             if \<not> ok then (-1, ds, s)
             else if new_device \<in> set (butlast ds) then (-1, ds, set_errno EALREADY s)
             else (0, ds @ [new_device], s)))"

fun client_rm_device :: "cdev_ptr list \<Rightarrow> cdev_ptr \<Rightarrow> link_client \<Rightarrow> int \<times> cdev_ptr list \<times> link_client" where
  "client_rm_device [] dev s = (-1, [], set_errno ENODEV s)"
| "client_rm_device (d # ds) dev s =
     (if d = dev then (0, ds, s)
      else (case client_rm_device ds dev s of (r, ds', s') \<Rightarrow> (r, d # ds', s')))"

section \<open>Servers\<close>

fun get_server :: "srv_ptr list \<Rightarrow> in_addr \<Rightarrow> link_client \<Rightarrow> srv_ptr option \<times> link_client" where
  "get_server [] a s = (None, set_errno ENODEV s)"
| "get_server (p # ps) a s =
     (if sin_addr (srv_sa (server_at s p)) = a then (Some p, s) else get_server ps a s)"

definition add_server :: "env \<Rightarrow> srv_ptr list \<Rightarrow> srv_ptr \<Rightarrow> link_client \<Rightarrow> int \<times> srv_ptr list \<times> link_client" where
  "add_server E ps new_server s =
     (case get_server ps (sin_addr (srv_sa (server_at s new_server))) s of
        (Some _, s) \<Rightarrow> (-1, ps, set_errno EALREADY s)
      | (None, s) \<Rightarrow>
          (case malloc E s of (ok, s) \<Rightarrow>
             if \<not> ok then (-1, ps, s)
             else if new_server \<in> set (butlast ps) then (-1, ps, set_errno EALREADY s)
             else (0, ps @ [new_server], s)))"

text \<open>The search behind the root, and \<open>rm_server\<close> with its special case for the root.\<close>

fun rm_later_server :: "srv_ptr list \<Rightarrow> srv_ptr \<Rightarrow> link_client \<Rightarrow> int \<times> srv_ptr list \<times> link_client" where
  "rm_later_server [] server s = (-1, [], set_errno ENODEV s)"
| "rm_later_server (p # ps) server s =
     (if p = server then (0, ps, s)
      else (case rm_later_server ps server s of (r, ps', s') \<Rightarrow> (r, p # ps', s')))"

definition rm_server :: "srv_ptr list \<Rightarrow> srv_ptr \<Rightarrow> link_client \<Rightarrow> int \<times> srv_ptr list \<times> link_client" where
  "rm_server ps server s = (case ps of
     [] \<Rightarrow> (-1, [], set_errno ENODEV s)
   | p # rest \<Rightarrow>
       if p = server then (0, [], s)
       else (case rm_later_server rest server s of (r, rest', s') \<Rightarrow> (r, p # rest', s')))"

definition update_server :: "env \<Rightarrow> srv_ptr \<Rightarrow> link_client \<Rightarrow> int \<times> link_client" where
  "update_server E server s =
     (case time_now E s of (t, s) \<Rightarrow> (0, upd_server server (\<lambda>x. x\<lparr>srv_last_heard_from := t\<rparr>) s))"

definition free_server :: "srv_ptr \<Rightarrow> link_client \<Rightarrow> link_client" where
  "free_server p s = s\<lparr>server_live := (server_live s)(p := False)\<rparr>"

text \<open>The loop follows the nodes of the list it started with.\<close>

fun expire_servers :: "env \<Rightarrow> srv_ptr list \<Rightarrow> link_client \<Rightarrow> int \<times> link_client" where
  "expire_servers E [] s = (0, s)"
| "expire_servers E (p # ps) s =
     (case time_now E s of (t, s) \<Rightarrow>
        if t > srv_last_heard_from (server_at s p) + c_server_timeout (c_conf s)
        then (case rm_server (g_servers s) p s of (r, l, s) \<Rightarrow>
               let s = s\<lparr>g_servers := l\<rparr> in
               if r < 0 then (-1, s) else expire_servers E ps (free_server p s))
        else expire_servers E ps s)"

definition timeout_old_servers :: "env \<Rightarrow> link_client \<Rightarrow> int \<times> link_client" where
  "timeout_old_servers E s = expire_servers E (g_servers s) s"

section \<open>What the lists promise\<close>

abbreviation cdevice_key :: "link_client \<Rightarrow> cdev_ptr \<Rightarrow> string option" where
  "cdevice_key s d \<equiv> cdev_name (cdevice_at s d)"

abbreviation server_key :: "link_client \<Rightarrow> srv_ptr \<Rightarrow> in_addr" where
  "server_key s p \<equiv> sin_addr (srv_sa (server_at s p))"

lemma client_get_device_find:
  "client_get_device ds nm s = (case List.find (\<lambda>d. cdevice_key s d = nm) ds of
     Some d \<Rightarrow> (Some d, s) | None \<Rightarrow> (None, set_errno ENODEV s))"
  by (induction ds) auto

lemma get_server_find:
  "get_server ps a s = (case List.find (\<lambda>p. server_key s p = a) ps of
     Some p \<Rightarrow> (Some p, s) | None \<Rightarrow> (None, set_errno ENODEV s))"
  by (induction ps) auto

lemma client_rm_device_remove1: "client_rm_device ds d s =
    (if d \<in> set ds then (0, remove1 d ds, s) else (-1, ds, set_errno ENODEV s))"
  by (induction ds) auto

lemma rm_later_server_remove1: "rm_later_server ps p s =
    (if p \<in> set ps then (0, remove1 p ps, s) else (-1, ps, set_errno ENODEV s))"
  by (induction ps) auto

lemma client_add_device_present:
  assumes "p \<in> set ds" "cdevice_key s p = cdevice_key s q"
  shows "client_add_device E ds q s = (-1, ds, set_errno EALREADY s)"
proof -
  have "List.find (\<lambda>d. cdevice_key s d = cdevice_key s q) ds \<noteq> None"
    using assms by (auto simp: find_None_set)
  then show ?thesis by (auto simp: client_add_device_def client_get_device_find)
qed

lemma client_add_device_absent:
  assumes "\<And>p. p \<in> set ds \<Longrightarrow> cdevice_key s p \<noteq> cdevice_key s q"
  shows "client_add_device E ds q s = (case malloc E (set_errno ENODEV s) of
    (ok, t) \<Rightarrow> if ok then (0, ds @ [q], t) else (-1, ds, t))"
proof -
  have "List.find (\<lambda>d. cdevice_key s d = cdevice_key s q) ds = None"
    using assms by (simp add: find_None_set)
  moreover have "q \<notin> set (butlast ds)" using assms by (auto dest: set_butlast_subset)
  ultimately show ?thesis by (simp add: client_add_device_def client_get_device_find split: prod.splits)
qed

lemma add_server_present:
  assumes "p \<in> set ps" "server_key s p = server_key s q"
  shows "add_server E ps q s = (-1, ps, set_errno EALREADY s)"
proof -
  have "List.find (\<lambda>p. server_key s p = server_key s q) ps \<noteq> None"
    using assms by (auto simp: find_None_set)
  then show ?thesis by (auto simp: add_server_def get_server_find)
qed

lemma add_server_absent:
  assumes "\<And>p. p \<in> set ps \<Longrightarrow> server_key s p \<noteq> server_key s q"
  shows "add_server E ps q s = (case malloc E (set_errno ENODEV s) of
    (ok, t) \<Rightarrow> if ok then (0, ps @ [q], t) else (-1, ps, t))"
proof -
  have "List.find (\<lambda>p. server_key s p = server_key s q) ps = None"
    using assms by (simp add: find_None_set)
  moreover have "q \<notin> set (butlast ps)" using assms by (auto dest: set_butlast_subset)
  ultimately show ?thesis by (simp add: add_server_def get_server_find split: prod.splits)
qed

interpretation cdevs: pointer_list cdevice_key client_get_device client_add_device client_rm_device
proof unfold_locales
  show "same_core s t \<Longrightarrow> cdevice_key t = cdevice_key s" for s t :: link_client
    by (simp add: same_core_client_fields)
qed (simp_all add: client_get_device_find client_add_device_present client_add_device_absent
      client_rm_device_remove1)

interpretation srvs: pointer_list_lookup server_key get_server add_server
proof unfold_locales
  show "same_core s t \<Longrightarrow> server_key t = server_key s" for s t :: link_client
    by (simp add: same_core_client_fields)
qed (simp_all add: get_server_find add_server_present add_server_absent)

text \<open>What removing a server really does.\<close>

lemma rm_server_result:
  "rm_server ps p s =
     (if ps = [] then (-1, [], set_errno ENODEV s)
      else if hd ps = p then (0, [], s)
      else if p \<in> set ps then (0, remove1 p ps, s)
      else (-1, ps, set_errno ENODEV s))"
  by (cases ps) (auto simp: rm_server_def rm_later_server_remove1)

end
