(* ===== verification/Client_Listen.thy ===== *)
theory Client_Listen
  imports Client_Lists
begin

text \<open>
  The listener thread of the Linux client: \<open>linux_client/listen_status.c\<close>, with the
  configuration (\<open>linux_client/read_config.c\<close>) and \<open>wait_for_servers\<close> of
  \<open>linux_client/client.c\<close>. The listener is modelled alone; of \<open>g_servers_mutex\<close> it is
  recorded whether this thread holds it, so that unlocking it without holding it shows.
\<close>

section \<open>The mutex\<close>

definition lock_servers :: "link_client \<Rightarrow> link_client" where
  "lock_servers s = s\<lparr>servers_locked := True\<rparr>"

definition unlock_servers :: "link_client \<Rightarrow> link_client" where
  "unlock_servers s = (if servers_locked s then s\<lparr>servers_locked := False\<rparr>
                       else s\<lparr>bad_unlocks := Suc (bad_unlocks s)\<rparr>)"

section \<open>The status message\<close>

text \<open>\<open>unsigned long\<close> to \<open>time_t\<close> and to \<open>unsigned int\<close>.\<close>

definition c_long :: "int \<Rightarrow> int" where
  "c_long x = signed_take_bit 63 x"

definition delims :: "char list" where
  "delims = NL @ TAB"

text \<open>
  The device of that name, made if need be. A failing \<open>strdup\<close> leaves a NULL name, which
  the next comparison of names dereferences.
\<close>

definition new_cdevice :: "string option \<Rightarrow> link_client \<Rightarrow> cdev_ptr \<times> link_client" where
  "new_cdevice nm s = (c_next_ptr s, s\<lparr>c_next_ptr := Suc (c_next_ptr s),
     cdevice_at := (cdevice_at s)(c_next_ptr s := zero_cdevice\<lparr>cdev_name := nm\<rparr>)\<rparr>)"

definition find_or_add_cdevice ::
  "env \<Rightarrow> srv_ptr \<Rightarrow> string \<Rightarrow> link_client \<Rightarrow> cdev_ptr option \<times> link_client" where
  "find_or_add_cdevice E server device_name s =
     (case client_get_device (devices_controlled (server_at s server)) (Some device_name) s of
        (Some device, s) \<Rightarrow> (Some device, s)
      | (None, s) \<Rightarrow>
          (case malloc E s of (ok, s) \<Rightarrow>
             if \<not> ok then (None, s)
             else (case strdup E device_name s of (nm, s) \<Rightarrow>
                   case new_cdevice nm (undefined_if (nm = None) s) of (device, s) \<Rightarrow>
                   case client_add_device E (devices_controlled (server_at s server)) device s of (r, ds, s) \<Rightarrow>
                     let s = upd_server server (\<lambda>x. x\<lparr>devices_controlled := ds\<rparr>) s
                     in if r < 0 then (None, s) else (Some device, s))))"

text \<open>
  The text behind \<open>UP\<close>. The code skips three bytes, which after a bare \<open>UP\<close> is past the
  terminator \<open>strtok\<close> wrote: what follows in the message is read instead.
\<close>

definition read_uptime :: "cdev_ptr \<Rightarrow> string \<Rightarrow> string \<Rightarrow> link_client \<Rightarrow> link_client" where
  "read_uptime device device_status rest s = (
     let x_str = (if 3 \<le> length device_status then drop 3 device_status else rest)
     in case strchr x_str (CHR '' '') of
          None \<Rightarrow> undefined_if True s
        | Some y_str \<Rightarrow>
            upd_cdevice device (\<lambda>d. d\<lparr>cdev_status := LINK_UP,
               cdev_connect_time := c_long (fst (strtoul x_str)),
               cdev_no_users := word_of_int (fst (strtoul (tl y_str)))\<rparr>) s)"

definition set_cdevice :: "cdev_ptr \<Rightarrow> device_status_t \<Rightarrow> link_client \<Rightarrow> link_client" where
  "set_cdevice device st s =
     upd_cdevice device (\<lambda>d. d\<lparr>cdev_status := st, cdev_connect_time := 0, cdev_no_users := 0\<rparr>) s"

definition read_status :: "cdev_ptr \<Rightarrow> string \<Rightarrow> string \<Rightarrow> link_client \<Rightarrow> link_client" where
  "read_status device device_status rest s =
     (if starts_with ''UP'' device_status then read_uptime device device_status rest s
      else if device_status = ''DOWN'' then set_cdevice device LINK_DOWN s
      else if device_status = ''CONNECTING'' then set_cdevice device LINK_CONNECTING s
      else if device_status = ''DISCONNECTING'' then set_cdevice device LINK_DISCONNECTING s
      else s)"

function process_status_message :: "env \<Rightarrow> srv_ptr \<Rightarrow> string \<Rightarrow> link_client \<Rightarrow> int \<times> link_client" where
  "process_status_message E server message s =
     (case strtok delims message of
        None \<Rightarrow> (0, s)
      | Some (device_name, rest) \<Rightarrow>
          (case strtok delims rest of
             None \<Rightarrow> (0, s)
           | Some (device_status, rest) \<Rightarrow>
               (case find_or_add_cdevice E server device_name s of
                  (None, s) \<Rightarrow> (-1, s)
                | (Some device, s) \<Rightarrow>
                    process_status_message E server rest (read_status device device_status rest s))))"
  by pat_completeness auto
termination
proof (relation "measure (\<lambda>(E, server, message, s). length message)", goal_cases)
  case (2 E server message s x device_name rest y device_status rest' z t device)
  then show ?case using strtok_shorter [of delims message device_name rest]
      strtok_shorter [of delims rest device_status rest'] by auto
qed simp

declare process_status_message.simps [simp del]

section \<open>One datagram\<close>

datatype broadcast = Broadcast sockaddr_in "char list" | Receive_error errno

definition new_server :: "sockaddr_in \<Rightarrow> link_client \<Rightarrow> srv_ptr \<times> link_client" where
  "new_server a s = (c_next_ptr s, s\<lparr>c_next_ptr := Suc (c_next_ptr s),
     server_live := (server_live s)(c_next_ptr s := True),
     server_at := (server_at s)(c_next_ptr s := zero_server\<lparr>srv_sa := a\<rparr>)\<rparr>)"

text \<open>The result of \<open>add_server\<close> is not looked at.\<close>

definition find_or_add_server :: "env \<Rightarrow> sockaddr_in \<Rightarrow> link_client \<Rightarrow> srv_ptr option \<times> link_client" where
  "find_or_add_server E server_sa s =
     (case get_server (g_servers s) (sin_addr server_sa) s of
        (Some server, s) \<Rightarrow> (Some server, s)
      | (None, s) \<Rightarrow>
          if errno s \<noteq> ENODEV then (None, s)
          else (case malloc E s of (ok, s) \<Rightarrow>
             if \<not> ok then (None, s)
             else (case new_server server_sa s of (server, s) \<Rightarrow>
                   case add_server E (g_servers s) server (lock_servers s) of (_, l, s) \<Rightarrow>
                     (Some server, unlock_servers (s\<lparr>g_servers := l\<rparr>)))))"

fun drop_devices :: "cdev_ptr list \<Rightarrow> link_client \<Rightarrow> int \<times> cdev_ptr list \<times> link_client" where
  "drop_devices [] s = (0, [], s)"
| "drop_devices (d # ds) s =
     (case client_rm_device (d # ds) d s of (r, l, s) \<Rightarrow>
        if r < 0 then (-1, l, s) else drop_devices ds s)"

text \<open>The branches for the three broadcasts; the one for \<open>STATUS\<close> unlocks where it should lock.\<close>

definition server_broadcast :: "env \<Rightarrow> srv_ptr \<Rightarrow> string \<Rightarrow> link_client \<Rightarrow> int \<times> link_client" where
  "server_broadcast E server recv_buffer s =
     (if starts_with BROADCAST_INIT recv_buffer
      then (case drop_devices (devices_controlled (server_at s server)) (lock_servers s) of (r, l, s) \<Rightarrow>
              (r, unlock_servers (upd_server server (\<lambda>x. x\<lparr>devices_controlled := l\<rparr>) s)))
      else if starts_with BROADCAST_QUIT recv_buffer
      then (case rm_server (g_servers s) server (lock_servers s) of (r, l, s) \<Rightarrow>
              (if r < 0 then -1 else 0, unlock_servers (s\<lparr>g_servers := l\<rparr>)))
      else if starts_with BROADCAST_STATUS recv_buffer
      then (case process_status_message E server (drop (length BROADCAST_STATUS) recv_buffer)
                   (unlock_servers s) of (r, s) \<Rightarrow>
              (if r < 0 then -1 else 0, unlock_servers s))
      else (-1, set_errno ENOTSUP s))"

definition client_process_command :: "env \<Rightarrow> broadcast \<Rightarrow> link_client \<Rightarrow> int \<times> link_client" where
  "client_process_command E b s = (case b of
     Receive_error e \<Rightarrow> (-1, (set_errno e s)\<lparr>c_exited := True\<rparr>)
   | Broadcast server_sa bytes \<Rightarrow>
       let recv_size = length (take MAX_RECV_BUFFER bytes);
           s = undefined_if (\<not> recv_size < MAX_RECV_BUFFER) s;
           recv_buffer = c_string (take MAX_RECV_BUFFER bytes)
       in case find_or_add_server E server_sa s of
            (None, s) \<Rightarrow> (-1, s)
          | (Some server, s) \<Rightarrow>
              (case time_now E (lock_servers s) of (t, s) \<Rightarrow>
                 server_broadcast E server recv_buffer
                   (unlock_servers (upd_server server (\<lambda>x. x\<lparr>srv_last_heard_from := t\<rparr>) s))))"

text \<open>
  The thread's loop: what \<open>select\<close> delivers is a list. A failing \<open>select\<close> ends the
  thread, a failing command does not.
\<close>

datatype ready = Select_error errno | Nothing_ready | Datagram broadcast

fun listen_for_status :: "env \<Rightarrow> ready list \<Rightarrow> link_client \<Rightarrow> link_client" where
  "listen_for_status E [] s = s"
| "listen_for_status E (Select_error e # rs) s = set_errno e s"
| "listen_for_status E (Nothing_ready # rs) s = listen_for_status E rs s"
| "listen_for_status E (Datagram b # rs) s =
     (case client_process_command E b s of (_, s) \<Rightarrow>
        if c_exited s then s else listen_for_status E rs s)"

section \<open>Waiting for the first server\<close>

text \<open>
  Each wait has a result and an effect of the other thread on the shared state. The
  result of \<open>pthread_cond_timedwait\<close> is an error number, but the code consults \<open>errno\<close>.
  \<open>None\<close> means that the loop has not ended: all waits of the list have passed, or the
  listener has ended the process.
\<close>

fun wait_loop :: "(int \<times> (link_client \<Rightarrow> link_client)) list \<Rightarrow> link_client \<Rightarrow> int option \<times> link_client" where
  "wait_loop [] s = (if g_servers s \<noteq> [] then Some 0 else None, s)"
| "wait_loop ((wait_result, other) # ws) s =
     (if g_servers s \<noteq> [] then (Some 0, s)
      else (let s = other s
            in if c_exited s then (None, s)
               else if wait_result \<noteq> 0 \<and> errno s \<noteq> ETIMEDOUT \<and> errno s \<noteq> EINTR then (Some (-1), s)
               else wait_loop ws s))"

text \<open>
  \<open>held\<close> is whether \<open>main\<close> holds the mutex, before and after. If it does, it waits for itself
  and never returns. The return of -1 skips the unlock.
\<close>

definition wait_for_servers ::
  "(int \<times> (link_client \<Rightarrow> link_client)) list \<Rightarrow> bool \<Rightarrow> link_client \<Rightarrow> int option \<times> bool \<times> link_client" where
  "wait_for_servers ws held s =
     (if held then (None, True, s)
      else (case wait_loop ws s of
              (None, s) \<Rightarrow> (None, False, s)
            | (Some r, s) \<Rightarrow> if r < 0 then (Some r, True, s) else (Some r, False, s)))"

section \<open>Configuration\<close>

definition CLIENT_SECTION :: string where
  "CLIENT_SECTION = ''[Client]''"

definition set_client_option :: "env \<Rightarrow> string \<Rightarrow> string \<Rightarrow> link_client \<Rightarrow> link_client" where
  "set_client_option E name value s =
     (if strcaseeq name ''debug'' \<and> number_valid value
      then s\<lparr>c_conf := (c_conf s)\<lparr>c_debug := numeric_value value\<rparr>\<rparr>
      else if strcaseeq name ''server_timeout'' \<and> number_valid value
      then s\<lparr>c_conf := (c_conf s)\<lparr>c_server_timeout := numeric_value value\<rparr>\<rparr>
      else if strcaseeq name ''multicast_group''
      then (case strdup E value s of (v, s) \<Rightarrow> s\<lparr>c_conf := (c_conf s)\<lparr>c_multicast_group := v\<rparr>\<rparr>)
      else if strcaseeq name ''multicast_port'' \<and> number_valid value
      then s\<lparr>c_conf := (c_conf s)\<lparr>c_multicast_port := c_ushort (numeric_value value)\<rparr>\<rparr>
      else s)"

text \<open>The client's copies of the routines of \<open>Config_File\<close> have the same text.\<close>

definition client_open_config_file :: "file_system \<Rightarrow> string option \<Rightarrow> link_client \<Rightarrow> char list option \<times> link_client" where
  "client_open_config_file F config_file s = open_config_file F config_file s"

definition client_close_config_file :: "file_system \<Rightarrow> link_client \<Rightarrow> int \<times> link_client" where
  "client_close_config_file F s = close_config_file F s"

definition client_parse_line ::
  "env \<Rightarrow> string \<Rightarrow> c_ptr \<Rightarrow> c_ptr \<Rightarrow> link_client \<Rightarrow> int \<times> c_ptr \<times> c_ptr \<times> link_client" where
  "client_parse_line E line name value s = parse_line E line name value s"

definition get_client_section :: "env \<Rightarrow> string \<Rightarrow> link_client \<Rightarrow> char list option \<times> link_client" where
  "get_client_section E config_data s = get_section E CLIENT_SECTION config_data s"

definition parse_client_section :: "env \<Rightarrow> char list \<Rightarrow> link_client \<Rightarrow> int \<times> link_client" where
  "parse_client_section E = parse_options E (set_client_option E)"

definition client_read_config :: "env \<Rightarrow> file_system \<Rightarrow> link_client \<Rightarrow> int \<times> link_client" where
  "client_read_config E F s =
     read_one_section E F (c_config_file (c_conf s)) CLIENT_SECTION (parse_client_section E) s"

fun client_parse_arguments :: "env \<Rightarrow> string list \<Rightarrow> link_client \<Rightarrow> link_client" where
  "client_parse_arguments E [] s = s"
| "client_parse_arguments E (cur_arg # args) s =
     (case cur_arg of
        c # switch # _ \<Rightarrow>
          if c \<noteq> CHR ''-'' then client_parse_arguments E args s
          else if switch = CHR ''d''
          then client_parse_arguments E args (s\<lparr>c_conf := (c_conf s)\<lparr>c_debug := 1\<rparr>\<rparr>)
          else if switch = CHR ''c''
          then (case args of
                  [] \<Rightarrow> undefined_if True s
                | a # args \<Rightarrow> (case strdup E a s of (v, s) \<Rightarrow>
                    client_parse_arguments E args (s\<lparr>c_conf := (c_conf s)\<lparr>c_config_file := v\<rparr>\<rparr>)))
          else client_parse_arguments E args s
      | _ \<Rightarrow> client_parse_arguments E args s)"

definition client_parse_command_line :: "env \<Rightarrow> string list \<Rightarrow> link_client \<Rightarrow> int \<times> link_client" where
  "client_parse_command_line E argv s =
     (if length argv = 1 then (0, s) else (0, client_parse_arguments E (tl argv) s))"

end
