(* ===== verification/Client_Facts.thy ===== *)
theory Client_Facts
  imports Client_Listen
begin

text \<open>
  What the Linux client makes of a status message. The client's knowledge of one server is
  abstracted to a map from device names to reports (\<open>cview\<close>); looking up or making a
  device and reading its status is a map update, so a message is a sequence of updates.
\<close>

section \<open>The client's view of a server\<close>

type_synonym report = "device_status_t \<times> int \<times> 32 word"

definition report_of :: "client_device_t \<Rightarrow> report" where
  "report_of d = (cdev_status d, cdev_connect_time d, cdev_no_users d)"

definition cview :: "srv_ptr \<Rightarrow> link_client \<Rightarrow> string \<Rightarrow> report option" where
  "cview p s nm = map_option (\<lambda>d. report_of (cdevice_at s d))
     (List.find (\<lambda>d. cdevice_key s d = Some nm) (devices_controlled (server_at s p)))"

definition wf_cdevices :: "srv_ptr \<Rightarrow> link_client \<Rightarrow> bool" where
  "wf_cdevices p s \<longleftrightarrow> distinct (devices_controlled (server_at s p))
     \<and> inj_on (cdevice_key s) (set (devices_controlled (server_at s p)))
     \<and> (\<forall>d \<in> set (devices_controlled (server_at s p)). d < c_next_ptr s \<and> cdevice_key s d \<noteq> None)"

lemma cview_listed:
  assumes "wf_cdevices p s" "d \<in> set (devices_controlled (server_at s p))" "cdevice_key s d = Some nm"
  shows "cview p s nm = Some (report_of (cdevice_at s d))"
proof -
  have "List.find (\<lambda>d. cdevice_key s d = Some nm) (devices_controlled (server_at s p)) = Some d"
  proof (rule find_unique)
    show "y = d" if "y \<in> set (devices_controlled (server_at s p))" "cdevice_key s y = Some nm" for y
      using that assms unfolding wf_cdevices_def by (metis inj_onD)
  qed (use assms in auto)
  then show ?thesis by (simp add: cview_def)
qed

lemma cview_None: "cview p s nm = None \<longleftrightarrow>
    (\<forall>d \<in> set (devices_controlled (server_at s p)). cdevice_key s d \<noteq> Some nm)"
  by (simp add: cview_def find_None_set)

text \<open>Two states agree on a server when its list, the names and the reports agree.\<close>

lemma cview_cong:
  assumes "devices_controlled (server_at t p) = devices_controlled (server_at s p)"
    "\<And>d. d \<in> set (devices_controlled (server_at s p)) \<Longrightarrow> cdevice_at t d = cdevice_at s d"
  shows "cview p t = cview p s"
proof
  fix nm
  let ?ds = "devices_controlled (server_at s p)"
  have f: "List.find (\<lambda>d. cdevice_key t d = Some nm) ?ds = List.find (\<lambda>d. cdevice_key s d = Some nm) ?ds"
    by (rule find_cong_set) (simp add: assms(2))
  show "cview p t nm = cview p s nm"
    unfolding cview_def assms(1) f
    by (cases "List.find (\<lambda>d. cdevice_key s d = Some nm) ?ds") (auto dest: find_Some_set simp: assms(2))
qed

section \<open>One device\<close>

lemma find_or_add_spec:
  assumes wf: "wf_cdevices p s" and E: "\<And>n. e_malloc E n"
  obtains d t where "find_or_add_cdevice E p nm s = (Some d, t)" "wf_cdevices p t" "ub t = ub s"
    "d \<in> set (devices_controlled (server_at t p))" "cdevice_key t d = Some nm"
    "\<And>nm'. nm' \<noteq> nm \<Longrightarrow> cview p t nm' = cview p s nm'" "g_servers t = g_servers s"
    "bad_unlocks t = bad_unlocks s" "servers_locked t = servers_locked s"
proof (cases "List.find (\<lambda>d. cdevice_key s d = Some nm) (devices_controlled (server_at s p))")
  case (Some d)
  then have "find_or_add_cdevice E p nm s = (Some d, s)"
    by (simp add: find_or_add_cdevice_def client_get_device_find)
  with that [of d s] wf find_Some_set [OF Some] show ?thesis by auto
next
  case None
  let ?ds = "devices_controlled (server_at s p)"
  define t1 where "t1 = snd (malloc E (snd (malloc E (set_errno ENODEV s))))"
  have t1: "same_core s t1" "ub t1 = ub s" by (simp_all add: t1_def)
  note f = same_core_client_fields [OF t1(1)]
  let ?d = "c_next_ptr s"
  define t2 where "t2 = snd (new_cdevice (Some nm) t1)"
  have t2: "server_at t2 = server_at s" "cdevice_at t2 = (cdevice_at s)(?d := zero_cdevice\<lparr>cdev_name := Some nm\<rparr>)"
    "c_next_ptr t2 = Suc ?d" "ub t2 = ub s" "g_servers t2 = g_servers s" "bad_unlocks t2 = bad_unlocks s"
    "servers_locked t2 = servers_locked s"
    using f t1 by (simp_all add: t2_def new_cdevice_def)
  have fresh: "d \<in> set ?ds \<Longrightarrow> d < ?d" for d using wf by (simp add: wf_cdevices_def)
  have none: "\<And>d. d \<in> set ?ds \<Longrightarrow> cdevice_key s d \<noteq> Some nm" using None by (auto simp: find_None_set)
  have keys: "\<And>q. q \<in> set ?ds \<Longrightarrow> cdevice_key t2 q \<noteq> cdevice_key t2 ?d"
    using none fresh t2 by fastforce
  define u where "u = snd (malloc E (set_errno ENODEV t2))"
  have u: "same_core t2 u" "ub u = ub s" by (simp_all add: u_def t2)
  note g = same_core_client_fields [OF u(1)]
  have add: "client_add_device E ?ds ?d t2 = (0, ?ds @ [?d], u)"
    using client_add_device_absent [OF keys, where E = E] E by (simp add: case_prod_beta fst_malloc u_def)
  let ?t = "upd_server p (\<lambda>x. x\<lparr>devices_controlled := ?ds @ [?d]\<rparr>) u"
  have "find_or_add_cdevice E p nm s = (Some ?d, ?t)"
    using None E add t2 f
    by (simp add: find_or_add_cdevice_def client_get_device_find case_prod_beta fst_malloc strdup_def Let_def
        undefined_if_def new_cdevice_def flip: t1_def) (simp add: t2_def new_cdevice_def)
  moreover have list: "devices_controlled (server_at ?t p) = ?ds @ [?d]" by simp
  moreover have at: "cdevice_at ?t = (cdevice_at s)(?d := zero_cdevice\<lparr>cdev_name := Some nm\<rparr>)"
    "c_next_ptr ?t = Suc ?d" using g t2 by simp_all
  have key: "cdevice_key ?t ?d = Some nm" using g t2 by simp
  have same: "cdevice_key ?t q = cdevice_key s q" if "q \<in> set ?ds" for q
    using at fresh [OF that] by simp
  have wft: "wf_cdevices p ?t"
    unfolding wf_cdevices_def list
  proof (intro conjI ballI)
    have "inj_on (cdevice_key ?t) (set ?ds)"
      using wf inj_on_cong [of "set ?ds" "cdevice_key ?t" "cdevice_key s"] same by (simp add: wf_cdevices_def)
    moreover have "\<forall>q \<in> set ?ds. Some nm \<noteq> cdevice_key ?t q"
      by (intro ballI) (metis none same)
    then have "Some nm \<notin> cdevice_key ?t ` set ?ds" unfolding image_iff by blast
    ultimately show "inj_on (cdevice_key ?t) (set (?ds @ [?d]))"
      using fresh key by (simp add: image_iff)
  qed (use wf fresh same at in \<open>auto simp: wf_cdevices_def less_Suc_eq\<close>)
  moreover have "cview p ?t nm' = cview p s nm'" if "nm' \<noteq> nm" for nm'
  proof -
    have "List.find (\<lambda>d. cdevice_key ?t d = Some nm') (?ds @ [?d]) = List.find (\<lambda>d. cdevice_key s d = Some nm') ?ds"
    proof -
      have same: "List.find (\<lambda>d. cdevice_key ?t d = Some nm') ?ds = List.find (\<lambda>d. cdevice_key s d = Some nm') ?ds"
        by (rule find_cong_set) (use fresh at in \<open>metis fun_upd_other less_irrefl\<close>)
      show ?thesis
      proof (cases "List.find (\<lambda>d. cdevice_key s d = Some nm') ?ds")
        case None
        with same that at show ?thesis by (simp add: find_append_None)
      next
        case (Some e)
        with same show ?thesis by (simp add: find_append_Some)
      qed
    qed
    then show ?thesis unfolding cview_def list using fresh at
      by (cases "List.find (\<lambda>d. cdevice_key s d = Some nm') ?ds") (auto dest: find_Some_set)
  qed
  ultimately show ?thesis using that [of ?d ?t] u g t2 key by simp
qed

section \<open>Storing a report\<close>

definition store_report :: "cdev_ptr \<Rightarrow> report \<Rightarrow> link_client \<Rightarrow> link_client" where
  "store_report d r = upd_cdevice d
     (\<lambda>x. x\<lparr>cdev_status := fst r, cdev_connect_time := fst (snd r), cdev_no_users := snd (snd r)\<rparr>)"

lemma store_report_same [simp]:
  "server_at (store_report d r s) = server_at s" "g_servers (store_report d r s) = g_servers s"
  "ub (store_report d r s) = ub s" "bad_unlocks (store_report d r s) = bad_unlocks s"
  "servers_locked (store_report d r s) = servers_locked s"
  "c_next_ptr (store_report d r s) = c_next_ptr s"
  by (simp_all add: store_report_def upd_cdevice_def)

lemma store_report_at:
  "cdevice_at (store_report d (st, t, n) s) = (cdevice_at s)(d := (cdevice_at s d)
     \<lparr>cdev_status := st, cdev_connect_time := t, cdev_no_users := n\<rparr>)"
  by (simp add: store_report_def upd_cdevice_def)

lemma store_report_view:
  assumes wf: "wf_cdevices p s" and d: "d \<in> set (devices_controlled (server_at s p))" "cdevice_key s d = Some nm"
  shows "wf_cdevices p (store_report d r s)"
    "cview p (store_report d r s) = (cview p s)(nm \<mapsto> r)"
proof -
  obtain st t n where r: "r = (st, t, n)" by (cases r)
  let ?t = "store_report d r s" and ?ds = "devices_controlled (server_at s p)"
  have key: "cdevice_key ?t e = cdevice_key s e" for e by (simp add: r store_report_at)
  show wft: "wf_cdevices p ?t" 
    using wf inj_on_cong [of _ "cdevice_key ?t" "cdevice_key s"] by (simp add: wf_cdevices_def key)
  show "cview p ?t = (cview p s)(nm \<mapsto> r)"
  proof
    fix nm'
    show "cview p ?t nm' = ((cview p s)(nm \<mapsto> r)) nm'"
    proof (cases "nm' = nm")
      case True
      have "cview p ?t nm = Some (report_of (cdevice_at ?t d))"
        using cview_listed [OF wft] d by (simp add: key)
      with True show ?thesis by (simp add: r store_report_at report_of_def)
    next
      case False
      have "e \<noteq> d" if "List.find (\<lambda>d. cdevice_key s d = Some nm') ?ds = Some e" for e
        using find_Some_set [OF that] d False by auto
      then show ?thesis using False unfolding cview_def store_report_same key
        by (cases "List.find (\<lambda>d. cdevice_key s d = Some nm') ?ds") (simp_all add: r store_report_at)
    qed
  qed
qed

section \<open>Numbers read back\<close>

lemma strtoul_int_back:
  assumes "- (2 ^ 31) \<le> x" "x < 2 ^ 63"
  shows "c_long (fst (strtoul (print_int x @ CHR '' '' # rest))) = x"
proof -
  have "\<not> is_digit b (CHR '' '')" for b
    by (simp add: is_digit_def digit_val_def)
  then have "strtoul (print_int x @ CHR '' '' # rest) = (x mod (ULONG_MAX + 1), CHR '' '' # rest)"
    using assms by (intro strtoul_print_int) simp_all
  then have "c_long (fst (strtoul (print_int x @ CHR '' '' # rest))) = signed_take_bit 63 (take_bit 64 x)"
    by (simp add: c_long_def ULONG_MAX_def take_bit_eq_mod)
  also have "\<dots> = signed_take_bit 63 x" by (simp add: signed_take_bit_take_bit)
  also have "\<dots> = x" using assms by (intro signed_take_bit_int_eq_self) simp_all
  finally show ?thesis .
qed

lemma users_back:
  assumes "n < 2 ^ 32"
  shows "word_of_int (fst (strtoul (print_int (int n)))) = (of_nat n :: 32 word)"
proof -
  have "strtoul (print_int (int n)) = (int n mod (ULONG_MAX + 1), [])"
    using assms strtoul_print_int [of "int n" "[]"] by simp
  then show ?thesis using assms by (simp add: ULONG_MAX_def)
qed

end
