(* ===== verification/Peer.thy ===== *)
theory Peer
  imports Config_File
begin

text \<open>
  The notification peer: \<open>peer/notify.c\<close> and \<open>peer/read_config.c\<close>. It is run once per link
  change, sends one datagram and exits. The datagram always has the size of the whole send
  buffer, whatever the text in it; the bytes behind the text are those the stack held.
\<close>

section \<open>State\<close>

datatype command_t = UP | DOWN

text \<open>The global \<open>g_command\<close> has no initialiser, so it starts as zero, which is \<open>UP\<close>.\<close>

record peer = io +
  peer_debug :: int
  peer_config_file :: "string option"
  g_serv_addr :: "string option"
  g_serv_port :: port
  g_command :: command_t
  g_device :: "string option"

definition peer_boot :: peer where
  "peer_boot = \<lparr>errno = E0, tick = 0, trace = [], ub = False,
     peer_debug = 0,
     peer_config_file = Some ''/etc/link_peer.conf'',
     g_serv_addr = Some ''192.168.55.103'',
     g_serv_port = 9876,
     g_command = UP,
     g_device = None\<rparr>"

section \<open>Command line and configuration\<close>

text \<open>The loop over the arguments; \<open>None\<close> is the early return for a second \<open>-U\<close> or \<open>-D\<close>.\<close>

fun peer_parse_arguments :: "env \<Rightarrow> string list \<Rightarrow> bool \<Rightarrow> peer \<Rightarrow> bool option \<times> peer" where
  "peer_parse_arguments E [] command_set s = (Some command_set, s)"
| "peer_parse_arguments E (cur_arg # args) command_set s =
     (case cur_arg of
        [] \<Rightarrow> (case strdup E cur_arg s of (v, s) \<Rightarrow>
                peer_parse_arguments E args command_set (s\<lparr>g_device := v\<rparr>))
      | c # arg \<Rightarrow>
          if c \<noteq> CHR ''-''
          then (case strdup E cur_arg s of (v, s) \<Rightarrow>
                  peer_parse_arguments E args command_set (s\<lparr>g_device := v\<rparr>))
          else (case arg of
             [] \<Rightarrow> peer_parse_arguments E args command_set s
           | switch # _ \<Rightarrow>
               if switch = CHR ''d''
               then peer_parse_arguments E args command_set (s\<lparr>peer_debug := 1\<rparr>)
               else if switch = CHR ''c''
               then (case args of
                       [] \<Rightarrow> (Some command_set, undefined_if True s)
                     | a # args \<Rightarrow> (case strdup E a s of (v, s) \<Rightarrow>
                         peer_parse_arguments E args command_set (s\<lparr>peer_config_file := v\<rparr>)))
               else if switch = CHR ''U'' \<or> switch = CHR ''D''
               then (if \<not> command_set
                     then peer_parse_arguments E args True
                            (s\<lparr>g_command := (if switch = CHR ''U'' then UP else DOWN)\<rparr>)
                     else (None, set_errno EINVAL s))
               else peer_parse_arguments E args command_set s))"

definition peer_parse_command_line :: "env \<Rightarrow> string list \<Rightarrow> peer \<Rightarrow> int \<times> peer" where
  "peer_parse_command_line E argv s =
     (if length argv = 1 then (0, s)
      else (case peer_parse_arguments E (tl argv) False s of
              (None, s) \<Rightarrow> (-1, s)
            | (Some command_set, s) \<Rightarrow>
                if \<not> command_set then (-1, set_errno EINVAL s) else (0, s)))"

definition PEER_SECTION :: string where
  "PEER_SECTION = ''[Peer]''"

definition set_peer_option :: "env \<Rightarrow> string \<Rightarrow> string \<Rightarrow> peer \<Rightarrow> peer" where
  "set_peer_option E name value s =
     (if strcaseeq name ''debug'' \<and> number_valid value
      then s\<lparr>peer_debug := numeric_value value\<rparr>
      else if strcaseeq name ''serv_addr''
      then (case strdup E value s of (v, s) \<Rightarrow> s\<lparr>g_serv_addr := v\<rparr>)
      else if strcaseeq name ''serv_port'' \<and> number_valid value
      then s\<lparr>g_serv_port := c_ushort (numeric_value value)\<rparr>
      else s)"

text \<open>The peer's copies of the routines of \<open>Config_File\<close> have the same text.\<close>

definition peer_open_config_file :: "file_system \<Rightarrow> string option \<Rightarrow> peer \<Rightarrow> char list option \<times> peer" where
  "peer_open_config_file F config_file s = open_config_file F config_file s"

definition peer_close_config_file :: "file_system \<Rightarrow> peer \<Rightarrow> int \<times> peer" where
  "peer_close_config_file F s = close_config_file F s"

definition peer_parse_line ::
  "env \<Rightarrow> string \<Rightarrow> c_ptr \<Rightarrow> c_ptr \<Rightarrow> peer \<Rightarrow> int \<times> c_ptr \<times> c_ptr \<times> peer" where
  "peer_parse_line E line name value s = parse_line E line name value s"

definition get_peer_section :: "env \<Rightarrow> string \<Rightarrow> peer \<Rightarrow> char list option \<times> peer" where
  "get_peer_section E config_data s = get_section E PEER_SECTION config_data s"

definition parse_peer_section :: "env \<Rightarrow> char list \<Rightarrow> peer \<Rightarrow> int \<times> peer" where
  "parse_peer_section E = parse_options E (set_peer_option E)"

definition peer_read_config :: "env \<Rightarrow> file_system \<Rightarrow> peer \<Rightarrow> int \<times> peer" where
  "peer_read_config E F s =
     read_one_section E F (peer_config_file s) PEER_SECTION (parse_peer_section E) s"

section \<open>The notification\<close>

definition notify_text :: "peer \<Rightarrow> string" where
  "notify_text s = (if g_command s = UP then NOTIFY_ISUP else NOTIFY_ISDOWN)
     @ (case g_device s of None \<Rightarrow> [] | Some d \<Rightarrow> d)"

text \<open>The send buffer: the text, its NUL and what was on the stack behind them.\<close>

definition send_buffer :: "char list \<Rightarrow> peer \<Rightarrow> char list" where
  "send_buffer stack s = take MAX_SEND_BUFFER (notify_text s @ NUL # drop (length (notify_text s) + 1) stack)"

definition serv_address :: "peer \<Rightarrow> sockaddr_in" where
  "serv_address s = \<lparr>sin_addr = (case g_serv_addr s of None \<Rightarrow> 0
       | Some a \<Rightarrow> (case inet_aton a of None \<Rightarrow> 0 | Some x \<Rightarrow> x)), sin_port = g_serv_port s\<rparr>"

text \<open>From \<open>socket\<close> to the end of \<open>main\<close>; the result is whether it exits with success.\<close>

definition notify :: "env \<Rightarrow> int \<Rightarrow> char list \<Rightarrow> peer \<Rightarrow> bool \<times> peer" where
  "notify E socket_fd stack s =
     (if socket_fd < 0 then (False, s)
      else (let s = undefined_if (g_serv_addr s = None) s;
                s = undefined_if (g_device s = None) s;
                s = fits MAX_SEND_BUFFER (notify_text s) s
            in case sendto E (serv_address s) (send_buffer stack s) s of (r, s) \<Rightarrow>
               (r = int MAX_SEND_BUFFER, s)))"

definition peer_main :: "env \<Rightarrow> file_system \<Rightarrow> int \<Rightarrow> char list \<Rightarrow> string list \<Rightarrow> bool \<times> peer" where
  "peer_main E F socket_fd stack argv =
     (case peer_parse_command_line E argv peer_boot of (r, s) \<Rightarrow>
        if r < 0 then (False, s)
        else (case peer_read_config E F s of (r, s) \<Rightarrow>
                if r < 0 then (False, s) else notify E socket_fd stack s))"

section \<open>Arguments without a command\<close>

lemma peer_arguments_without_command:
  "\<forall>a \<in> set args. \<not> starts_with ''-U'' a \<and> \<not> starts_with ''-D'' a \<Longrightarrow>
     \<exists>t. peer_parse_arguments E args b s = (Some b, t) \<and> trace t = trace s"
proof (induction "length args" arbitrary: args s rule: less_induct)
  case less
  show ?case
  proof (cases args)
    case (Cons a rest)
    have rec: "\<exists>t. peer_parse_arguments E xs b u = (Some b, t) \<and> trace t = trace s"
      if "length xs \<le> length rest" "set xs \<subseteq> set rest" "trace u = trace s" for xs u
      using less.hyps [of xs u] less.prems that Cons by (auto simp: less_Suc_eq_le)
    have dup: "\<exists>t. peer_parse_arguments E xs b (f (fst (strdup E v s)) (snd (strdup E v s))) = (Some b, t) \<and> trace t = trace s"
      if "length xs \<le> length rest" "set xs \<subseteq> set rest" "\<And>x u. trace (f x u) = trace u" for xs v f
      by (rule rec [OF that(1,2)]) (simp add: that(3) strdup_def case_prod_beta)
    have noUD: "\<not> starts_with ''-U'' a" "\<not> starts_with ''-D'' a" using less.prems Cons by simp_all
    consider "a = []" | c arg where "a = c # arg" "c \<noteq> CHR ''-''" | "a = ''-''" | w where "a = CHR ''-'' # CHR ''d'' # w"
      | w where "a = CHR ''-'' # CHR ''c'' # w"
      | sw w where "a = CHR ''-'' # sw # w" "sw \<notin> {CHR ''d'', CHR ''c'', CHR ''U'', CHR ''D''}"
      using noUD by (cases a; cases "tl a") (auto simp: starts_with_def)
    then have "\<exists>t. peer_parse_arguments E (a # rest) b s = (Some b, t) \<and> trace t = trace s"
    proof cases
      case 1
      then show ?thesis using dup [of rest "\<lambda>x u. u\<lparr>g_device := x\<rparr>" a] by (simp add: case_prod_beta)
    next
      case 2
      then show ?thesis using dup [of rest "\<lambda>x u. u\<lparr>g_device := x\<rparr>" a] by (simp add: case_prod_beta)
    next
      case 5
      then show ?thesis
        using dup [of "tl rest" "\<lambda>x u. u\<lparr>peer_config_file := x\<rparr>" "hd rest"] list.set_sel(2) [of rest]
        by (cases rest) (auto simp: case_prod_beta)
    qed (use rec [of rest] in simp_all)
    then show ?thesis using Cons by simp
  qed simp
qed

section \<open>What the server receives\<close>

lemma send_buffer_length:
  assumes "length stack = MAX_SEND_BUFFER"
  shows "length (send_buffer stack s) = MAX_SEND_BUFFER"
  using assms by (simp add: send_buffer_def)

lemma send_buffer_string:
  assumes "length (notify_text s) < MAX_SEND_BUFFER" "NUL \<notin> set (notify_text s)"
  shows "c_string (send_buffer stack s) = notify_text s"
proof -
  have "send_buffer stack s = notify_text s @ NUL #
      take (MAX_SEND_BUFFER - Suc (length (notify_text s))) (drop (length (notify_text s) + 1) stack)"
    using assms(1) by (simp add: send_buffer_def take_Cons')
  then show ?thesis using assms(2) by simp
qed

lemma notify_sends:
  assumes "0 \<le> socket_fd" "g_device s = Some d" "g_serv_addr s = Some a"
    "length (notify_text s) < MAX_SEND_BUFFER"
  shows "ub (snd (notify E socket_fd stack s)) = ub s"
    "\<exists>r. trace (snd (notify E socket_fd stack s)) = trace s @ [Sent (serv_address s) (send_buffer stack s) r]"
  using assms
  by (simp_all add: notify_def Let_def case_prod_beta undefined_if_def fits_def sendto_def)

end
