(* ===== verification/System.thy ===== *)
theory System
  imports Server_Program Client_Facts Peer
begin

text \<open>
  The programs together: what the server prints, the client reads; what the peer prints,
  the server reads.
\<close>

section \<open>One status\<close>

text \<open>The report the server's text stands for, and the token the text ends in.\<close>

definition status_report :: "device_t \<Rightarrow> int \<Rightarrow> report" where
  "status_report x now = (if status x = LINK_UP
     then (LINK_UP, c_int (now - connect_time x), of_nat (length (clients_connected x)))
     else (status x, 0, 0))"

definition status_token :: "device_t \<Rightarrow> int \<Rightarrow> string" where
  "status_token x now = tl (g_link_status_message (status x)) @
     (if status x = LINK_UP
      then uptime_text (now - connect_time x) (int (length (clients_connected x))) else [])"

lemma status_text_token: "status_text x now = c_text (device_name x) @ TAB @ status_token x now"
  by (cases "status x") (simp_all add: status_text_def status_token_def protocol_defs)

definition countable_users :: "device_t \<Rightarrow> bool" where
  "countable_users x \<longleftrightarrow> length (clients_connected x) < 2 ^ 32"

lemma read_status_token:
  assumes "countable_users x"
  shows "read_status d (status_token x now) rest s = store_report d (status_report x now) s"
proof (cases "status x")
  case LINK_UP
  let ?t = "c_int (now - connect_time x)" and ?n = "length (clients_connected x)"
  have tok: "status_token x now = ''UP '' @ print_int ?t @ '' '' @ print_int (int ?n)"
    using LINK_UP by (simp add: status_token_def uptime_text_def protocol_defs)
  have "strchr (print_int ?t @ '' '' @ print_int (int ?n)) (CHR '' '') = Some ('' '' @ print_int (int ?n))"
    using print_int_no_space [of ?t] by (subst strchr_def, subst dropWhile_append2) auto
  moreover have "?n < 2 ^ 32" using assms by (simp add: countable_users_def)
  moreover have "- (2 ^ 31) \<le> ?t \<and> ?t < 2 ^ 63" using c_int_bounds [of "now - connect_time x"] by simp
  ultimately show ?thesis
    unfolding read_status_def read_uptime_def tok store_report_def status_report_def
    using LINK_UP by (simp add: starts_with_def strtoul_int_back users_back Let_def)
qed (simp_all add: read_status_def set_cdevice_def store_report_def status_report_def status_token_def
     starts_with_def protocol_defs)

section \<open>A status message\<close>

definition wire_device :: "device_t \<Rightarrow> bool" where
  "wire_device x \<longleftrightarrow> countable_users x \<and>
     (\<exists>nm. device_name x = Some nm \<and> nm \<noteq> [] \<and> set nm \<inter> set delims = {} \<and> NUL \<notin> set nm)"

lemma digits_no_delims: "set (print_int x) \<inter> set delims = {}"
proof -
  have d: "set (print_num n) \<inter> set delims = {}" if "0 \<le> n" for n
    using is_digit_print [of n] that
    by (fastforce simp: delims_def NL_def TAB_def is_digit_def digit_val_def disjoint_iff)
  show ?thesis
    using d [of x] d [of "- x"] by (cases "x < 0") (auto simp: print_int_def delims_def NL_def TAB_def)
qed

lemma status_token_word: "status_token x now \<noteq> []" "set (status_token x now) \<inter> set delims = {}"
proof -
  show "status_token x now \<noteq> []"
    by (cases "status x") (simp_all add: status_token_def protocol_defs)
  have "set (uptime_text t n) \<inter> set delims = {}" for t n
    using digits_no_delims by (auto simp: uptime_text_def delims_def NL_def TAB_def)
  then show "set (status_token x now) \<inter> set delims = {}"
    by (cases "status x") (auto simp: status_token_def protocol_defs delims_def)
qed

definition reports :: "device_t list \<Rightarrow> int \<Rightarrow> (string \<times> report) list" where
  "reports xs now = map (\<lambda>x. (c_text (device_name x), status_report x now)) xs"

lemma process_status_lines:
  assumes "wf_cdevices p s" and E: "\<And>n. e_malloc E n" and "\<forall>x \<in> set xs. wire_device x"
  obtains t where "process_status_message E p (concat (map (\<lambda>x. status_text x now @ NL) xs)) s = (0, t)"
    "wf_cdevices p t" "cview p t = cview p s ++ map_of (rev (reports xs now))" "ub t = ub s"
    "g_servers t = g_servers s" "bad_unlocks t = bad_unlocks s" "servers_locked t = servers_locked s"
  using assms(1,3)
proof (induction xs arbitrary: s thesis)
  case Nil
  then show ?case by (simp add: process_status_message.simps reports_def)
next
  case (Cons x xs)
  let ?m = "concat (map (\<lambda>x. status_text x now @ NL) xs)"
  from Cons.prems(3) obtain nm where nm: "device_name x = Some nm" "nm \<noteq> []" "set nm \<inter> set delims = {}"
    and u: "countable_users x" by (auto simp: wire_device_def)
  have m: "concat (map (\<lambda>x. status_text x now @ NL) (x # xs)) =
      nm @ CHR 0x09 # (status_token x now @ CHR 0x0A # ?m)"
    by (simp add: status_text_token nm TAB_def NL_def)
  have 1: "strtok delims (nm @ CHR 0x09 # (status_token x now @ CHR 0x0A # ?m)) =
      Some (nm, status_token x now @ CHR 0x0A # ?m)"
    using nm by (intro strtok_word) (auto simp: delims_def NL_def TAB_def)
  have 2: "strtok delims (status_token x now @ CHR 0x0A # ?m) = Some (status_token x now, ?m)"
    using status_token_word [of x now] by (intro strtok_word) (auto simp: delims_def NL_def TAB_def)
  from find_or_add_spec [OF Cons.prems(2) E, of nm] obtain d t where
    t: "find_or_add_cdevice E p nm s = (Some d, t)" "wf_cdevices p t" "ub t = ub s"
      "d \<in> set (devices_controlled (server_at t p))" "cdevice_key t d = Some nm"
      "\<And>nm'. nm' \<noteq> nm \<Longrightarrow> cview p t nm' = cview p s nm'" "g_servers t = g_servers s"
      "bad_unlocks t = bad_unlocks s" "servers_locked t = servers_locked s" by blast
  let ?r = "status_report x now"
  have step: "process_status_message E p (concat (map (\<lambda>x. status_text x now @ NL) (x # xs))) s
      = process_status_message E p ?m (store_report d ?r t)"
    by (subst process_status_message.simps)
       (simp only: m 1 2 t option.case prod.case read_status_token [OF u])
  have v: "wf_cdevices p (store_report d ?r t)" "cview p (store_report d ?r t) = (cview p s)(nm \<mapsto> ?r)"
    using store_report_view [OF t(2,4,5), of ?r] t(6) by (auto simp: fun_eq_iff)
  have "\<forall>x \<in> set xs. wire_device x" using Cons.prems(3) by simp
  from Cons.IH [OF _ v(1) this] obtain t' where
    t': "process_status_message E p ?m (store_report d ?r t) = (0, t')" "wf_cdevices p t'"
      "cview p t' = cview p (store_report d ?r t) ++ map_of (rev (reports xs now))" "ub t' = ub t"
      "g_servers t' = g_servers t" "bad_unlocks t' = bad_unlocks t" "servers_locked t' = servers_locked t"
    by auto
  have "cview p t' = cview p s ++ map_of (rev (reports (x # xs) now))"
    by (simp add: t' v reports_def nm map_add_def fun_eq_iff split: option.splits)
  with t' t step Cons.prems(1) [of t'] show ?case by simp
qed

section \<open>The broadcast\<close>

lemma status_token_no_NUL: "NUL \<notin> set (status_token x now)"
proof -
  have "NUL \<notin> set (print_num n)" if "0 \<le> n" for n
    using is_digit_print [of n NUL] that by (auto simp: is_digit_def digit_val_def NUL_def)
  then have "NUL \<notin> set (print_int n)" for n by (simp add: print_int_def) (simp add: NUL_def)
  then show ?thesis
    by (cases "status x") (auto simp: status_token_def uptime_text_def protocol_defs NUL_def)
qed

definition status_message :: "device_t list \<Rightarrow> int \<Rightarrow> string" where
  "status_message xs now = BROADCAST_STATUS @ concat (map (\<lambda>x. status_text x now @ NL) xs)"

lemma status_message_is_broadcast:
  "status_broadcast_text S now = status_message (map (device_at S) (g_devices S)) now"
  by (simp add: status_broadcast_text_def status_message_def o_def)

lemma status_message_c_string:
  assumes "\<forall>x \<in> set xs. wire_device x"
  shows "c_string (status_message xs now) = status_message xs now"
proof -
  have "NUL \<notin> set (status_text x now)" if "x \<in> set xs" for x
    using assms that status_token_no_NUL [of x now]
    by (auto simp: wire_device_def status_text_token TAB_def NUL_def)
  then have "NUL \<notin> set (status_message xs now)"
    by (auto simp: status_message_def protocol_defs NUL_def)
  then show ?thesis by simp
qed

lemma status_broadcast_read:
  assumes E: "\<And>n. e_malloc E n" and xs: "\<forall>x \<in> set xs. wire_device x"
    and len: "length (status_message xs now) < MAX_RECV_BUFFER"
    and known: "List.find (\<lambda>p. server_key s p = sin_addr a) (g_servers s) = Some p"
    and wf: "wf_cdevices p s" and mutex: "\<not> servers_locked s"
  obtains t where "client_process_command E (Broadcast a (status_message xs now)) s = (0, t)"
    "wf_cdevices p t" "cview p t = cview p s ++ map_of (rev (reports xs now))"
    "ub t = ub s" "g_servers t = g_servers s" "bad_unlocks t = bad_unlocks s + 2"
proof -
  define u where "u = upd_server p (\<lambda>x. x\<lparr>srv_last_heard_from := fst (time_now E (lock_servers s))\<rparr>)
      (snd (time_now E (lock_servers s)))"
  define v where "v = unlock_servers (unlock_servers u)"
  have u: "server_at u = (server_at s)(p := (server_at s p)
        \<lparr>srv_last_heard_from := fst (time_now E (lock_servers s))\<rparr>)"
    "cdevice_at u = cdevice_at s" "g_servers u = g_servers s" "c_next_ptr u = c_next_ptr s"
    "servers_locked u" "bad_unlocks u = bad_unlocks s" "ub u = ub s"
    by (simp_all add: u_def lock_servers_def)
  then have v: "server_at v = server_at u" "cdevice_at v = cdevice_at s" "g_servers v = g_servers s"
    "c_next_ptr v = c_next_ptr s" "\<not> servers_locked v" "bad_unlocks v = bad_unlocks s + 1" "ub v = ub s"
    by (simp_all add: v_def unlock_servers_def)
  have "devices_controlled (server_at v p) = devices_controlled (server_at s p)"
    by (simp add: v u)
  then have wfv: "wf_cdevices p v" and cv: "cview p v = cview p s"
    using wf v(2,4) cview_cong [of v p s] by (simp_all add: wf_cdevices_def)
  from process_status_lines [OF wfv E xs, where now = now] obtain t where
    t: "process_status_message E p (concat (map (\<lambda>x. status_text x now @ NL) xs)) v = (0, t)"
      "wf_cdevices p t" "cview p t = cview p v ++ map_of (rev (reports xs now))" "ub t = ub v"
      "g_servers t = g_servers v" "bad_unlocks t = bad_unlocks v" "servers_locked t = servers_locked v" .
  let ?m = "status_message xs now"
  have st: "starts_with BROADCAST_STATUS ?m" "\<not> starts_with BROADCAST_INIT ?m" "\<not> starts_with BROADCAST_QUIT ?m"
    "drop (length BROADCAST_STATUS) ?m = concat (map (\<lambda>x. status_text x now @ NL) xs)"
    by (simp_all add: status_message_def starts_with_def protocol_defs)
  let ?t = "unlock_servers t"
  have tl: "\<not> servers_locked t" "bad_unlocks t = bad_unlocks s + 1" using t v by simp_all
  have "server_broadcast E p ?m (unlock_servers u) = (0, ?t)"
    unfolding server_broadcast_def using st t(1) by (simp add: v_def)
  then have "client_process_command E (Broadcast a ?m) s = (0, ?t)"
    using len known status_message_c_string [OF xs]
    by (simp add: client_process_command_def find_or_add_server_def get_server_find case_prod_beta
        undefined_if_def Let_def flip: u_def)
  moreover have "server_at ?t = server_at t" "cdevice_at ?t = cdevice_at t" "c_next_ptr ?t = c_next_ptr t"
    by (simp_all add: unlock_servers_def)
  then have "wf_cdevices p ?t \<and> cview p ?t = cview p t"
    using t(2) cview_cong [of ?t p t] by (simp add: wf_cdevices_def)
  moreover have "bad_unlocks ?t = bad_unlocks s + 2" "ub ?t = ub s" "g_servers ?t = g_servers s"
    using tl t v by (simp_all add: unlock_servers_def)
  ultimately show ?thesis using that [of ?t] t cv by simp
qed

section \<open>The notification\<close>

text \<open>
  The peer's datagram fills the server's buffer: the text is read right, but the
  terminator is written outside.
\<close>

lemma notification_delivered:
  assumes "length stack = MAX_SEND_BUFFER" "length (notify_text p) < MAX_SEND_BUFFER" "NUL \<notin> set (notify_text p)"
  shows "process_command E (Packet a (send_buffer stack p)) s = process_peer E (notify_text p) (undefined_if True s)"
proof -
  have "received (send_buffer stack p) = send_buffer stack p"
    "\<not> length (send_buffer stack p) < MAX_RECV_BUFFER"
    using send_buffer_length [OF assms(1), of p] by (simp_all add: received_def MAX_SEND_BUFFER_def MAX_RECV_BUFFER_def)
  moreover have "\<not> starts_with CLIENT_PREFIX (notify_text p)" "starts_with NOTIFY_PREFIX (notify_text p)"
    by (cases "g_command p"; simp add: notify_text_def starts_with_def protocol_defs)+
  ultimately show ?thesis
    by (simp add: process_command_def send_buffer_string [OF assms(2,3)] Let_def)
qed

text \<open>What it does then.\<close>

lemma notification_handled:
  assumes "g_device p = Some nm" "get_device (g_devices s) (Some nm) s = (Some d, s)"
  shows "process_peer E (notify_text p) s =
    (if g_command p = UP then (0, snd (alter_device_status E d LINK_UP s)) else alter_device_status E d LINK_DOWN s)"
proof (cases "g_command p")
  case UP
  then show ?thesis using assms
    by (simp add: process_peer_def notify_text_def case_prod_beta)
next
  case DOWN
  have "\<not> starts_with NOTIFY_ISUP (NOTIFY_ISDOWN @ nm)" by (simp add: starts_with_def protocol_defs)
  then show ?thesis using DOWN assms
    by (simp add: process_peer_def notify_text_def)
qed

end
