(* ===== verification/Samples.thy ===== *)
theory Samples
  imports System
begin

text \<open>
  Concrete states on which the properties of the root theory are instantiated: a server
  that has read a configuration of two devices, and one with a client connected.
\<close>

definition here :: env where
  "here = calm_env (\<lambda>_. 1000)"

definition host :: "in_addr \<Rightarrow> sockaddr_in" where
  "host a = \<lparr>sin_addr = a, sin_port = 5000\<rparr>"

definition modem :: "string \<Rightarrow> device_t" where
  "modem nm = zero_device\<lparr>device_name := Some nm, device_description := Some ''A modem'',
     link_up_command := Some (''pon '' @ nm), link_down_command := Some (''poff '' @ nm),
     link_force_down_command := Some (''poff -f '' @ nm)\<rparr>"

definition idle_server :: server where
  "idle_server = boot\<lparr>g_devices := [1, 2], next_ptr := 3,
     device_at := (\<lambda>_. zero_device)(1 := modem ''ppp0'', 2 := modem ''ppp1'')\<rparr>"

definition busy_server :: server where
  "busy_server = idle_server\<lparr>g_clients := [3], next_ptr := 4,
     client_live := (\<lambda>_. False)(3 := True),
     client_at := (\<lambda>_. zero_client)(3 := \<lparr>sa = host 10, last_heard_from = 900, devices_connected = [1]\<rparr>),
     device_at := (device_at idle_server)(1 := (modem ''ppp0'')
       \<lparr>status := LINK_UP, connect_time := 700, clients_connected := [3], retries := 2\<rparr>)\<rparr>"

lemma here_simps [simp]:
  "e_time here n = 1000" "e_malloc here n" "e_system here n c = 0" "e_sendto here n a m = int (length m)"
  "well_behaved here"
  by (simp_all add: here_def calm_env_def well_behaved_def)

lemma steady_here [simp]: "steady_clock here"
  by (simp add: steady_clock_def)

lemma idle_server_simps [simp]:
  "g_devices idle_server = [1, 2]" "g_clients idle_server = []" "conf idle_server = default_conf"
  "\<not> ub idle_server" "next_ptr idle_server = 3" "running idle_server"
  "device_at idle_server (Suc 0) = modem ''ppp0''" "device_at idle_server 2 = modem ''ppp1''"
  by (simp_all add: idle_server_def boot_def running_def)

lemma modem_simps [simp]:
  "device_name (modem nm) = Some nm" "device_description (modem nm) = Some ''A modem''"
  "status (modem nm) = LINK_DOWN" "clients_connected (modem nm) = []"
  "link_up_command (modem nm) = Some (''pon '' @ nm)" "link_down_command (modem nm) = Some (''poff '' @ nm)"
  "link_force_down_command (modem nm) = Some (''poff -f '' @ nm)"
  by (simp_all add: modem_def zero_device_def)

lemma idle_server_configured [simp]: "configured idle_server" "described idle_server"
  by (simp_all add: configured_def wf_devices_def described_def)

lemma idle_server_wf [simp]: "wf_server idle_server"
  by (rule configured_wf) simp

lemma busy_server_simps [simp]:
  "g_devices busy_server = [1, 2]" "g_clients busy_server = [3]" "conf busy_server = default_conf"
  "\<not> ub busy_server" "running busy_server" "tick busy_server = 0" "trace busy_server = []"
  "device_at busy_server (Suc 0) = (modem ''ppp0'')
       \<lparr>status := LINK_UP, connect_time := 700, clients_connected := [3], retries := 2\<rparr>"
  "device_at busy_server 2 = modem ''ppp1''"
  "client_at busy_server 3 = \<lparr>sa = host 10, last_heard_from = 900, devices_connected = [1]\<rparr>"
  "client_live busy_server 3" "next_ptr busy_server = 4"
  by (simp_all add: busy_server_def idle_server_def boot_def running_def)

lemma default_conf_simps [simp]:
  "g_retries default_conf = 2" "g_client_timeout default_conf = 2400" "g_multicast_group default_conf = ''239.255.42.42''"
  "g_multicast_port default_conf = 6789"
  by (simp_all add: default_conf_def)

lemma busy_server_consistent [simp]: "consistent busy_server"
  by (simp add: consistent_def wf_defs symmetric_links_def demand_matches_def)

lemma busy_server_wf [simp]: "wf_server busy_server"
  using consistentD(1) by simp

text \<open>Ten clients share one device whose connection lies in the future of the clock.\<close>

definition crowd :: "cli_ptr list" where
  "crowd = [10, 11, 12, 13, 14, 15, 16, 17, 18, 19]"

definition crowded_server :: server where
  "crowded_server = idle_server\<lparr>g_clients := crowd, next_ptr := 20,
     client_live := (\<lambda>c. c \<in> set crowd),
     client_at := (\<lambda>c. \<lparr>sa = host (of_nat c), last_heard_from = 900, devices_connected = [1]\<rparr>),
     device_at := (device_at idle_server)(1 := (modem ''ppp0'')
       \<lparr>status := LINK_UP, connect_time := 2000001000, clients_connected := crowd, retries := 2\<rparr>)\<rparr>"

lemma crowded_server_simps [simp]:
  "g_devices crowded_server = [1, 2]" "g_clients crowded_server = crowd" "\<not> ub crowded_server"
  "device_at crowded_server (Suc 0) = (modem ''ppp0'')
       \<lparr>status := LINK_UP, connect_time := 2000001000, clients_connected := crowd, retries := 2\<rparr>"
  "length crowd = 10"
  by (simp_all add: crowded_server_def crowd_def)

lemma crowded_server_wf [simp]: "wf_server crowded_server"
  by (simp add: wf_defs crowded_server_def crowd_def host_def)

text \<open>Four short device sections, a client that knows one server, a peer.\<close>

definition four_sections :: "(string \<times> string) list list" where
  "four_sections = map (\<lambda>nm. [(''name'', nm)]) [''a'', ''b'', ''c'', ''d'']"

definition acquainted_client :: link_client where
  "acquainted_client = client_boot\<lparr>g_servers := [1], c_next_ptr := 2, server_live := (\<lambda>_. False)(1 := True),
     server_at := (\<lambda>_. zero_server)(1 := zero_server\<lparr>srv_sa := host 7\<rparr>)\<rparr>"

definition notifier :: peer where
  "notifier = peer_boot\<lparr>g_device := Some ''ppp0'', g_command := DOWN\<rparr>"

end
