(* ===== verification/Status_Machine.thy ===== *)
theory Status_Machine
  imports Samples
begin

text \<open>
  The relation \<open>status_step\<close> is what the code does: every accepted request makes one of its
  steps, and every step is made by some accepted request, shown on concrete states.
\<close>

definition accepted_change :: "device_status_t \<Rightarrow> device_status_t \<Rightarrow> bool" where
  "accepted_change x y \<longleftrightarrow> (\<exists>E d new s. wf_server s \<and> status (device_at s d) = x
     \<and> fst (alter_device_status E d new s) = 0
     \<and> status (device_at (snd (alter_device_status E d new s)) d) = y)"

definition dialled :: "device_status_t \<Rightarrow> int \<Rightarrow> server" where
  "dialled st left = upd_device 1 (\<lambda>x. x\<lparr>status := st, retries := left\<rparr>) idle_server"

lemma dialled_simps [simp]:
  "status (device_at (dialled st left) (Suc 0)) = st" "wf_server (dialled st left)"
  "retries (device_at (dialled st left) (Suc 0)) = left" "conf (dialled st left) = default_conf"
proof -
  show "wf_server (dialled st left)" by (simp add: dialled_def wf_defs)
qed (simp_all add: dialled_def)

lemma accepted_by:
  assumes "\<not> refused new x" "next_status 1 new (dialled x left) = y"
  shows "accepted_change x y"
proof -
  have n: "\<not> refused new (status (device_at (dialled x left) 1))" using assms(1) by simp
  note a = wb_alter_fields [OF here_simps(5) dialled_simps(2) n]
  show ?thesis unfolding accepted_change_def
    by (rule exI [of _ here], rule exI [of _ 1], rule exI [of _ new], rule exI [of _ "dialled x left"])
       (use a assms(2) in simp)
qed

lemma status_step_accepted: "status_step x y \<Longrightarrow> accepted_change x y"
proof (induction rule: status_step.induct)
  case dial
  show ?case by (rule accepted_by [of LINK_CONNECTING _ 2]) (simp_all add: next_status_def exhausted_def)
next
  case redial
  show ?case by (rule accepted_by [of LINK_CONNECTING _ 2]) (simp_all add: next_status_def exhausted_def)
next
  case redial_dropped
  show ?case by (rule accepted_by [of LINK_CONNECTING _ 2]) (simp_all add: next_status_def exhausted_def)
next
  case established
  show ?case by (rule accepted_by [of LINK_UP _ 2]) (simp_all add: next_status_def)
next
  case hang_up
  show ?case by (rule accepted_by [of LINK_DISCONNECTING _ 2]) (simp_all add: next_status_def)
next
  case give_up_dialing
  show ?case by (rule accepted_by [of LINK_DISCONNECTING _ 2]) (simp_all add: next_status_def)
qed (rule accepted_by [of LINK_DOWN _ 2]; simp add: next_status_def)+

lemma accepted_status_step: "accepted_change x y \<Longrightarrow> status_step x y"
proof -
  assume "accepted_change x y"
  then obtain E d new s where s: "wf_server s" "status (device_at s d) = x"
    "fst (alter_device_status E d new s) = 0" "status (device_at (snd (alter_device_status E d new s)) d) = y"
    unfolding accepted_change_def by blast
  with alter_outcome [OF s(1), of E d new] have "next_status d new s = y" "\<not> refused new (status (device_at s d))"
    by simp_all
  with next_status_step [of new s d] s(2) show "status_step x y" by simp
qed

end
