(* ===== verification/Linked_List.thy ===== *)
theory Linked_List
  imports Server_Lists Client_Lists
begin

text \<open>
  The linked lists as the C code has them: nodes in memory with a \<open>next\<close> and a \<open>data\<close>
  pointer, walked by loops. The functions here are the bodies of \<open>get_\<close>, \<open>add_\<close> and \<open>rm_\<close> in
  \<open>server/list_fns.c\<close> and \<open>linux_client/list_fns.c\<close>, which differ in the type of the data
  only. A result \<open>None\<close> is a read through a dangling pointer or a loop without end. The
  refinement theorems show that on a well-formed chain of nodes none of this happens and
  that the functions on lists used by the rest of the development are what the nodes
  implement.
\<close>

section \<open>Nodes\<close>

text \<open>Address 0 is NULL; an address that is not in the map is not allocated.\<close>

record 'p list_node =
  n_next :: nat
  n_data :: 'p

type_synonym 'p node_heap = "nat \<Rightarrow> 'p list_node option"

text \<open>The list of (node, data) pairs that start at an address.\<close>

fun chain :: "'p node_heap \<Rightarrow> nat \<Rightarrow> (nat \<times> 'p) list \<Rightarrow> bool" where
  "chain h p [] = (p = 0)"
| "chain h p ((a, d) # xs) = (p = a \<and> a \<noteq> 0 \<and>
     (case h a of None \<Rightarrow> False | Some x \<Rightarrow> n_data x = d \<and> chain h (n_next x) xs))"

section \<open>The operations\<close>

partial_function (option) node_lookup :: "'p node_heap \<Rightarrow> ('p \<Rightarrow> bool) \<Rightarrow> nat \<Rightarrow> 'p option option" where
  "node_lookup h P list_pos =
     (if list_pos = 0 then Some None
      else (case h list_pos of None \<Rightarrow> None
            | Some x \<Rightarrow> if P (n_data x) then Some (Some (n_data x)) else node_lookup h P (n_next x)))"

text \<open>The loop to the last node; \<open>Some None\<close> when it meets the new data on its way.\<close>

partial_function (option) last_node :: "'p node_heap \<Rightarrow> 'p \<Rightarrow> nat \<Rightarrow> nat option option" where
  "last_node h new_data list_pos =
     (case h list_pos of None \<Rightarrow> None
      | Some x \<Rightarrow> if n_next x = 0 then Some (Some list_pos)
                 else if n_data x = new_data then Some None
                 else last_node h new_data (n_next x))"

text \<open>
  The first component of a result is the \<open>errno\<close> of a failure. \<open>entry\<close> is what \<open>malloc\<close>
  returned for the new node.
\<close>

definition node_add ::
  "'p node_heap \<Rightarrow> ('p \<Rightarrow> bool) \<Rightarrow> nat \<Rightarrow> 'p \<Rightarrow> nat option \<Rightarrow> (errno option \<times> 'p node_heap \<times> nat) option" where
  "node_add h same_key root new_data entry =
     (case node_lookup h same_key root of
        None \<Rightarrow> None
      | Some (Some _) \<Rightarrow> Some (Some EALREADY, h, root)
      | Some None \<Rightarrow>
          (case entry of
             None \<Rightarrow> Some (Some ENOMEM, h, root)
           | Some e \<Rightarrow>
               let h = h(e \<mapsto> \<lparr>n_next = 0, n_data = new_data\<rparr>)
               in if root = 0 then Some (None, h, e)
                  else (case last_node h new_data root of
                          None \<Rightarrow> None
                        | Some None \<Rightarrow> Some (Some EALREADY, h(e := None), root)
                        | Some (Some l) \<Rightarrow>
                            (case h l of None \<Rightarrow> None
                             | Some x \<Rightarrow> Some (None, h(l \<mapsto> x\<lparr>n_next := e\<rparr>), root)))))"

partial_function (option) unlink_after :: "'p node_heap \<Rightarrow> 'p \<Rightarrow> nat \<Rightarrow> nat \<Rightarrow> 'p node_heap option option" where
  "unlink_after h dev prev_pos list_pos =
     (if list_pos = 0 then Some None
      else (case h list_pos of None \<Rightarrow> None
            | Some x \<Rightarrow>
                if n_data x = dev
                then (case h prev_pos of None \<Rightarrow> None
                      | Some y \<Rightarrow> Some (Some ((h(prev_pos \<mapsto> y\<lparr>n_next := n_next x\<rparr>))(list_pos := None))))
                else unlink_after h dev list_pos (n_next x)))"

definition node_rm :: "'p node_heap \<Rightarrow> nat \<Rightarrow> 'p \<Rightarrow> (errno option \<times> 'p node_heap \<times> nat) option" where
  "node_rm h root dev =
     (if root = 0 then Some (Some ENODEV, h, root)
      else (case h root of None \<Rightarrow> None
            | Some x \<Rightarrow>
                if n_data x = dev then Some (None, h(root := None), n_next x)
                else (case unlink_after h dev root (n_next x) of
                        None \<Rightarrow> None
                      | Some None \<Rightarrow> Some (Some ENODEV, h, root)
                      | Some (Some h) \<Rightarrow> Some (None, h, root))))"

text \<open>\<open>rm_server\<close> of the client, which forgets the rest of the list with its root.\<close>

definition node_rm_server :: "'p node_heap \<Rightarrow> nat \<Rightarrow> 'p \<Rightarrow> (errno option \<times> 'p node_heap \<times> nat) option" where
  "node_rm_server h root server =
     (if root = 0 then Some (Some ENODEV, h, root)
      else (case h root of None \<Rightarrow> None
            | Some x \<Rightarrow>
                if n_data x = server then Some (None, h(root := None), 0)
                else (case unlink_after h server root (n_next x) of
                        None \<Rightarrow> None
                      | Some None \<Rightarrow> Some (Some ENODEV, h, root)
                      | Some (Some h) \<Rightarrow> Some (None, h, root))))"

text \<open>
  The loop of \<open>remove_all_clients_from_device\<close> and \<open>remove_all_devices_from_client\<close>, which
  unlinks the head through the loop variable itself.
\<close>

partial_function (option) node_drop_all :: "'p node_heap \<Rightarrow> nat \<Rightarrow> (int \<times> 'p node_heap) option" where
  "node_drop_all h list_pos =
     (if list_pos = 0 then Some (0, h)
      else (case h list_pos of None \<Rightarrow> None
            | Some x \<Rightarrow>
                (case node_rm h list_pos (n_data x) of
                   None \<Rightarrow> None
                 | Some (Some _, h, _) \<Rightarrow> Some (-1, h)
                 | Some (None, h, _) \<Rightarrow> node_drop_all h (n_next x))))"

declare node_lookup.simps [code] last_node.simps [code] unlink_after.simps [code] node_drop_all.simps [code]

section \<open>Chains\<close>

lemma chain_ConsE:
  assumes "chain h p (x # xs)"
  obtains y where "p = fst x" "fst x \<noteq> 0" "h (fst x) = Some y" "n_data y = snd x" "chain h (n_next y) xs"
  using assms by (cases x; cases "h (fst x)") auto

lemma chain_ConsI:
  "h p = Some y \<Longrightarrow> p \<noteq> 0 \<Longrightarrow> n_data y = d \<Longrightarrow> chain h (n_next y) xs \<Longrightarrow> chain h p ((p, d) # xs)"
  by simp

text \<open>Chains that share no node do not disturb each other.\<close>

lemma chain_frame: "\<forall>a \<in> fst ` set xs. g a = h a \<Longrightarrow> chain g p xs = chain h p xs"
  by (induction xs arbitrary: p) (auto split: option.splits)

lemma chain_update: "a \<notin> fst ` set xs \<Longrightarrow> chain (h(a := v)) p xs = chain h p xs"
  by (rule chain_frame) auto

lemma chain_append:
  fixes h :: "'p node_heap"
  shows "chain h p (xs @ (a, d) # ys) \<Longrightarrow> chain h a ((a, d) # ys)"
proof (induction xs arbitrary: p)
  case (Cons x xs)
  then obtain y :: "'p list_node" where "chain h (n_next y) (xs @ (a, d) # ys)"
    by (auto elim: chain_ConsE simp del: chain.simps)
  then show ?case by (rule Cons.IH)
qed simp

lemma chain_start: "chain h p xs \<Longrightarrow> p = (case xs of [] \<Rightarrow> 0 | x # _ \<Rightarrow> fst x)"
  by (cases xs) auto

lemma chain_unique: "chain h p xs \<Longrightarrow> chain h p ys \<Longrightarrow> xs = ys"
proof (induction xs arbitrary: p ys)
  case Nil
  then show ?case by (cases ys) auto
next
  case (Cons x xs)
  then show ?case by (cases x; cases ys) (auto split: option.splits)
qed

lemma chain_distinct:
  fixes h :: "'p node_heap"
  shows "chain h p xs \<Longrightarrow> distinct (map fst xs)"
proof (induction xs arbitrary: p)
  case (Cons x xs)
  from Cons.prems obtain y :: "'p list_node" where y: "p = fst x" "chain h (n_next y) xs"
    by (auto elim: chain_ConsE simp del: chain.simps)
  have "fst x \<notin> fst ` set xs"
  proof
    assume "fst x \<in> fst ` set xs"
    then obtain e where "(fst x, e) \<in> set xs" by auto
    then obtain us vs where s: "xs = us @ (fst x, e) # vs" by (auto simp: in_set_conv_decomp)
    have "chain h (fst x) ((fst x, e) # vs)" by (rule chain_append [OF y(2) [unfolded s]])
    with Cons.prems y(1) have "(fst x, e) # vs = x # xs" using chain_unique by blast
    with s show False by simp
  qed
  with Cons.IH [OF y(2)] show ?case by simp
qed simp

lemma chain_allocated: "chain h p xs \<Longrightarrow> fst ` set xs \<subseteq> dom h"
proof (induction xs arbitrary: p)
  case (Cons x xs)
  then show ?case by (elim chain_ConsE) auto
qed simp

lemma chain_not_null: "chain h p xs \<Longrightarrow> 0 \<notin> fst ` set xs"
proof (induction xs arbitrary: p)
  case (Cons x xs)
  then show ?case by (elim chain_ConsE) auto
qed simp

section \<open>Lookup\<close>

lemma node_lookup_find: "chain h p xs \<Longrightarrow> node_lookup h P p = Some (List.find P (map snd xs))"
proof (induction xs arbitrary: p)
  case Nil
  then show ?case by (simp add: node_lookup.simps)
next
  case (Cons x xs)
  from Cons.prems show ?case
    by (rule chain_ConsE) (simp add: node_lookup.simps [of h P "fst x"] Cons.IH)
qed

section \<open>Appending\<close>

lemma last_node_result:
  assumes "chain h p xs" "xs \<noteq> []"
  shows "last_node h v p = Some (if v \<in> set (butlast (map snd xs)) then None else Some (fst (last xs)))"
  using assms
proof (induction xs arbitrary: p)
  case (Cons x xs)
  from Cons.prems(1) obtain y where y: "p = fst x" "h (fst x) = Some y" "n_data y = snd x"
    "chain h (n_next y) xs" by (rule chain_ConsE)
  show ?case
  proof (cases "xs = []")
    case True
    then show ?thesis using y by (simp add: last_node.simps [of h v "fst x"])
  next
    case False
    then have "n_next y \<noteq> 0" using chain_start [OF y(4)] y(4) by (cases xs) auto
    then show ?thesis using False y Cons.IH [OF y(4) False] by (simp add: last_node.simps [of h v "fst x"])
  qed
qed simp

lemma chain_extend:
  assumes "chain h p xs" "xs \<noteq> []" "e \<notin> fst ` set xs" "e \<noteq> 0"
    "h e = Some \<lparr>n_next = 0, n_data = v\<rparr>" "h (fst (last xs)) = Some x"
  shows "chain (h(fst (last xs) \<mapsto> x\<lparr>n_next := e\<rparr>)) p (xs @ [(e, v)])"
  using assms
proof (induction xs arbitrary: p)
  case (Cons y ys)
  obtain a d where y: "y = (a, d)" by (cases y)
  from Cons.prems(1) y obtain z where z: "p = a" "a \<noteq> 0" "h a = Some z" "n_data z = d" "chain h (n_next z) ys"
    by (elim chain_ConsE) auto
  show ?case
  proof (cases "ys = []")
    case True
    then show ?thesis using Cons.prems y z by auto
  next
    case False
    have "a \<notin> fst ` set ys" using chain_distinct [OF Cons.prems(1)] y by simp
    then have "fst (last ys) \<noteq> a" using False last_in_set by force
    then show ?thesis using Cons.IH [OF z(5) False] Cons.prems y z False by simp
  qed
qed simp

text \<open>What adding a node does to the heap, in each of the four cases.\<close>

definition add_error :: "('p \<Rightarrow> bool) \<Rightarrow> 'p list \<Rightarrow> 'p \<Rightarrow> nat option \<Rightarrow> errno option" where
  "add_error same_key ds v entry =
     (if List.find same_key ds \<noteq> None then Some EALREADY
      else if entry = None then Some ENOMEM
      else if v \<in> set (butlast ds) then Some EALREADY else None)"

lemma node_add_fails:
  assumes c: "chain h root xs" and e: "\<And>e. entry = Some e \<Longrightarrow> e \<noteq> 0 \<and> h e = None"
    and err: "add_error P (map snd xs) v entry = Some er"
  shows "node_add h P root v entry = Some (Some er, h, root)"
proof (cases "List.find P (map snd xs) \<noteq> None \<or> entry = None")
  case True
  then show ?thesis using node_lookup_find [OF c, of P] err
    by (auto simp: node_add_def add_error_def split: option.splits)
next
  case False
  then obtain n where n: "entry = Some n" "n \<noteq> 0" "h n = None" using e by auto
  let ?h = "h(n \<mapsto> \<lparr>n_next = 0, n_data = v\<rparr>)"
  have v: "v \<in> set (butlast (map snd xs))" "er = EALREADY"
    using err False by (auto simp: add_error_def split: if_splits)
  then have ne: "xs \<noteq> []" by auto
  have "n \<notin> fst ` set xs" using chain_allocated [OF c] n(3) by auto
  then have "chain ?h root xs" using c by (simp add: chain_update)
  from last_node_result [OF this ne, of v] v have l: "last_node ?h v root = Some None" by simp
  have "root \<noteq> 0" using c ne by (cases xs) auto
  moreover have "?h(n := None) = h" using n(3) by auto
  ultimately show ?thesis using False n l v(2) node_lookup_find [OF c, of P]
    by (simp add: node_add_def)
qed

lemma node_add_succeeds:
  assumes c: "chain h root xs" and e: "\<And>e. entry = Some e \<Longrightarrow> e \<noteq> 0 \<and> h e = None"
    and err: "add_error P (map snd xs) v entry = None"
  obtains h' root' n where "entry = Some n" "node_add h P root v entry = Some (None, h', root')"
    "chain h' root' (xs @ [(n, v)])" "\<forall>a. a \<notin> fst ` set xs \<and> a \<noteq> n \<longrightarrow> h' a = h a"
proof -
  from err obtain n where n: "entry = Some n" and f: "List.find P (map snd xs) = None"
    and v: "v \<notin> set (butlast (map snd xs))" by (auto simp: add_error_def split: if_splits)
  note n' = e [OF n]
  let ?h = "h(n \<mapsto> \<lparr>n_next = 0, n_data = v\<rparr>)"
  have nx: "n \<notin> fst ` set xs" using chain_allocated [OF c] n' by auto
  then have c': "chain ?h root xs" using c by (simp add: chain_update)
  note l = node_lookup_find [OF c, of P]
  show ?thesis
  proof (cases "xs = []")
    case True
    then have "node_add h P root v entry = Some (None, ?h, n)"
      using f l c n by (simp add: node_add_def)
    then show ?thesis using True n n' by (intro that [of n ?h n]) auto
  next
    case ne: False
    then have r: "root \<noteq> 0" using c by (cases xs) auto
    have "fst (last xs) \<in> dom h" using chain_allocated [OF c] last_in_set [OF ne] by blast
    then obtain x where x: "h (fst (last xs)) = Some x" by auto
    then have ln1: "fst (last xs) \<noteq> n" using n' by auto
    let ?h' = "?h(fst (last xs) \<mapsto> x\<lparr>n_next := n\<rparr>)"
    have "node_add h P root v entry = Some (None, ?h', root)"
      using f l n r last_node_result [OF c' ne, of v] v x ln1 by (simp add: node_add_def)
    moreover have "chain ?h' root (xs @ [(n, v)])"
      using chain_extend [OF c' ne nx, of v x] n' x ln1 by simp
    ultimately show ?thesis using n ne by (intro that [of n ?h' root]) auto
  qed
qed

section \<open>Removing\<close>

text \<open>The search starts behind a node that stays.\<close>

lemma unlink_after_absent:
  "chain h p xs \<Longrightarrow> dev \<notin> set (map snd xs) \<Longrightarrow> unlink_after h dev prev p = Some None"
proof (induction xs arbitrary: p prev)
  case Nil
  then show ?case by (simp add: unlink_after.simps)
next
  case (Cons x xs)
  from Cons.prems(1) show ?case
    by (rule chain_ConsE) (use Cons in \<open>auto simp: unlink_after.simps [of h dev prev "fst x"]\<close>)
qed

lemma unlink_after_present:
  assumes "chain h prev ((prev, d) # xs)" "h prev = Some y" "dev \<in> set (map snd xs)"
  shows "\<exists>h' n ys. unlink_after h dev prev (n_next y) = Some (Some h') \<and> chain h' prev ((prev, d) # ys)
    \<and> map snd ys = remove1 dev (map snd xs) \<and> h' n = None \<and> insert n (fst ` set ys) = fst ` set xs
    \<and> (\<forall>a. a \<notin> fst ` set ((prev, d) # xs) \<longrightarrow> h' a = h a)"
  using assms
proof (induction xs arbitrary: prev d y)
  case (Cons x xs)
  obtain a e where x: "x = (a, e)" by (cases x)
  have y: "prev \<noteq> 0" "n_data y = d" "chain h (n_next y) (x # xs)" using Cons.prems(1,2) by auto
  from y(3) x obtain z where z: "n_next y = a" "a \<noteq> 0" "h a = Some z" "n_data z = e" "chain h (n_next z) xs"
    by (elim chain_ConsE) auto
  have dist: "prev \<noteq> a" "prev \<notin> fst ` set xs" "a \<notin> fst ` set xs"
    using chain_distinct [OF Cons.prems(1)] x by auto
  show ?case
  proof (cases "e = dev")
    case True
    let ?h = "(h(prev \<mapsto> y\<lparr>n_next := n_next z\<rparr>))(a := None)"
    have "unlink_after h dev prev (n_next y) = Some (Some ?h)"
      using True z Cons.prems(2) by (simp add: unlink_after.simps [of h dev prev a])
    moreover have "chain ?h prev ((prev, d) # xs)" using z(5) y dist by (simp add: chain_update)
    ultimately show ?thesis using True x
      by (intro exI [of _ ?h] exI [of _ a] exI [of _ xs]) (simp del: chain.simps fun_upd_apply, simp)
  next
    case False
    have "chain h a ((a, e) # xs)" using z by simp
    moreover have "dev \<in> set (map snd xs)" using Cons.prems(3) False x by auto
    ultimately obtain h' n ys where r: "unlink_after h dev a (n_next z) = Some (Some h')"
      "chain h' a ((a, e) # ys)" "map snd ys = remove1 dev (map snd xs)" "h' n = None"
      "insert n (fst ` set ys) = fst ` set xs" "\<forall>b. b \<notin> fst ` set ((a, e) # xs) \<longrightarrow> h' b = h b"
      using Cons.IH [of a e z] z(3) by metis
    have "h' prev = Some y" using r(6) dist Cons.prems(2) by simp
    then have "chain h' prev ((prev, d) # (a, e) # ys)" using r(2) y(1,2) z(1) by simp
    moreover have "unlink_after h dev prev (n_next y) = Some (Some h')"
      using False z r(1) by (simp add: unlink_after.simps [of h dev prev a])
    ultimately show ?thesis using r(3-6) False x
      by (intro exI [of _ h'] exI [of _ n] exI [of _ "(a, e) # ys"]) auto
  qed
qed simp

lemma node_rm_absent:
  assumes "chain h root xs" "dev \<notin> set (map snd xs)"
  shows "node_rm h root dev = Some (Some ENODEV, h, root)"
    "node_rm_server h root dev = Some (Some ENODEV, h, root)"
proof -
  have "xs = [] \<or> (\<exists>x ys. xs = x # ys)" by (cases xs) auto
  then show "node_rm h root dev = Some (Some ENODEV, h, root)"
    "node_rm_server h root dev = Some (Some ENODEV, h, root)"
    using assms by (auto simp: node_rm_def node_rm_server_def unlink_after_absent elim!: chain_ConsE)
qed

lemma node_rm_later:
  assumes c: "chain h root (x # xs)" and d: "snd x \<noteq> dev" "dev \<in> set (map snd xs)"
  obtains h' n ys where "node_rm h root dev = Some (None, h', root)"
    "node_rm_server h root dev = Some (None, h', root)" "chain h' root (x # ys)"
    "map snd ys = remove1 dev (map snd xs)" "h' n = None" "insert n (fst ` set ys) = fst ` set xs"
    "\<forall>a. a \<notin> fst ` set (x # xs) \<longrightarrow> h' a = h a"
proof -
  from c obtain y where y: "root = fst x" "root \<noteq> 0" "h root = Some y" "n_data y = snd x"
    by (auto elim: chain_ConsE simp del: chain.simps)
  then have x: "x = (root, snd x)" by simp
  from unlink_after_present [of h root "snd x" xs y dev] c x y d
  obtain h' n ys where "unlink_after h dev root (n_next y) = Some (Some h')" "chain h' root (x # ys)"
    "map snd ys = remove1 dev (map snd xs)" "h' n = None" "insert n (fst ` set ys) = fst ` set xs"
    "\<forall>a. a \<notin> fst ` set (x # xs) \<longrightarrow> h' a = h a" by metis
  then show ?thesis using y d by (intro that [of h' ys n]) (simp_all add: node_rm_def node_rm_server_def)
qed

lemma node_rm_head:
  assumes "chain h root ((a, dev) # xs)"
  obtains p where "node_rm h root dev = Some (None, h(a := None), p)" "chain (h(a := None)) p xs"
    "node_rm_server h root dev = Some (None, h(a := None), 0)" "root = a"
proof -
  from assms obtain y where y: "root = a" "a \<noteq> 0" "h a = Some y" "n_data y = dev" "chain h (n_next y) xs"
    by (auto elim: chain_ConsE simp del: chain.simps)
  moreover have "a \<notin> fst ` set xs" using chain_distinct [OF assms] by simp
  ultimately show ?thesis
    by (intro that [of "n_next y"]) (auto simp: node_rm_def node_rm_server_def chain_update)
qed

text \<open>Dropping all nodes frees exactly the nodes of the chain.\<close>

lemma node_drop_all_result:
  "chain h p xs \<Longrightarrow> node_drop_all h p = Some (0, h |` (- fst ` set xs))"
proof (induction xs arbitrary: h p)
  case Nil
  then show ?case by (simp add: node_drop_all.simps)
next
  case (Cons x xs)
  from Cons.prems obtain y where y: "p = fst x" "p \<noteq> 0" "h p = Some y" "n_data y = snd x" "chain h (n_next y) xs"
    by (auto elim: chain_ConsE simp del: chain.simps)
  have "p \<notin> fst ` set xs" using chain_distinct [OF Cons.prems] y(1) by simp
  then have "chain (h(p := None)) (n_next y) xs" using y(5) by (simp add: chain_update)
  note ih = Cons.IH [OF this]
  have "node_drop_all h p = node_drop_all (h(p := None)) (n_next y)"
    using y(2-4) by (simp add: node_drop_all.simps [of h p] node_rm_def)
  also note ih
  finally have "node_drop_all h p = Some (0, (h(p := None)) |` (- fst ` set xs))" .
  moreover have "(h(p := None)) |` (- fst ` set xs) = h |` (- fst ` set (x # xs))"
    by (rule ext) (simp add: restrict_map_def y(1))
  ultimately show ?case by simp
qed

section \<open>The lists of the model are implemented\<close>

text \<open>
  A node-level result implements the result of an operation on lists: the chain it leaves
  holds the same data, error and result code agree, no node outside the old chain and the
  new entry has changed, and no node of those is left allocated without being in the chain.
\<close>

definition implements ::
  "'p node_heap \<Rightarrow> nat set \<Rightarrow> (errno option \<times> 'p node_heap \<times> nat) option \<Rightarrow> int \<times> 'p list \<times> 'a io_scheme \<Rightarrow> bool" where
  "implements h N res out \<longleftrightarrow>
     (\<exists>err h' root' ys. res = Some (err, h', root') \<and> chain h' root' ys \<and> map snd ys = fst (snd out)
       \<and> fst out = (if err = None then 0 else -1) \<and> (\<forall>e. err = Some e \<longrightarrow> errno (snd (snd out)) = e)
       \<and> (\<forall>a. a \<notin> N \<longrightarrow> h' a = h a) \<and> fst ` set ys = N \<inter> dom h')"

lemma implementsI:
  assumes "res = Some (err, h', root')" "chain h' root' ys" "map snd ys = fst (snd out)"
    "fst out = (if err = None then 0 else -1)" "\<And>e. err = Some e \<Longrightarrow> errno (snd (snd out)) = e"
    "\<And>a. a \<notin> N \<Longrightarrow> h' a = h a" "fst ` set ys \<subseteq> N" "\<And>a. a \<in> N \<Longrightarrow> a \<notin> fst ` set ys \<Longrightarrow> h' a = None"
  shows "implements h N res out"
proof -
  have "N \<inter> dom h' \<subseteq> fst ` set ys"
  proof
    fix a assume a: "a \<in> N \<inter> dom h'"
    show "a \<in> fst ` set ys"
    proof (rule ccontr)
      assume "a \<notin> fst ` set ys"
      with a assms(8) have "h' a = None" by (elim IntE)
      with a show False by (simp add: dom_def)
    qed
  qed
  with chain_allocated [OF assms(2)] assms(7) have N: "fst ` set ys = N \<inter> dom h'" by (intro equalityI Int_greatest)
  show ?thesis unfolding implements_def
    by (intro exI conjI allI impI) (rule assms(1), rule assms(2), rule assms(3), rule assms(4),
      erule assms(5), erule assms(6), rule N)
qed

text \<open>The unchanged case: the operation fails and leaves the list as it was.\<close>

lemma implements_failure:
  assumes "chain h root xs" "res = Some (Some er, h, root)" "out = (-1, map snd xs, t)" "errno t = er"
    "fst ` set xs \<subseteq> N" "\<And>a. a \<in> N \<Longrightarrow> a \<notin> fst ` set xs \<Longrightarrow> h a = None"
  shows "implements h N res out"
  by (rule implementsI [of _ "Some er" h root xs]) (use assms in auto)

text \<open>Another chain that shares no node with the operands survives.\<close>

lemma implements_frame:
  assumes "implements h N res out" "chain h q zs" "fst ` set zs \<inter> N = {}"
  obtains err h' root' where "res = Some (err, h', root')" "chain h' q zs"
proof -
  from assms(1) obtain err h' root' where r: "res = Some (err, h', root')" "\<forall>a. a \<notin> N \<longrightarrow> h' a = h a"
    by (auto simp: implements_def)
  then have "\<forall>a \<in> fst ` set zs. h' a = h a" using assms(3) by auto
  then show ?thesis using that r(1) chain_frame [of zs h' h q] assms(2) by blast
qed

context pointer_list_lookup
begin

lemma lookup_implemented:
  "chain h root xs \<Longrightarrow> node_lookup h (\<lambda>p. key s p = k) root = Some (fst (get (map snd xs) k s))"
  by (simp add: node_lookup_find get_result)

lemma add_implemented:
  assumes c: "chain h root xs" and e: "\<And>e. entry = Some e \<Longrightarrow> e \<noteq> 0 \<and> h e = None"
    and m: "entry = None \<longleftrightarrow> \<not> e_malloc E (tick s)"
  shows "implements h (fst ` set xs \<union> set_option entry)
    (node_add h (\<lambda>p. key s p = key s q) root q entry) (add E (map snd xs) q s)"
proof (cases rule: add_cases [of "map snd xs" s q E])
  case (present p)
  then have "List.find (\<lambda>p. key s p = key s q) (map snd xs) \<noteq> None"
    by (auto simp: find_None_set)
  then have "add_error (\<lambda>p. key s p = key s q) (map snd xs) q entry = Some EALREADY"
    by (simp add: add_error_def)
  from node_add_fails [OF c e this] show ?thesis using present(3) c e
    by (intro implements_failure [of h root xs _ EALREADY _ "set_errno EALREADY s"]) auto
next
  case (no_memory t)
  then have "List.find (\<lambda>p. key s p = key s q) (map snd xs) = None" "entry = None"
    using m by (simp_all add: find_None_set)
  then have "add_error (\<lambda>p. key s p = key s q) (map snd xs) q entry = Some ENOMEM"
    by (simp add: add_error_def)
  from node_add_fails [OF c e this] show ?thesis using no_memory(6,7) c \<open>entry = None\<close>
    by (intro implements_failure [of h root xs _ ENOMEM _ t]) auto
next
  case (appended t)
  then have f: "List.find (\<lambda>p. key s p = key s q) (map snd xs) = None"
    by (simp add: find_None_set)
  have q: "q \<notin> set (butlast (map snd xs))" using appended(1) in_set_butlastD by fastforce
  have "e_malloc E (tick s)"
    using add_absent [of "map snd xs" s q E, OF appended(1)] appended(5)
    by (simp add: malloc_def Let_def set_errno_def split: if_splits)
  then have "entry \<noteq> None" using m by simp
  with f q have "add_error (\<lambda>p. key s p = key s q) (map snd xs) q entry = None"
    by (simp add: add_error_def)
  from node_add_succeeds [OF c e this] obtain h' root' n where r: "entry = Some n"
    "node_add h (\<lambda>p. key s p = key s q) root q entry = Some (None, h', root')"
    "chain h' root' (xs @ [(n, q)])" "\<forall>a. a \<notin> fst ` set xs \<and> a \<noteq> n \<longrightarrow> h' a = h a" by metis
  then show ?thesis using appended(5)
    by (intro implementsI [of _ None h' root' "xs @ [(n, q)]"]) auto
qed

end

context pointer_list
begin

lemma rm_implemented:
  assumes c: "chain h root xs"
  shows "implements h (fst ` set xs) (node_rm h root p) (rm (map snd xs) p s)"
proof (cases "p \<in> set (map snd xs)")
  case False
  then show ?thesis using c node_rm_absent(1) [OF c]
    by (intro implements_failure [of h root xs]) (auto simp: rm_result)
next
  case True
  then obtain x zs where xs: "xs = x # zs" by (cases xs) auto
  show ?thesis
  proof (cases "snd x = p")
    case hd: True
    then have c': "chain h root ((fst x, p) # zs)" using c xs by (cases x) simp
    obtain p' where r: "node_rm h root p = Some (None, h(fst x := None), p')" "chain (h(fst x := None)) p' zs"
      by (rule node_rm_head [OF c'])
    have "fst x \<notin> fst ` set zs" using chain_distinct [OF c] xs by simp
    with r hd xs show ?thesis
      by (intro implementsI [of _ None "h(fst x := None)" p' zs]) (auto simp: rm_result)
  next
    case False
    with True xs have "p \<in> set (map snd zs)" by auto
    then obtain h' n ys where r: "node_rm h root p = Some (None, h', root)" "chain h' root (x # ys)"
      "map snd ys = remove1 p (map snd zs)" "h' n = None" "insert n (fst ` set ys) = fst ` set zs"
      "\<forall>a. a \<notin> fst ` set (x # zs) \<longrightarrow> h' a = h a"
      using node_rm_later [OF c [unfolded xs] False] by metis
    show ?thesis
    proof (rule implementsI)
      show "node_rm h root p = Some (None, h', root)" by (fact r)
      show "chain h' root (x # ys)" by (fact r)
      show "map snd (x # ys) = fst (snd (rm (map snd xs) p s))" using r(3) xs False True by (auto simp: rm_result)
      show "fst (rm (map snd xs) p s) = (if (None :: errno option) = None then 0 else -1)"
        using True by (simp add: rm_result)
      show "h' a = h a" if "a \<notin> fst ` set xs" for a using that r(6) xs by simp
      show "fst ` set (x # ys) \<subseteq> fst ` set xs" using r(5) xs by auto
      show "h' a = None" if "a \<in> fst ` set xs" "a \<notin> fst ` set (x # ys)" for a
        using that r(4,5) xs by auto
    qed simp
  qed
qed

end

text \<open>
  \<open>rm_server\<close> implements its list function, too, except that the nodes behind a removed
  root stay allocated.
\<close>

lemma rm_server_implemented:
  assumes c: "chain h root xs" and p: "xs = [] \<or> snd (hd xs) \<noteq> p"
  shows "implements h (fst ` set xs) (node_rm_server h root p) (rm_server (map snd xs) p s)"
proof -
  have "rm_server (map snd xs) p s = client_rm_device (map snd xs) p s"
    using p by (cases xs) (auto simp: rm_server_result client_rm_device_remove1)
  moreover have "node_rm_server h root p = node_rm h root p"
    using c p by (cases xs) (auto simp: node_rm_def node_rm_server_def split: option.splits)
  ultimately show ?thesis using cdevs.rm_implemented [OF c] by simp
qed

end
