(* ===== verification/Client_Safety.thy ===== *)
theory Client_Safety
  imports Client_Facts
begin

text \<open>
  The invariant of the client's lists: every server is listed once under its own address,
  its devices have distinct names that are not NULL, and no device belongs to two servers.
  Every datagram keeps it, unless the program runs into undefined behaviour. As the
  listener goes on with a server that could not be added to the list, the part about the
  devices is stated for a set of servers.
\<close>

section \<open>The invariant\<close>

abbreviation devices_of :: "link_client \<Rightarrow> srv_ptr \<Rightarrow> cdev_ptr list" where
  "devices_of s p \<equiv> devices_controlled (server_at s p)"

definition devices_wf :: "srv_ptr set \<Rightarrow> link_client \<Rightarrow> bool" where
  "devices_wf P s \<longleftrightarrow> (\<forall>p \<in> P. p < c_next_ptr s \<and> wf_cdevices p s)
     \<and> (\<forall>p \<in> P. \<forall>q \<in> P. p \<noteq> q \<longrightarrow> set (devices_of s p) \<inter> set (devices_of s q) = {})"

definition client_wf :: "link_client \<Rightarrow> bool" where
  "client_wf s \<longleftrightarrow> distinct (g_servers s) \<and> inj_on (server_key s) (set (g_servers s))
     \<and> devices_wf (set (g_servers s)) s"

lemma client_wfD:
  assumes "client_wf s"
  shows "distinct (g_servers s)" "inj_on (server_key s) (set (g_servers s))"
    "devices_wf (set (g_servers s)) s"
  using assms by (simp_all add: client_wf_def)

lemma devices_wfD:
  assumes "devices_wf P s" "p \<in> P"
  shows "p < c_next_ptr s" "wf_cdevices p s"
    "\<And>d. d \<in> set (devices_of s p) \<Longrightarrow> d < c_next_ptr s"
    "\<And>d. d \<in> set (devices_of s p) \<Longrightarrow> cdevice_key s d \<noteq> None"
    "\<And>q. q \<in> P \<Longrightarrow> p \<noteq> q \<Longrightarrow> set (devices_of s p) \<inter> set (devices_of s q) = {}"
  using assms by (auto simp: devices_wf_def wf_cdevices_def)

lemma devices_wf_subset: "devices_wf P s \<Longrightarrow> Q \<subseteq> P \<Longrightarrow> devices_wf Q s"
  unfolding devices_wf_def by blast

text \<open>The invariant depends on the lists, the names, the addresses and the pointers only.\<close>

lemma devices_wf_cong:
  assumes "devices_wf P s" "\<And>p. p \<in> P \<Longrightarrow> devices_of t p = devices_of s p"
    "\<And>p d. p \<in> P \<Longrightarrow> d \<in> set (devices_of s p) \<Longrightarrow> cdevice_key t d = cdevice_key s d"
    "c_next_ptr s \<le> c_next_ptr t"
  shows "devices_wf P t"
  unfolding devices_wf_def
proof (intro conjI ballI impI)
  fix p assume p: "p \<in> P"
  note d = devices_wfD [OF assms(1) p]
  show "p < c_next_ptr t" using d(1) assms(4) by simp
  show "wf_cdevices p t"
    using d(2-4) assms(2) [OF p] assms(3) [OF p] assms(4)
      inj_on_cong [of "set (devices_of s p)" "cdevice_key t" "cdevice_key s"]
    unfolding wf_cdevices_def by (metis order_less_le_trans)
next
  fix p q assume "p \<in> P" "q \<in> P" "p \<noteq> q"
  then show "set (devices_of t p) \<inter> set (devices_of t q) = {}"
    using devices_wfD(5) [OF assms(1), of p q] assms(2) by simp
qed

lemma keys_cong: "(\<And>p. server_key t p = server_key s p) \<Longrightarrow> inj_on (server_key t) A = inj_on (server_key s) A"
  by (rule inj_on_cong)

lemma devices_wf_core: "devices_wf P s \<Longrightarrow> same_core s t \<Longrightarrow> devices_wf P t"
  by (erule devices_wf_cong) (simp_all add: same_core_client_fields)

section \<open>Devices\<close>

text \<open>What the operations on the devices of one server keep of everything else.\<close>

definition same_servers :: "link_client \<Rightarrow> link_client \<Rightarrow> bool" where
  "same_servers s t \<longleftrightarrow> g_servers t = g_servers s \<and> (\<forall>p. server_key t p = server_key s p)
     \<and> c_next_ptr s \<le> c_next_ptr t \<and> (ub s \<longrightarrow> ub t)
     \<and> servers_locked t = servers_locked s \<and> bad_unlocks t = bad_unlocks s \<and> c_exited t = c_exited s"

lemma same_servers_refl [simp]: "same_servers s s"
  by (simp add: same_servers_def)

lemma same_servers_trans: "same_servers s t \<Longrightarrow> same_servers t u \<Longrightarrow> same_servers s u"
  by (simp add: same_servers_def)

lemma same_servers_core: "same_core s t \<Longrightarrow> (ub s \<longrightarrow> ub t) \<Longrightarrow> same_servers s t"
  by (simp add: same_servers_def same_core_client_fields)

lemma devices_wf_append:
  assumes wf: "devices_wf P s" and p: "p \<in> P"
    and d: "d < c_next_ptr s" "\<And>q. q \<in> P \<Longrightarrow> d \<notin> set (devices_of s q)" "cdevice_key s d \<noteq> None"
    and new: "\<And>e. e \<in> set (devices_of s p) \<Longrightarrow> cdevice_key s e \<noteq> cdevice_key s d"
  shows "devices_wf P (upd_server p (\<lambda>x. x\<lparr>devices_controlled := devices_of s p @ [d]\<rparr>) s)"
    (is "devices_wf P ?t")
  unfolding devices_wf_def
proof (intro conjI ballI impI)
  have at: "devices_of ?t q = (if q = p then devices_of s p @ [d] else devices_of s q)" for q by simp
  fix q assume q: "q \<in> P"
  note dq = devices_wfD [OF wf q]
  show "q < c_next_ptr ?t" using dq(1) by simp
  have "inj_on (cdevice_key s) (insert d (set (devices_of s p)))"
    using devices_wfD(2) [OF wf p] d(2) [OF p] new unfolding wf_cdevices_def inj_on_def by fastforce
  with dq devices_wfD [OF wf p] d show "wf_cdevices q ?t"
    unfolding wf_cdevices_def at by (cases "q = p") (auto simp: p)
  fix r assume r: "r \<in> P" "q \<noteq> r"
  show "set (devices_of ?t q) \<inter> set (devices_of ?t r) = {}"
    using devices_wfD(5) [OF wf q r] devices_wfD(5) [OF wf p] d(2) q r unfolding at by auto
qed

lemma find_or_add_cdevice_keeps:
  assumes r: "find_or_add_cdevice E p nm s = (r, t)"
  shows "same_servers s t \<and> (p \<in> P \<and> devices_wf P s \<longrightarrow> ub t \<or> devices_wf P t)"
proof (cases "List.find (\<lambda>d. cdevice_key s d = Some nm) (devices_of s p)")
  case (Some d)
  then show ?thesis using r by (auto simp: find_or_add_cdevice_def client_get_device_find)
next
  case None
  obtain ok t1 where m: "malloc E (set_errno ENODEV s) = (ok, t1)" by fastforce
  have t1: "same_core s t1" "ub t1 = ub s"
    using arg_cong [OF m, of snd] same_core_io(3) [of s E "set_errno ENODEV s"] by auto
  show ?thesis
  proof (cases ok)
    case False
    with r None m have "t = t1" by (simp add: find_or_add_cdevice_def client_get_device_find)
    then show ?thesis using devices_wf_core [OF _ t1(1)] same_servers_core [OF t1(1)] t1(2) by simp
  next
    case True
    obtain nm' t2 where t2: "strdup E nm t1 = (nm', t2)" by fastforce
    then have c2: "same_core s t2" "ub t2 = ub s"
      using t1 by (auto simp: strdup_def case_prod_beta split: if_splits)
    define t3 where "t3 = undefined_if (nm' = None) t2"
    have c3: "same_core s t3" "ub t3 = (ub s \<or> nm' = None)"
      using c2 by (auto simp: t3_def undefined_if_def same_core_def)
    note f = same_core_client_fields [OF c3(1)]
    let ?d = "c_next_ptr s"
    define t4 where "t4 = snd (new_cdevice nm' t3)"
    have t4: "new_cdevice nm' t3 = (?d, t4)" "server_at t4 = server_at s" "g_servers t4 = g_servers s"
      "cdevice_at t4 = (cdevice_at s)(?d := zero_cdevice\<lparr>cdev_name := nm'\<rparr>)"
      "c_next_ptr t4 = Suc ?d" "ub t4 = ub t3" "servers_locked t4 = servers_locked s" "bad_unlocks t4 = bad_unlocks s"
      "c_exited t4 = c_exited s"
      using f by (simp_all add: t4_def new_cdevice_def)
    obtain k ds u where add: "client_add_device E (devices_of t4 p) ?d t4 = (k, ds, u)"
      by (metis prod_cases3)
    have t: "t = upd_server p (\<lambda>x. x\<lparr>devices_controlled := ds\<rparr>) u"
      using r None m True t2 t4(1) add
      by (auto simp: find_or_add_cdevice_def client_get_device_find Let_def simp flip: t3_def split: if_splits)
    have u: "same_core t4 u" "ub u = ub t4"
      using cdevs.add_core [of t4 E "devices_of t4 p" ?d] cdevs.add_ub [of E "devices_of t4 p" ?d t4] add by simp_all
    note g = same_core_client_fields [OF u(1)]
    have st: "same_servers s t" using t4 c3 u g t by (simp add: same_servers_def)
    have "ub t \<or> devices_wf P t" if wf: "devices_wf P s" and p: "p \<in> P"
    proof -
      have fresh: "?d \<notin> set (devices_of s q)" if "q \<in> P" for q
        using devices_wfD(3) [OF wf that, of ?d] by auto
      have "devices_wf P t4"
        by (rule devices_wf_cong [OF wf]) (use t4 fresh in auto)
      then have wfu: "devices_wf P u" by (rule devices_wf_core [OF _ u(1)])
      show ?thesis
      proof (cases "nm' = None")
        case True
        then show ?thesis using u(2) t4(6) c3(2) t by simp
      next
        case False
        show ?thesis
        proof (cases rule: cdevs.add_cases [of "devices_of t4 p" t4 ?d E])
          case (appended t')
          have "devices_wf P (upd_server p (\<lambda>x. x\<lparr>devices_controlled := devices_of u p @ [?d]\<rparr>) u)"
            by (rule devices_wf_append [OF wfu p]) (use g t4 fresh False appended(1) in auto)
          then show ?thesis using appended(5) add t g by simp
        qed (use add t g in \<open>auto intro: devices_wf_cong [OF wfu]\<close>)
      qed
    qed
    with st show ?thesis by blast
  qed
qed

text \<open>Reading a status touches at most the three fields of one device.\<close>

lemma read_status_cases:
  obtains "read_status d st rest s = s" | "read_status d st rest s = undefined_if True s"
  | a b c where "read_status d st rest s =
      upd_cdevice d (\<lambda>x. x\<lparr>cdev_status := a, cdev_connect_time := b, cdev_no_users := c\<rparr>) s"
proof (cases "starts_with ''UP'' st")
  case True
  let ?x = "if 3 \<le> length st then drop 3 st else rest"
  show ?thesis
  proof (cases "strchr ?x (CHR '' '')")
    case None
    then show ?thesis using that(2) True by (simp add: read_status_def read_uptime_def Let_def)
  next
    case (Some y)
    show ?thesis
      by (rule that(3)) (use True Some in \<open>simp add: read_status_def read_uptime_def Let_def\<close>)
  qed
next
  case False
  have "read_status d st rest s = s \<or> (\<exists>a. read_status d st rest s = set_cdevice d a s)"
    using False by (simp add: read_status_def split del: if_split) (metis (full_types))
  then show ?thesis using that(1,3) by (auto simp: set_cdevice_def)
qed

lemma read_status_servers: "same_servers s (read_status d st rest s)"
  by (cases rule: read_status_cases [of d st rest s]) (auto simp: same_servers_def undefined_if_def)

lemma read_status_wf: "devices_wf P s \<Longrightarrow> devices_wf P (read_status d st rest s)"
  by (cases rule: read_status_cases [of d st rest s]) (auto elim!: devices_wf_cong simp: undefined_if_def)

lemma process_status_message_keeps:
  assumes "process_status_message E p message s = (r, t)" 
  shows "same_servers s t \<and> (p \<in> P \<and> (ub s \<or> devices_wf P s) \<longrightarrow> ub t \<or> devices_wf P t)"
  using assms
proof (induction E p message s rule: process_status_message.induct)
  case (1 E p message s)
  note unfold = process_status_message.simps [of E p message s]
  show ?case
  proof (cases "strtok delims message")
    case None
    then show ?thesis using "1.prems" by (simp add: unfold)
  next
    case (Some x)
    obtain nm rest where x: "x = (nm, rest)" by (cases x)
    show ?thesis
    proof (cases "strtok delims rest")
      case None
      then show ?thesis using "1.prems" Some x by (simp add: unfold)
    next
      case some2: (Some y)
      obtain st rest' where y: "y = (st, rest')" by (cases y)
      obtain d u where f: "find_or_add_cdevice E p nm s = (d, u)" by fastforce
      note keep = find_or_add_cdevice_keeps [OF f, of P]
      show ?thesis
      proof (cases d)
        case None
        then show ?thesis using "1.prems" Some x some2 y f keep by (auto simp: unfold same_servers_def)
      next
        case (Some d')
        let ?v = "read_status d' st rest' u"
        have "process_status_message E p rest' ?v = (r, t)"
          using "1.prems" \<open>strtok delims message = Some x\<close> x some2 y f Some by (simp add: unfold)
        then have ih: "same_servers ?v t \<and> (p \<in> P \<and> (ub ?v \<or> devices_wf P ?v) \<longrightarrow> ub t \<or> devices_wf P t)"
          using "1.IH" [OF \<open>strtok delims message = Some x\<close> x [symmetric] some2 y [symmetric] f [symmetric] Some] by blast
        have v: "same_servers u ?v" by (rule read_status_servers)
        with keep ih have "same_servers s t" by (meson same_servers_trans)
        moreover have "ub ?v \<or> devices_wf P ?v" if "p \<in> P" "ub s \<or> devices_wf P s"
          using that keep v read_status_wf [of P u] by (auto simp: same_servers_def)
        ultimately show ?thesis using ih by blast
      qed
    qed
  qed
qed

section \<open>Servers\<close>

lemma drop_devices_result: "drop_devices ds s = (0, [], s)"
  by (induction ds) simp_all

lemma rm_server_keeps:
  assumes "client_wf s"
  shows "client_wf (s\<lparr>g_servers := fst (snd (rm_server (g_servers s) p s))\<rparr>)"
proof -
  let ?l = "fst (snd (rm_server (g_servers s) p s))"
  have l: "set ?l \<subseteq> set (g_servers s)" "distinct ?l"
    using client_wfD(1) [OF assms] by (auto simp: rm_server_result dest: notin_set_remove1)
  have "devices_wf (set ?l) (s\<lparr>g_servers := ?l\<rparr>)"
    by (rule devices_wf_cong [OF devices_wf_subset [OF client_wfD(3) [OF assms] l(1)]]) simp_all
  moreover have "inj_on (server_key s) (set ?l)"
    using inj_on_subset [OF client_wfD(2) [OF assms] l(1)] .
  ultimately show ?thesis using l(2) by (simp add: client_wf_def)
qed

text \<open>Looking a server up or making it: the server is a good one even when it stays off the list.\<close>

lemma find_or_add_server_keeps:
  assumes wf: "client_wf s" and r: "find_or_add_server E a s = (r, t)"
  shows "client_wf t \<and> (\<forall>p. r = Some p \<longrightarrow> devices_wf (insert p (set (g_servers t))) t)"
proof (cases "List.find (\<lambda>p. server_key s p = sin_addr a) (g_servers s)")
  case (Some p)
  then have "r = Some p" "t = s" using r by (auto simp: find_or_add_server_def get_server_find)
  moreover have "p \<in> set (g_servers s)" using find_Some_set [OF Some] by simp
  ultimately show ?thesis using wf client_wfD(3) [OF wf] by (simp add: insert_absorb)
next
  case None
  obtain ok t1 where m: "malloc E (set_errno ENODEV s) = (ok, t1)" by fastforce
  have t1: "same_core s t1" using arg_cong [OF m, of snd] same_core_io(3) [of s E "set_errno ENODEV s"] by auto
  note f = same_core_client_fields [OF t1]
  have wf1: "client_wf t1"
    using client_wfD [OF wf] devices_wf_core [OF _ t1] f by (simp add: client_wf_def)
  show ?thesis
  proof (cases ok)
    case False
    then show ?thesis using r None m wf1 by (auto simp: find_or_add_server_def get_server_find)
  next
    case True
    let ?p = "c_next_ptr s"
    obtain n where n: "new_server a t1 = (?p, n)" using f by (simp add: new_server_def)
    have ng: "g_servers n = g_servers s" using n f by (auto simp: new_server_def)
    define t2 where "t2 = lock_servers n"
    have t2: "g_servers t2 = g_servers s"
      "server_at t2 = (server_at s)(?p := zero_server\<lparr>srv_sa := a\<rparr>)" "cdevice_at t2 = cdevice_at s"
      "c_next_ptr t2 = Suc ?p"
      using n f by (auto simp: t2_def new_server_def lock_servers_def)
    have old: "q < ?p" if "q \<in> set (g_servers s)" for q
      using devices_wfD(1) [OF client_wfD(3) [OF wf] that] .
    have wf2: "devices_wf (set (g_servers s)) t2"
      by (rule devices_wf_cong [OF client_wfD(3) [OF wf]]) (use t2 old in auto)
    then have wfp: "devices_wf (insert ?p (set (g_servers s))) t2"
      using t2 by (auto simp: devices_wf_def wf_cdevices_def zero_server_def)
    have keys: "inj_on (server_key t2) (set (g_servers s))"
      using client_wfD(2) [OF wf] inj_on_cong [of "set (g_servers s)" "server_key t2" "server_key s"] old t2 by force
    obtain k l u where add: "add_server E (g_servers s) ?p t2 = (k, l, u)" by (metis prod_cases3)
    have u: "same_core t2 u" using srvs.add_core [of t2 E "g_servers s" ?p] add by simp
    note g = same_core_client_fields [OF u]
    have t: "r = Some ?p" "t = unlock_servers (u\<lparr>g_servers := l\<rparr>)"
      using r None m True n ng f(2) add
      by (auto simp: find_or_add_server_def get_server_find simp flip: t2_def)
    have l: "set l \<subseteq> insert ?p (set (g_servers s))" "distinct l" "inj_on (server_key t2) (set l)"
      using srvs.add_set [of E "g_servers s" ?p t2] srvs.add_distinct [of "g_servers s" E ?p t2]
        srvs.add_keys_distinct [OF keys, of E ?p] client_wfD(1) [OF wf] add by simp_all
    have at: "server_at t = server_at t2" "cdevice_at t = cdevice_at t2" "c_next_ptr t = c_next_ptr t2" "g_servers t = l"
      using g t by (simp_all add: unlock_servers_def)
    have "devices_wf (insert ?p (set (g_servers s))) t"
      by (rule devices_wf_cong [OF wfp]) (simp_all add: at)
    then have "devices_wf (insert ?p (set l)) t"
      by (rule devices_wf_subset) (use l(1) in auto)
    moreover have "devices_wf (set l) t" by (rule devices_wf_subset [OF calculation]) auto
    moreover have "inj_on (server_key t) (set l)" using l(3) by (simp add: at)
    ultimately show ?thesis using t(1) l(2) at by (simp add: client_wf_def)
  qed
qed

section \<open>The listener\<close>

text \<open>A state that differs in locks, counters and times only is as good.\<close>

definition alike :: "link_client \<Rightarrow> link_client \<Rightarrow> bool" where
  "alike s t \<longleftrightarrow> g_servers t = g_servers s \<and> (\<forall>p. server_key t p = server_key s p)
     \<and> (\<forall>p. devices_of t p = devices_of s p) \<and> cdevice_at t = cdevice_at s \<and> c_next_ptr t = c_next_ptr s"

lemma alike_devices: "alike s t \<Longrightarrow> devices_wf P s \<Longrightarrow> devices_wf P t"
  by (erule devices_wf_cong) (simp_all add: alike_def)

lemma alike_wf: "alike s t \<Longrightarrow> client_wf s \<Longrightarrow> client_wf t"
  using inj_on_cong [of "set (g_servers s)" "server_key t" "server_key s"] alike_devices [of s t]
  by (auto simp: client_wf_def alike_def)

lemma alike_trans: "alike s t \<Longrightarrow> alike t u \<Longrightarrow> alike s u"
  by (simp add: alike_def)

lemma alike_steps [simp]:
  "alike s (lock_servers s)" "alike s (unlock_servers s)" "alike s (undefined_if b s)"
  "alike s (snd (time_now E s))" "alike s (set_errno e s)" "alike s (s\<lparr>c_exited := True\<rparr>)"
  "alike s (upd_server p (\<lambda>x. x\<lparr>srv_last_heard_from := t\<rparr>) s)"
  by (simp_all add: alike_def lock_servers_def unlock_servers_def)

lemma server_broadcast_keeps:
  assumes wf: "client_wf s" "devices_wf (insert p (set (g_servers s))) s"
    and r: "server_broadcast E p m s = (r, t)"
  shows "ub t \<or> client_wf t"
proof -
  consider (init) "starts_with BROADCAST_INIT m"
    | (leave) "\<not> starts_with BROADCAST_INIT m" "starts_with BROADCAST_QUIT m"
    | (report) "\<not> starts_with BROADCAST_INIT m" "\<not> starts_with BROADCAST_QUIT m" "starts_with BROADCAST_STATUS m"
    | (other) "\<not> starts_with BROADCAST_INIT m" "\<not> starts_with BROADCAST_QUIT m" "\<not> starts_with BROADCAST_STATUS m"
    by blast
  then show ?thesis
  proof cases
    case init
    then have t: "t = unlock_servers (upd_server p (\<lambda>x. x\<lparr>devices_controlled := []\<rparr>) (lock_servers s))"
      using r by (auto simp: server_broadcast_def drop_devices_result)
    let ?u = "upd_server p (\<lambda>x. x\<lparr>devices_controlled := []\<rparr>) (lock_servers s)"
    have at: "server_at ?u = (server_at s)(p := (server_at s p)\<lparr>devices_controlled := []\<rparr>)"
      "cdevice_at ?u = cdevice_at s" "c_next_ptr ?u = c_next_ptr s" "g_servers ?u = g_servers s"
      by (simp_all add: lock_servers_def)
    have "devices_wf (set (g_servers s)) ?u"
      using client_wfD(3) [OF wf(1)] unfolding devices_wf_def wf_cdevices_def at by auto
    moreover have "server_key ?u q = server_key s q" for q unfolding at by simp
    then have "inj_on (server_key ?u) (set (g_servers s))"
      by (rule keys_cong [THEN iffD2]) (rule client_wfD(2) [OF wf(1)])
    ultimately have "client_wf ?u" unfolding client_wf_def at(4) using client_wfD(1) [OF wf(1)] by blast
    then show ?thesis using alike_wf [OF alike_steps(2)] t by simp
  next
    case leave
    have core: "snd (snd (rm_server l p u)) \<in> {u, set_errno ENODEV u}" for l u by (simp add: rm_server_result)
    have l: "fst (snd (rm_server l p u)) = fst (snd (rm_server l p s))" for l u by (simp add: rm_server_result)
    obtain k l u where rm: "rm_server (g_servers s) p (lock_servers s) = (k, l, u)" by (metis prod_cases3)
    have t: "t = unlock_servers (u\<lparr>g_servers := l\<rparr>)" using leave r rm by (auto simp: server_broadcast_def)
    have "u \<in> {lock_servers s, set_errno ENODEV (lock_servers s)}"
      using core [of "g_servers s" "lock_servers s"] rm by simp
    then have "alike (s\<lparr>g_servers := l\<rparr>) (u\<lparr>g_servers := l\<rparr>)" by (auto simp: alike_def lock_servers_def)
    moreover have "l = fst (snd (rm_server (g_servers s) p s))"
      using l [of "g_servers s" "lock_servers s"] rm by simp
    ultimately show ?thesis using rm_server_keeps [OF wf(1), of p] t alike_wf alike_steps(2) by blast
  next
    case report
    obtain k u where m: "process_status_message E p (drop (length BROADCAST_STATUS) m) (unlock_servers s) = (k, u)"
      by fastforce
    have t: "t = unlock_servers u" using report r m by (auto simp: server_broadcast_def)
    have s': "g_servers (unlock_servers s) = g_servers s" "server_at (unlock_servers s) = server_at s"
      by (simp_all add: unlock_servers_def)
    have keep: "same_servers (unlock_servers s) u" "ub u \<or> devices_wf (insert p (set (g_servers s))) u"
      using process_status_message_keeps [OF m, of "insert p (set (g_servers s))"]
        alike_devices [OF alike_steps(2) wf(2)] by auto
    have "server_key u q = server_key s q" for q using keep(1) unfolding same_servers_def s' by blast
    then have inj: "inj_on (server_key u) (set (g_servers s))"
      by (rule keys_cong [THEN iffD2]) (rule client_wfD(2) [OF wf(1)])
    have l: "g_servers u = g_servers s" using keep(1) unfolding same_servers_def s' by blast
    have good: "client_wf u" if "devices_wf (insert p (set (g_servers s))) u"
      unfolding client_wf_def l
      by (intro conjI client_wfD(1) [OF wf(1)] inj devices_wf_subset [OF that] subset_insertI)
    have ubt: "ub t = ub u" using t by (simp add: unlock_servers_def)
    from keep(2) show ?thesis unfolding ubt
      by (rule disj_forward) (assumption, unfold t, rule alike_wf [OF alike_steps(2) good])
  next
    case other
    then have "t = set_errno ENOTSUP s" using r by (auto simp: server_broadcast_def)
    then show ?thesis using alike_wf [OF alike_steps(5) wf(1)] by simp
  qed
qed

lemma client_process_command_keeps:
  assumes wf: "client_wf s" and r: "client_process_command E b s = (r, t)"
  shows "ub t \<or> client_wf t"
proof (cases b)
  case (Receive_error e)
  then have "t = (set_errno e s)\<lparr>c_exited := True\<rparr>" using r by (simp add: client_process_command_def)
  then show ?thesis using alike_wf [OF alike_trans [OF alike_steps(5,6)] wf] by simp
next
  case (Broadcast a bytes)
  define s1 where "s1 = undefined_if (\<not> length (take MAX_RECV_BUFFER bytes) < MAX_RECV_BUFFER) s"
  note s1 = s1_def [symmetric, simplified]
  have wf1: "client_wf s1" using alike_wf [OF alike_steps(3) wf] by (simp add: s1_def)
  obtain p t1 where f: "find_or_add_server E a s1 = (p, t1)" by fastforce
  note keep = find_or_add_server_keeps [OF wf1 f]
  show ?thesis
  proof (cases p)
    case None
    then have "t = t1" using r Broadcast f by (simp add: client_process_command_def Let_def s1)
    then show ?thesis using keep by simp
  next
    case (Some q)
    define u where "u = snd (time_now E (lock_servers t1))"
    define v where "v = unlock_servers (upd_server q (\<lambda>x. x\<lparr>srv_last_heard_from := fst (time_now E (lock_servers t1))\<rparr>) u)"
    have v: "alike t1 v" unfolding v_def u_def
      by (rule alike_trans [OF alike_trans [OF alike_trans [OF alike_steps(1) alike_steps(4)] alike_steps(7)] alike_steps(2)])
    then have "g_servers v = g_servers t1" by (simp add: alike_def)
    then have "client_wf v" "devices_wf (insert q (set (g_servers v))) v"
      using alike_wf [OF v] alike_devices [OF v] keep Some by simp_all
    moreover have "server_broadcast E q (c_string (take MAX_RECV_BUFFER bytes)) v = (r, t)"
      using r Broadcast f Some
      by (simp add: client_process_command_def Let_def case_prod_beta v_def u_def s1)
    ultimately show ?thesis by (rule server_broadcast_keeps)
  qed
qed

text \<open>Undefined behaviour is for good.\<close>

lemma locks_ub [simp]: "ub (lock_servers s) = ub s" "ub (unlock_servers s) = ub s"
  by (simp_all add: lock_servers_def unlock_servers_def)

lemma server_broadcast_ub:
  assumes "server_broadcast E p m s = (r, t)" "ub s"
  shows "ub t"
proof -
  obtain k l u where rm: "rm_server (g_servers s) p (lock_servers s) = (k, l, u)" by (metis prod_cases3)
  have u: "ub u" using arg_cong [OF rm, of "\<lambda>x. ub (snd (snd x))"] assms(2)
    by (simp add: rm_server_result split: if_splits)
  obtain k' v where m: "process_status_message E p (drop (length BROADCAST_STATUS) m) (unlock_servers s) = (k', v)"
    by fastforce
  have v: "ub v" using process_status_message_keeps [OF m, of "{}"] assms(2) by (simp add: same_servers_def)
  have "ub (unlock_servers (u\<lparr>g_servers := l\<rparr>))" using u by simp
  with assms(1) rm u m v show ?thesis using assms(2)
    by (auto simp: server_broadcast_def drop_devices_result split: if_splits)
qed

lemma find_or_add_server_ub: "ub (snd (find_or_add_server E a s)) = ub s"
proof -
  have "ub (snd (snd (add_server E l p t))) = ub t" for l p t by (rule srvs.add_ub)
  then show ?thesis
    by (auto simp: find_or_add_server_def get_server_find case_prod_beta new_server_def split: option.split)
qed

lemma client_process_command_ub:
  assumes "client_process_command E b s = (r, t)" "ub s"
  shows "ub t"
proof (cases b)
  case (Receive_error e)
  then show ?thesis using assms by (auto simp: client_process_command_def)
next
  case (Broadcast a bytes)
  obtain p u where f: "find_or_add_server E a (undefined_if (\<not> length (take MAX_RECV_BUFFER bytes) < MAX_RECV_BUFFER) s) = (p, u)"
    by fastforce
  have u: "ub u" using find_or_add_server_ub [of E a "undefined_if (\<not> length (take MAX_RECV_BUFFER bytes) < MAX_RECV_BUFFER) s"] f assms(2)
    by (simp add: undefined_if_def split: if_splits)
  show ?thesis
  proof (cases p)
    case None
    with assms(1) Broadcast f u show ?thesis by (simp add: client_process_command_def Let_def)
  next
    case (Some q)
    let ?v = "unlock_servers (upd_server q (\<lambda>x. x\<lparr>srv_last_heard_from := fst (time_now E (lock_servers u))\<rparr>)
        (snd (time_now E (lock_servers u))))"
    have "server_broadcast E q (c_string (take MAX_RECV_BUFFER bytes)) ?v = (r, t)"
      using assms(1) Broadcast f Some by (simp add: client_process_command_def Let_def case_prod_beta)
    then show ?thesis using server_broadcast_ub u by simp
  qed
qed

lemma listen_for_status_keeps:
  "ub s \<or> client_wf s \<Longrightarrow> ub (listen_for_status E rs s) \<or> client_wf (listen_for_status E rs s)"
proof (induction E rs s rule: listen_for_status.induct)
  case (2 E e rs s)
  then show ?case using alike_wf [OF alike_steps(5), of s] by auto
next
  case (4 E b rs s)
  obtain r t where c: "client_process_command E b s = (r, t)" by fastforce
  have "ub t \<or> client_wf t"
    using "4.prems" client_process_command_ub [OF c] client_process_command_keeps [OF _ c] by blast
  then show ?case using "4.IH" [OF c [symmetric]] by (auto simp: c)
qed simp_all

lemma client_boot_wf: "client_wf client_boot"
  by (simp add: client_wf_def client_boot_def devices_wf_def)

text \<open>Storing a time or an option of the configuration does not matter.\<close>

lemma alike_conf [simp]: "alike s (s\<lparr>c_conf := c\<rparr>)"
  by (simp add: alike_def)

section \<open>Sweeping\<close>

lemma expire_servers_keeps: "client_wf s \<Longrightarrow> client_wf (snd (expire_servers E ps s))"
proof (induction E ps s rule: expire_servers.induct)
  case (2 E p ps s)
  obtain t u where n: "time_now E s = (t, u)" by fastforce
  then have "alike s u" using alike_steps(4) [of s E] by simp
  then have u: "client_wf u" using alike_wf "2.prems" by blast
  show ?case
  proof (cases "t > srv_last_heard_from (server_at u p) + c_server_timeout (c_conf u)")
    case False
    then show ?thesis using "2.IH"(2) [OF n [symmetric]] u by (simp add: n)
  next
    case True
    obtain r l v where rm: "rm_server (g_servers u) p u = (r, l, v)" by (metis prod_cases3)
    then have "v \<in> {u, set_errno ENODEV u}" by (auto simp: rm_server_result split: if_splits)
    then have "alike (u\<lparr>g_servers := l\<rparr>) (v\<lparr>g_servers := l\<rparr>)" by (auto simp: alike_def)
    then have v: "client_wf (v\<lparr>g_servers := l\<rparr>)" using alike_wf rm_server_keeps [OF u, of p] rm by auto
    moreover have "alike (v\<lparr>g_servers := l\<rparr>) (free_server p (v\<lparr>g_servers := l\<rparr>))"
      by (simp add: alike_def free_server_def)
    ultimately have "client_wf (free_server p (v\<lparr>g_servers := l\<rparr>))" using alike_wf by blast
    then show ?thesis
      using "2.IH"(1) [OF n [symmetric] True rm [symmetric] refl refl] True v by (simp add: n rm Let_def)
  qed
qed simp

end
