(* ===== verification/Client_Program.thy ===== *)
theory Client_Program
  imports System Client_Safety "HOL-Library.Sublist"
begin

text \<open>
  \<open>main\<close> and \<open>init_socket\<close> of \<open>linux_client/client.c\<close>: the program that starts the listener
  and prints what it has heard every five seconds. The listener runs in another thread; what
  it does to the shared state while \<open>main\<close> does not hold the mutex is a parameter of each
  round. The last sections follow a status message from the server to
  the screen and show that messages of servers do the listener no harm.
\<close>

section \<open>What is printed\<close>

text \<open>The client's own copy of the table of status messages.\<close>

fun client_status_message :: "device_status_t \<Rightarrow> string" where
  "client_status_message LINK_DOWN = SERVER_STATUS_DOWN"
| "client_status_message LINK_UP = SERVER_STATUS_UP"
| "client_status_message LINK_CONNECTING = SERVER_STATUS_CONNECTING"
| "client_status_message LINK_DISCONNECTING = SERVER_STATUS_DISCONNECTING"

text \<open>\<open>%d\<close> prints the unsigned number of users as a signed number.\<close>

definition device_row :: "client_device_t \<Rightarrow> string" where
  "device_row d = TAB @ ''Device: '' @ c_text (cdev_name d) @ TAB @ ''Status:''
     @ client_status_message (cdev_status d) @ TAB
     @ ''Time connected: '' @ print_int (c_int (cdev_connect_time d)) @ TAB
     @ ''No Users: '' @ print_int (sint (cdev_no_users d)) @ NL"

definition server_rows :: "link_client \<Rightarrow> srv_ptr \<Rightarrow> string" where
  "server_rows s p = ''Server '' @ inet_ntoa (sin_addr (srv_sa (server_at s p)))
     @ '' (last heard '' @ print_int (c_int (srv_last_heard_from (server_at s p))) @ ''):'' @ NL
     @ concat (map (\<lambda>d. device_row (cdevice_at s d)) (devices_controlled (server_at s p)))"

definition status_screen :: "link_client \<Rightarrow> string" where
  "status_screen s = ''Current status:'' @ NL @ concat (map (server_rows s) (g_servers s)) @ NL"

text \<open>A device without a name hands NULL to \<open>%s\<close>.\<close>

definition show_status :: "link_client \<Rightarrow> string \<times> link_client" where
  "show_status s = (status_screen s,
     undefined_if (list_ex (\<lambda>p. list_ex (\<lambda>d. cdev_name (cdevice_at s d) = None)
       (devices_controlled (server_at s p))) (g_servers s)) s)"

section \<open>The loop\<close>

text \<open>
  One round: the waits of \<open>wait_for_servers\<close>, what the listener does until \<open>main\<close> has the
  mutex, and what it does while \<open>main\<close> sleeps.
\<close>

record client_round =
  r_waits :: "(int \<times> (link_client \<Rightarrow> link_client)) list"
  r_lock :: "link_client \<Rightarrow> link_client"
  r_sleep :: "link_client \<Rightarrow> link_client"

text \<open>
  How far \<open>main\<close> gets: it goes on when the rounds or the waits are used up, it is stuck at a
  mutex it holds itself, or the process has exited, by \<open>main\<close> or by the listener. The result
  says whether \<open>main\<close> holds the mutex.
\<close>

datatype main_end = Running | Stuck | Failed

fun client_loop :: "client_round list \<Rightarrow> bool \<Rightarrow> link_client \<Rightarrow> string list \<times> main_end \<times> bool \<times> link_client" where
  "client_loop [] held s = ([], Running, held, s)"
| "client_loop (r # rs) held s =
     (case (if g_servers s = [] then wait_for_servers (r_waits r) held s else (Some 0, held, s)) of
        (None, held, s) \<Rightarrow> ([], if c_exited s then Failed else if held then Stuck else Running, held, s)
      | (Some k, held, s) \<Rightarrow>
          if k < 0 then ([], Failed, held, s)
          else if held then ([], Stuck, held, s)
          else (let s = r_lock r s in
                if c_exited s then ([], Failed, False, s)
                else (case show_status s of (screen, s) \<Rightarrow>
                      let s = r_sleep r (sleep 5 s) in
                      if c_exited s then ([screen], Failed, False, s)
                      else (case client_loop rs False s of (screens, end, held, s) \<Rightarrow>
                              (screen # screens, end, held, s)))))"

section \<open>The socket\<close>

text \<open>
  Results of \<open>socket\<close>, \<open>bind\<close> and \<open>setsockopt (IP_ADD_MEMBERSHIP)\<close>. The second component
  of the result is whether \<open>g_socket_fd_mutex\<close> is still held.
\<close>

record group_socket =
  sock_result :: int
  sock_bind :: "sockaddr_in \<Rightarrow> int"
  sock_join :: "in_addr \<Rightarrow> int"
  sock_errno :: errno

definition group_address :: "client_conf \<Rightarrow> sockaddr_in" where
  "group_address cfg = \<lparr>
     sin_addr = (case c_multicast_group cfg of None \<Rightarrow> 0
                 | Some g \<Rightarrow> (case inet_aton g of None \<Rightarrow> 0 | Some a \<Rightarrow> a)),
     sin_port = c_multicast_port cfg\<rparr>"

definition init_socket :: "group_socket \<Rightarrow> link_client \<Rightarrow> int \<times> bool \<times> link_client" where
  "init_socket N s =
     (if sock_result N < 0 then (-1, True, set_errno (sock_errno N) s)
      else let s = undefined_if (c_multicast_group (c_conf s) = None) s;
               group = group_address (c_conf s)
           in if sock_bind N group < 0 then (-1, True, set_errno (sock_errno N) s)
              else if sock_join N (sin_addr group) < 0 then (-1, True, set_errno (sock_errno N) s)
              else (0, False, s))"

definition client_main ::
  "env \<Rightarrow> file_system \<Rightarrow> group_socket \<Rightarrow> int \<Rightarrow> client_round list \<Rightarrow> string list
     \<Rightarrow> string list \<times> main_end \<times> bool \<times> link_client" where
  "client_main E F N thread_result rounds argv =
     (case client_parse_command_line E argv client_boot of (r, s) \<Rightarrow>
        if r < 0 then ([], Failed, False, s)
        else (case client_read_config E F s of (r, s) \<Rightarrow>
          if r < 0 then ([], Failed, False, s)
          else (case init_socket N s of (r, _, s) \<Rightarrow>
            if r < 0 then ([], Failed, False, s)
            else if thread_result \<noteq> 0 then ([], Failed, False, s)
            else client_loop rounds False s)))"

section \<open>Waiting\<close>

text \<open>The state after the first \<open>k\<close> waits.\<close>

definition after_waits :: "(int \<times> (link_client \<Rightarrow> link_client)) list \<Rightarrow> nat \<Rightarrow> link_client \<Rightarrow> link_client" where
  "after_waits ws k s = fold (\<lambda>w s. snd w s) (take k ws) s"

lemma after_waits_simps [simp]:
  "after_waits ws 0 s = s" "after_waits (w # ws) (Suc k) s = after_waits ws k (snd w s)"
  by (simp_all add: after_waits_def)

text \<open>
  The loop ends with -1 at the first wait with a result other than 0, and with 0 at the first
  server before it.
\<close>

text \<open>In the waits \<open>main\<close> sees no \<open>errno\<close> the loop goes on for, and no exit.\<close>

definition undisturbed :: "(int \<times> (link_client \<Rightarrow> link_client)) list \<Rightarrow> link_client \<Rightarrow> bool" where
  "undisturbed ws s \<longleftrightarrow> (\<forall>k < Suc (length ws). errno (after_waits ws k s) \<noteq> ETIMEDOUT
     \<and> errno (after_waits ws k s) \<noteq> EINTR \<and> \<not> c_exited (after_waits ws k s))"

lemma undisturbed_Cons:
  assumes "undisturbed ((r, other) # ws) s"
  shows "undisturbed ws (other s)"
  unfolding undisturbed_def
proof (intro allI impI)
  fix k assume "k < Suc (length ws)"
  then have "Suc k < Suc (length ((r, other) # ws))" by simp
  with assms show "errno (after_waits ws k (other s)) \<noteq> ETIMEDOUT \<and> errno (after_waits ws k (other s)) \<noteq> EINTR
      \<and> \<not> c_exited (after_waits ws k (other s))"
    unfolding undisturbed_def by (metis after_waits_simps(2) snd_conv)
qed

lemma undisturbed_head:
  "undisturbed ws s \<Longrightarrow> errno s \<noteq> ETIMEDOUT \<and> errno s \<noteq> EINTR \<and> \<not> c_exited s"
  unfolding undisturbed_def using after_waits_simps(1) by (metis zero_less_Suc)

lemma wait_loop_step:
  assumes "undisturbed ((r, other) # ws) s"
  shows "fst (wait_loop ((r, other) # ws) s) =
    (if g_servers s \<noteq> [] then Some 0 else if r \<noteq> 0 then Some (-1) else fst (wait_loop ws (other s)))"
  using undisturbed_head [OF undisturbed_Cons [OF assms]] by (simp add: Let_def)

lemma wait_loop_found:
  "undisturbed ws s \<Longrightarrow> (fst (wait_loop ws s) = Some 0) = (\<exists>k < Suc (length ws). g_servers (after_waits ws k s) \<noteq> []
      \<and> (\<forall>j < k. fst (ws ! j) = 0 \<and> g_servers (after_waits ws j s) = []))"
proof (induction ws arbitrary: s)
  case (Cons w ws)
  obtain r other where w: "w = (r, other)" by fastforce
  note step = wait_loop_step [OF Cons.prems [unfolded w]]
  show ?case using Cons.IH [OF undisturbed_Cons [OF Cons.prems [unfolded w]]] step
    by (simp add: w Ex_less_Suc2 All_less_Suc2 del: wait_loop.simps)
qed simp

lemma wait_loop_failed:
  "undisturbed ws s \<Longrightarrow> (fst (wait_loop ws s) = Some (-1)) = (\<exists>k < length ws. fst (ws ! k) \<noteq> 0
      \<and> (\<forall>j < k. fst (ws ! j) = 0) \<and> (\<forall>j < Suc k. g_servers (after_waits ws j s) = []))"
proof (induction ws arbitrary: s)
  case (Cons w ws)
  obtain r other where w: "w = (r, other)" by fastforce
  note step = wait_loop_step [OF Cons.prems [unfolded w]]
  show ?case using Cons.IH [OF undisturbed_Cons [OF Cons.prems [unfolded w]]] step
    by (simp add: w Ex_less_Suc2 All_less_Suc2 del: wait_loop.simps)
qed simp

lemma wait_loop_results: "fst (wait_loop ws s) \<in> {None, Some 0, Some (-1)}"
  by (induction ws s rule: wait_loop.induct) (simp_all add: Let_def)

section \<open>What the loop does\<close>

lemma show_status_safe:
  assumes "client_wf s"
  shows "snd (show_status s) = s"
proof -
  have "\<forall>p \<in> set (g_servers s). \<forall>d \<in> set (devices_of s p). cdevice_key s d \<noteq> None"
    using devices_wfD(4) [OF client_wfD(3) [OF assms]] by blast
  then have "\<not> list_ex (\<lambda>p. list_ex (\<lambda>d. cdevice_key s d = None) (devices_of s p)) (g_servers s)"
    unfolding list_ex_iff by blast
  then show ?thesis by (simp add: show_status_def undefined_if_def)
qed

section \<open>From the server to the screen\<close>

definition report_row :: "string \<Rightarrow> report \<Rightarrow> string" where
  "report_row nm r = (case r of (st, t, n) \<Rightarrow>
     TAB @ ''Device: '' @ nm @ TAB @ ''Status:'' @ client_status_message st @ TAB
     @ ''Time connected: '' @ print_int (c_int t) @ TAB @ ''No Users: '' @ print_int (sint n) @ NL)"

lemma device_row_report: "device_row d = report_row (c_text (cdev_name d)) (report_of d)"
  by (simp add: device_row_def report_row_def report_of_def)

lemma sublist_middle: "sublist x y \<Longrightarrow> sublist x (a @ y @ b)"
  unfolding sublist_def by (metis append_assoc)

lemma sublist_concat: "x \<in> set xs \<Longrightarrow> sublist x (concat xs)"
  by (metis concat.simps(2) concat_append in_set_conv_decomp sublist_appendI)

lemma screen_shows_view:
  assumes "p \<in> set (g_servers s)" "cview p s nm = Some r"
  shows "sublist (report_row nm r) (status_screen s)"
proof -
  from assms(2) obtain d where d: "List.find (\<lambda>d. cdevice_key s d = Some nm) (devices_of s p) = Some d"
    and r: "r = report_of (cdevice_at s d)" by (auto simp: cview_def)
  from find_Some_set [OF d] have "d \<in> set (devices_of s p)" "cdevice_key s d = Some nm" by auto
  then have "report_row nm r \<in> set (map (\<lambda>d. device_row (cdevice_at s d)) (devices_of s p))"
    using r by (force simp: device_row_report)
  then have "sublist (report_row nm r) (concat (map (\<lambda>d. device_row (cdevice_at s d)) (devices_of s p)))"
    by (rule sublist_concat)
  from sublist_middle [OF this, of _ "[]"] have "sublist (report_row nm r) (server_rows s p)"
    unfolding server_rows_def append_assoc [symmetric] append_Nil2 .
  moreover have "server_rows s p \<in> set (map (server_rows s) (g_servers s))" using assms(1) by simp
  then obtain us vs where "concat (map (server_rows s) (g_servers s)) = us @ server_rows s p @ vs"
    using sublist_concat unfolding sublist_def by blast
  ultimately have "sublist (report_row nm r) (concat (map (server_rows s) (g_servers s)))"
    using sublist_middle by metis
  from sublist_middle [OF this, of _ NL] show ?thesis
    unfolding status_screen_def append_assoc [symmetric] .
qed

text \<open>A message about devices with distinct names holds one report of each.\<close>

lemma reports_of_distinct:
  assumes "distinct (map device_name xs)" "x \<in> set xs" "\<forall>x \<in> set xs. wire_device x"
  shows "map_of (rev (reports xs now)) (c_text (device_name x)) = Some (status_report x now)"
proof -
  have inj: "inj_on (\<lambda>x. c_text (device_name x)) (set xs)"
    using assms(1,3) by (auto simp: distinct_map inj_on_def wire_device_def) (metis c_text_Some)
  then have "distinct (map (\<lambda>x. c_text (device_name x)) xs)"
    using assms(1) by (simp add: distinct_map)
  then have "distinct (map fst (rev (reports xs now)))"
    by (simp add: reports_def comp_def flip: rev_map)
  then show ?thesis using assms(2) by (intro map_of_is_SomeI) (auto simp: reports_def)
qed

section \<open>Honest senders\<close>

text \<open>What a link server sends, as long as its message is shorter than the receive buffer.\<close>

definition server_text :: "string \<Rightarrow> bool" where
  "server_text m \<longleftrightarrow> m = BROADCAST_INIT \<or> m = BROADCAST_QUIT
     \<or> (\<exists>xs now. m = status_message xs now \<and> (\<forall>x \<in> set xs. wire_device x) \<and> length m < MAX_RECV_BUFFER)"

fun from_server :: "ready \<Rightarrow> bool" where
  "from_server (Datagram (Broadcast a m)) = server_text m"
| "from_server _ = True"

lemma server_text_string:
  assumes "server_text m"
  shows "c_string m = m" "length m < MAX_RECV_BUFFER"
proof -
  have "c_string BROADCAST_INIT = BROADCAST_INIT" "length BROADCAST_INIT < MAX_RECV_BUFFER"
    "c_string BROADCAST_QUIT = BROADCAST_QUIT" "length BROADCAST_QUIT < MAX_RECV_BUFFER" by code_simp+
  then show "c_string m = m" "length m < MAX_RECV_BUFFER"
    using assms status_message_c_string by (auto simp: server_text_def)
qed

lemma server_broadcast_honest:
  assumes E: "\<And>n. e_malloc E n" and m: "server_text m" and wf: "wf_cdevices p s"
  shows "ub (snd (server_broadcast E p m s)) = ub s"
proof -
  consider "m = BROADCAST_INIT" | "m = BROADCAST_QUIT"
    | xs now where "m = status_message xs now" "\<forall>x \<in> set xs. wire_device x"
    using m by (auto simp: server_text_def)
  then show ?thesis
  proof cases
    case 1
    have "starts_with BROADCAST_INIT BROADCAST_INIT" by code_simp
    with 1 show ?thesis by (simp add: server_broadcast_def drop_devices_result)
  next
    case 2
    have "starts_with BROADCAST_QUIT BROADCAST_QUIT" "\<not> starts_with BROADCAST_INIT BROADCAST_QUIT" by code_simp+
    with 2 show ?thesis by (simp add: server_broadcast_def case_prod_beta rm_server_result)
  next
    case 3
    have st: "starts_with BROADCAST_STATUS m" "\<not> starts_with BROADCAST_INIT m" "\<not> starts_with BROADCAST_QUIT m"
      "drop (length BROADCAST_STATUS) m = concat (map (\<lambda>x. status_text x now @ NL) xs)"
      by (simp_all add: 3 status_message_def starts_with_def protocol_defs)
    have "wf_cdevices p (unlock_servers s)" using wf by (simp add: wf_cdevices_def unlock_servers_def)
    from process_status_lines [OF this E 3(2), where now = now] obtain t where
      "process_status_message E p (concat (map (\<lambda>x. status_text x now @ NL) xs)) (unlock_servers s) = (0, t)"
      "ub t = ub (unlock_servers s)" by metis
    then show ?thesis using st by (simp add: server_broadcast_def)
  qed
qed

lemma client_process_command_honest:
  assumes E: "\<And>n. e_malloc E n" and m: "server_text m" and wf: "client_wf s"
  shows "ub (snd (client_process_command E (Broadcast a m) s)) = ub s"
proof -
  obtain p u where f: "find_or_add_server E a s = (p, u)" by fastforce
  have u: "ub u = ub s" using find_or_add_server_ub [of E a s] f by simp
  note m' = server_text_string [OF m]
  show ?thesis
  proof (cases p)
    case None
    then show ?thesis using f u m' by (simp add: client_process_command_def Let_def undefined_if_def)
  next
    case (Some q)
    let ?v = "unlock_servers (upd_server q (\<lambda>x. x\<lparr>srv_last_heard_from := fst (time_now E (lock_servers u))\<rparr>)
        (snd (time_now E (lock_servers u))))"
    have "wf_cdevices q u"
      using find_or_add_server_keeps [OF wf f] Some devices_wfD(2) [of "insert q (set (g_servers u))" u q] by simp
    then have "wf_cdevices q ?v" by (simp add: wf_cdevices_def unlock_servers_def lock_servers_def)
    from server_broadcast_honest [OF E m this] show ?thesis
      using f u m' Some by (simp add: client_process_command_def Let_def undefined_if_def case_prod_beta)
  qed
qed

lemma listen_for_status_honest:
  assumes E: "\<And>n. e_malloc E n"
  shows "\<forall>r \<in> set rs. from_server r \<Longrightarrow> client_wf s \<Longrightarrow> \<not> ub s \<Longrightarrow>
    \<not> ub (listen_for_status E rs s) \<and> client_wf (listen_for_status E rs s)"
proof (induction rs arbitrary: s)
  case (Cons r rs)
  show ?case
  proof (cases r)
    case (Select_error e)
    then show ?thesis using Cons.prems alike_wf [OF alike_steps(5)] by simp
  next
    case Nothing_ready
    then show ?thesis using Cons by simp
  next
    case (Datagram b)
    obtain k t where c: "client_process_command E b s = (k, t)" by fastforce
    have "\<not> ub t"
    proof (cases b)
      case (Broadcast a m)
      then have "server_text m" using Cons.prems(1) Datagram by simp
      from client_process_command_honest [OF E this Cons.prems(2), of a] show ?thesis
        using c Broadcast Cons.prems(3) by simp
    next
      case (Receive_error e)
      then show ?thesis using c Cons.prems(3) by (auto simp: client_process_command_def)
    qed
    moreover from this have "client_wf t" using client_process_command_keeps [OF Cons.prems(2) c] by blast
    ultimately show ?thesis using Cons.IH [of t] Cons.prems(1) Datagram c by simp
  qed
qed simp

section \<open>The display loop and its listener\<close>

definition sound_client :: "link_client \<Rightarrow> bool" where
  "sound_client s \<longleftrightarrow> client_wf s \<and> \<not> ub s"

text \<open>An effect that is a run of the listener on what servers send.\<close>

definition listens :: "env \<Rightarrow> (link_client \<Rightarrow> link_client) \<Rightarrow> bool" where
  "listens E f \<longleftrightarrow> (\<exists>rs. (\<forall>r \<in> set rs. from_server r) \<and> f = listen_for_status E rs)"

definition honest_round :: "env \<Rightarrow> client_round \<Rightarrow> bool" where
  "honest_round E r \<longleftrightarrow> listens E (r_lock r) \<and> listens E (r_sleep r) \<and> (\<forall>w \<in> set (r_waits r). listens E (snd w))"

lemma listens_sound: "(\<And>n. e_malloc E n) \<Longrightarrow> listens E f \<Longrightarrow> sound_client s \<Longrightarrow> sound_client (f s)"
  unfolding listens_def sound_client_def using listen_for_status_honest by metis

lemma sleep_sound: "sound_client s \<Longrightarrow> sound_client (sleep n s)"
  using alike_wf [of s "sleep n s"] by (simp add: sound_client_def alike_def sleep_def)

lemma wait_loop_sound:
  assumes "\<And>n. e_malloc E n"
  shows "\<forall>w \<in> set ws. listens E (snd w) \<Longrightarrow> sound_client s \<Longrightarrow> sound_client (snd (wait_loop ws s))"
  by (induction ws s rule: wait_loop.induct) (simp_all add: Let_def listens_sound [OF assms])

lemma wait_loop_waiting: "fst (wait_loop ws s) = None \<Longrightarrow> c_exited (snd (wait_loop ws s)) \<or> g_servers (snd (wait_loop ws s)) = []"
  by (induction ws s rule: wait_loop.induct) (auto simp: Let_def split: if_splits)

definition loop_ok :: "nat \<Rightarrow> string list \<times> main_end \<times> bool \<times> link_client \<Rightarrow> bool" where
  "loop_ok n x = (case x of (screens, end, held, t) \<Rightarrow>
     sound_client t \<and> (\<forall>screen \<in> set screens. \<exists>u. sound_client u \<and> screen = status_screen u)
     \<and> (case end of Stuck \<Rightarrow> False | Running \<Rightarrow> \<not> held \<and> (length screens = n \<or> g_servers t = [])
        | Failed \<Rightarrow> held \<or> c_exited t))"

lemma client_loop_sound:
  assumes E: "\<And>n. e_malloc E n"
  shows "\<forall>r \<in> set rounds. honest_round E r \<Longrightarrow> sound_client s \<Longrightarrow>
    loop_ok (length rounds) (client_loop rounds False s)"
proof (induction rounds arbitrary: s)
  case (Cons r rounds)
  have hr: "listens E (r_lock r)" "listens E (r_sleep r)" "\<forall>w \<in> set (r_waits r). listens E (snd w)"
    using Cons.prems(1) by (simp_all add: honest_round_def)
  have go: "loop_ok (Suc (length rounds))
      (let s = r_lock r s in
        if c_exited s then ([], Failed, False, s)
        else (case show_status s of (screen, s) \<Rightarrow>
              let s = r_sleep r (sleep 5 s) in
              if c_exited s then ([screen], Failed, False, s)
              else (case client_loop rounds False s of (screens, end, held, s) \<Rightarrow>
                      (screen # screens, end, held, s))))" if s: "sound_client s" for s
  proof -
    define u where "u = r_lock r s"
    have u: "sound_client u" unfolding u_def by (rule listens_sound [OF E hr(1) s])
    then have sh: "show_status u = (status_screen u, u)"
      using show_status_safe [of u] by (simp add: sound_client_def show_status_def)
    define v where "v = r_sleep r (sleep 5 u)"
    have v: "sound_client v" unfolding v_def by (rule listens_sound [OF E hr(2) sleep_sound [OF u]])
    obtain screens e held t where c: "client_loop rounds False v = (screens, e, held, t)" by (metis prod_cases4)
    have "loop_ok (length rounds) (screens, e, held, t)" using Cons.IH [OF _ v] Cons.prems(1) c by simp
    then show ?thesis using u v
      by (auto simp: Let_def sh c loop_ok_def simp flip: u_def v_def split: main_end.splits)
  qed
  show ?case
  proof (cases "g_servers s = []")
    case False
    with go [OF Cons.prems(2)] show ?thesis by simp
  next
    case True
    obtain k t where w: "wait_loop (r_waits r) s = (k, t)" by fastforce
    have t: "sound_client t" using wait_loop_sound [OF E hr(3) Cons.prems(2)] w by simp
    from wait_loop_results [of "r_waits r" s] w consider "k = None" | "k = Some 0" | "k = Some (-1)" by auto
    then show ?thesis
    proof cases
      case 1
      with wait_loop_waiting [of "r_waits r" s] w t True show ?thesis
        by (auto simp: wait_for_servers_def loop_ok_def)
    next
      case 2
      with go [OF t] True w show ?thesis by (simp add: wait_for_servers_def)
    next
      case 3
      with True w t show ?thesis by (simp add: wait_for_servers_def loop_ok_def)
    qed
  qed
qed (simp add: loop_ok_def)

end
