(* ===== verification/Debug_Dumps.thy ===== *)
theory Debug_Dumps
  imports Client_Program
begin

text \<open>
  The debug output of both programs: \<open>dump_device_list\<close> and \<open>dump_client_list\<close> of
  \<open>server/list_fns.c\<close>, \<open>dump_device_list\<close> and \<open>dump_server_list\<close> of
  \<open>linux_client/list_fns.c\<close>, as the text they print. They change no state.
\<close>

section \<open>Lists on one line\<close>

fun comma_list :: "string list \<Rightarrow> string" where
  "comma_list [] = []"
| "comma_list (x # xs) = x @ concat (map (\<lambda>y. '', '' @ y) xs)"

text \<open>The common start of the rows for a device.\<close>

definition device_head :: "int \<Rightarrow> string option \<Rightarrow> string \<Rightarrow> int option \<Rightarrow> string" where
  "device_head i nm st since =
     ''Device '' @ print_int i @ '':'' @ TAB @ c_text nm @ TAB @ TAB @ st
     @ (case since of None \<Rightarrow> [] | Some t \<Rightarrow> '' ('' @ print_int (c_int t) @ '')'')"

section \<open>The server\<close>

fun dump_devices :: "int \<Rightarrow> dev_ptr list \<Rightarrow> server \<Rightarrow> string" where
  "dump_devices i [] s = []"
| "dump_devices i (d # ds) s =
     (let x = device_at s d in
        device_head i (device_name x) (g_link_status_message (status x))
          (if status x = LINK_UP then Some (connect_time x) else None) @ TAB
        @ comma_list (map (\<lambda>c. inet_ntoa (sin_addr (sa (client_at s c)))) (clients_connected x)) @ NL
        @ dump_devices (i + 1) ds s)"

definition dump_device_list :: "dev_ptr list \<Rightarrow> server \<Rightarrow> string" where
  "dump_device_list devices s = ''Displaying device status:'' @ NL @ dump_devices 0 devices s"

fun dump_clients :: "int \<Rightarrow> cli_ptr list \<Rightarrow> server \<Rightarrow> string" where
  "dump_clients i [] s = []"
| "dump_clients i (c # cs) s =
     (let x = client_at s c in
        TAB @ ''Client '' @ print_int i @ '':'' @ TAB @ inet_ntoa (sin_addr (sa x)) @ TAB
        @ print_int (c_int (last_heard_from x)) @ TAB
        @ comma_list (map (\<lambda>d. c_text (device_name (device_at s d))) (devices_connected x)) @ NL
        @ dump_clients (i + 1) cs s)"

definition dump_client_list :: "cli_ptr list \<Rightarrow> server \<Rightarrow> string" where
  "dump_client_list clients s = ''Dumping client list:'' @ NL @ dump_clients 0 clients s"

section \<open>The client\<close>

fun client_dump_devices :: "int \<Rightarrow> cdev_ptr list \<Rightarrow> link_client \<Rightarrow> string" where
  "client_dump_devices i [] s = []"
| "client_dump_devices i (d # ds) s =
     (let x = cdevice_at s d in
        device_head i (cdev_name x) (client_status_message (cdev_status x))
          (if cdev_status x = LINK_UP then Some (cdev_connect_time x) else None) @ NL
        @ client_dump_devices (i + 1) ds s)"

definition client_dump_device_list :: "cdev_ptr list \<Rightarrow> link_client \<Rightarrow> string" where
  "client_dump_device_list devices s = ''Displaying device status:'' @ NL @ client_dump_devices 0 devices s"

fun dump_servers :: "int \<Rightarrow> srv_ptr list \<Rightarrow> link_client \<Rightarrow> string" where
  "dump_servers i [] s = []"
| "dump_servers i (p # ps) s =
     (let x = server_at s p in
        TAB @ ''Server '' @ print_int i @ '':'' @ TAB @ inet_ntoa (sin_addr (srv_sa x)) @ TAB
        @ print_int (c_int (srv_last_heard_from x)) @ TAB
        @ comma_list (map (\<lambda>d. c_text (cdev_name (cdevice_at s d))) (devices_controlled x)) @ NL
        @ dump_servers (i + 1) ps s)"

definition dump_server_list :: "srv_ptr list \<Rightarrow> link_client \<Rightarrow> string" where
  "dump_server_list servers s = ''Dumping server list:'' @ NL @ dump_servers 0 servers s"

section \<open>One row per entry\<close>

lemma comma_list_newlines:
  "(\<And>x. x \<in> set xs \<Longrightarrow> CHR 0x0A \<notin> set x) \<Longrightarrow> CHR 0x0A \<notin> set (comma_list xs)"
  by (cases xs) auto

lemma print_num_no_newline: "0 \<le> n \<Longrightarrow> CHR 0x0A \<notin> set (print_num n)"
  using is_digit_print [of n "CHR 0x0A"] by (auto simp: is_digit_def digit_val_def)

lemma print_int_no_newline: "CHR 0x0A \<notin> set (print_int n)"
  using print_num_no_newline [of n] print_num_no_newline [of "- n"] by (auto simp: print_int_def)

lemma inet_ntoa_no_newline: "CHR 0x0A \<notin> set (inet_ntoa a)"
  by (simp add: inet_ntoa_def Let_def print_num_no_newline pos_imp_zdiv_nonneg_iff)

lemma count_newline: "CHR 0x0A \<notin> set xs \<Longrightarrow> count_list xs (CHR 0x0A) = 0"
  by (induction xs) auto

text \<open>With names free of newlines a dump has one line per entry, and the title.\<close>

lemma dump_devices_lines:
  assumes "\<And>d. d \<in> set ds \<Longrightarrow> CHR 0x0A \<notin> set (c_text (device_name (device_at s d)))"
  shows "count_list (dump_devices i ds s) (CHR 0x0A) = length ds"
  using assms
proof (induction ds arbitrary: i)
  case (Cons d ds)
  let ?x = "device_at s d"
  let ?row = "device_head i (device_name ?x) (g_link_status_message (status ?x))
      (if status ?x = LINK_UP then Some (connect_time ?x) else None) @ TAB
      @ comma_list (map (\<lambda>c. inet_ntoa (sin_addr (sa (client_at s c)))) (clients_connected ?x))"
  have "CHR 0x0A \<notin> set (comma_list (map (\<lambda>c. inet_ntoa (sin_addr (sa (client_at s c)))) (clients_connected ?x)))"
    by (rule comma_list_newlines) (auto simp: inet_ntoa_no_newline)
  moreover have "CHR 0x0A \<notin> set (g_link_status_message st)" for st
    by (cases st) (simp_all add: protocol_defs)
  ultimately have "CHR 0x0A \<notin> set ?row"
    using Cons.prems [of d] by (auto simp: device_head_def TAB_def print_int_no_newline)
  from count_newline [OF this] have "count_list (?row @ NL @ dump_devices (i + 1) ds s) (CHR 0x0A) = Suc (length ds)"
    using Cons by (simp add: NL_def)
  then show ?case by (simp add: Let_def)
qed simp

end
