(* ===== verification/Requests.thy ===== *)
theory Requests
  imports Consistency
begin

text \<open>
  Requests of clients from the datagram to their effect: the sender is found or registered,
  the text is told apart, the named device is looked up, and the connection or the status is
  changed. The lemmas compose \<open>process_command\<close>, \<open>process_client\<close> and \<open>client_message\<close> with
  the effects proved in \<open>Consistency\<close>, in environments where the commands succeed.
\<close>

section \<open>From the datagram to the handler\<close>

lemma client_command:
  assumes "c_string (received bytes) = m" "starts_with CLIENT_PREFIX m" "length bytes < MAX_RECV_BUFFER"
  shows "process_command E (Packet a bytes) s = process_client E a m s"
  using assms by (simp add: process_command_def received_def undefined_if_def Let_def)

lemma request_registered:
  assumes "well_behaved E" "consistent s"
  obtains c t where "registered a c s t" "consistent t" "\<And>m. process_client E a m s = client_message E c m t"
  using consistentD(1) [OF assms(2)]
proof (cases rule: process_client_cases [where E = E and cli = a])
  case (no_memory t)
  with assms(1) show ?thesis by (simp add: well_behaved_def)
next
  case (ready c t)
  with consistent_registered [OF assms(2)] that show ?thesis by blast
qed

lemma named_device:
  assumes "wf_server s" "d \<in> set ds" "set ds \<subseteq> set (g_devices s)" "device_name (device_at s d) = Some nm"
  shows "get_device ds (Some nm) s = (Some d, s)"
proof -
  have "inj_on (device_key s) (set ds)"
    using assms(1,3) inj_on_subset by (auto simp: wf_server_def wf_devices_def)
  then have "fst (get_device ds (Some nm) s) = Some d"
    using devs.get_Some_iff [of s ds "Some nm" d] assms(2,4) by simp
  then show ?thesis using get_device_listed(3) by (metis prod.collapse)
qed

section \<open>Requests for a device\<close>

lemma up_message:
  assumes "get_device (g_devices s) (Some nm) s = (Some d, s)"
  shows "client_message E c (CLIENT_UP @ nm) s =
    (case connect_client_to_device E c d s of (r, s) \<Rightarrow> if r < 0 then (-1, s) else (0, s))"
  using assms by (simp add: client_message_def protocol_defs)

lemma down_message:
  assumes "get_device (devices_connected (client_at s c)) (Some nm) s = (Some d, s)"
  shows "client_message E c (CLIENT_DOWN @ nm) s =
    (case disconnect_client_from_device E c d s of (r, s) \<Rightarrow> if r < 0 then (-1, s) else (0, s))"
  using assms by (simp add: client_message_def protocol_defs)

lemma force_down_message:
  assumes "get_device (g_devices s) (Some nm) s = (Some d, s)"
  shows "client_message E c (CLIENT_FORCE_DOWN @ nm) s =
    (case alter_device_status E d LINK_DOWN s of (r, s) \<Rightarrow>
       if r < 0 then (-1, s)
       else (case remove_all_clients_from_device d s of (r, s) \<Rightarrow> if r < 0 then (-1, s) else (0, s)))"
  using assms by (simp add: client_message_def protocol_defs)

lemma client_prefixes:
  "starts_with CLIENT_PREFIX (CLIENT_UP @ nm)" "starts_with CLIENT_PREFIX (CLIENT_DOWN @ nm)"
  "starts_with CLIENT_PREFIX (CLIENT_FORCE_DOWN @ nm)"
  by (simp_all add: protocol_defs)

lemma up_request:
  assumes "well_behaved E" "consistent s" "d \<in> set (g_devices s)" "device_name (device_at s d) = Some nm"
    and "c_string (received bytes) = CLIENT_UP @ nm" "length bytes < MAX_RECV_BUFFER"
  obtains c t where "process_command E (Packet a bytes) s = (0, t)" "consistent t" "c \<in> set (g_clients t)"
    "client_key t c = sin_addr a" "set (clients_connected (device_at t d)) = insert c (set (clients_connected (device_at s d)))"
    "d \<in> set (devices_connected (client_at t c))" "status (device_at t d) \<in> {LINK_UP, LINK_CONNECTING}"
    "\<And>e. e \<noteq> d \<Longrightarrow> device_at t e = device_at s e"
proof -
  obtain c u where u: "registered a c s u" "consistent u" "\<And>m. process_client E a m s = client_message E c m u"
    using request_registered [OF assms(1,2), of a] by blast
  have fu: "device_at u = device_at s" "g_devices u = g_devices s" "c \<in> set (g_clients u)" "client_key u c = sin_addr a"
    using u(1) by (auto simp: registered_def same_devices_def)
  have d: "d \<in> set (g_devices u)" using assms(3) fu by simp
  have get: "get_device (g_devices u) (Some nm) u = (Some d, u)"
    by (rule named_device) (use consistentD(1) [OF u(2)] d assms(4) fu in simp_all)
  obtain r t where t: "connect_client_to_device E c d u = (r, t)" by fastforce
  note con = wb_connect [OF assms(1) u(2) fu(3) d] connect_keeps [OF consistentD(1) [OF u(2)] fu(3) d, of E]
  have "process_command E (Packet a bytes) s = (0, t)"
    using client_command [OF assms(5) client_prefixes(1) assms(6)] u(3) up_message [OF get] t con by simp
  moreover have "c \<in> set (g_clients t)" "client_key t c = sin_addr a" "g_devices t = g_devices u"
    "\<And>e. e \<noteq> d \<Longrightarrow> device_at t e = device_at s e"
    using con(2) t fu by (auto simp: link_frame_def same_setup_def same_clients_def)
  moreover from this have "d \<in> set (devices_connected (client_at t c))"
    using con(1) t d consistentD(2) [of t] by (auto simp: symmetric_links_def)
  ultimately show thesis using that [of t c] con(1) t fu by simp
qed

lemma down_request:
  assumes "well_behaved E" "consistent s" "c \<in> set (g_clients s)" "client_key s c = sin_addr a"
    and "d \<in> set (devices_connected (client_at s c))" "device_name (device_at s d) = Some nm"
    and "c_string (received bytes) = CLIENT_DOWN @ nm" "length bytes < MAX_RECV_BUFFER"
  obtains t where "process_command E (Packet a bytes) s = (0, t)" "consistent t"
    "clients_connected (device_at t d) = remove1 c (clients_connected (device_at s d))"
    "d \<notin> set (devices_connected (client_at t c))" "\<And>e. e \<noteq> d \<Longrightarrow> device_at t e = device_at s e"
    "if clients_connected (device_at s d) = [c] then status (device_at t d) = LINK_DISCONNECTING
     else status (device_at t d) = status (device_at s d) \<and> trace t = trace s"
proof -
  note ws = consistentD [OF assms(2)]
  have d: "d \<in> set (g_devices s)" using wf_connected_device [OF ws(1) assms(3,5)] by blast
  obtain x u where u: "registered a x s u" "consistent u" "\<And>m. process_client E a m s = client_message E x m u"
    using request_registered [OF assms(1,2), of a] by blast
  have "inj_on (client_key s) (set (g_clients s))" using ws(1) by (simp add: wf_server_def wf_clients_def)
  moreover have "x \<in> set (g_clients s) \<and> client_key s x = sin_addr a"
    using u(1) assms(3,4) by (auto simp: registered_def)
  ultimately have x: "x = c" using assms(3,4) by (metis inj_onD)
  have fu: "device_at u = device_at s" "g_devices u = g_devices s" "c \<in> set (g_clients u)"
    "devices_connected (client_at u c) = devices_connected (client_at s c)" "trace u = trace s"
    using u(1) assms(3) unfolding registered_def same_devices_def x by blast+
  have du: "d \<in> set (g_devices u)" "d \<in> set (devices_connected (client_at u c))" using d assms(5) fu by simp_all
  have sub: "set (devices_connected (client_at u c)) \<subseteq> set (g_devices u)"
    using wf_connected_device [OF consistentD(1) [OF u(2)] fu(3)] by blast
  have get: "get_device (devices_connected (client_at u c)) (Some nm) u = (Some d, u)"
    by (rule named_device [OF consistentD(1) [OF u(2)] du(2) sub]) (use assms(6) fu in simp)
  have cd: "c \<in> set (clients_connected (device_at u d))"
    using consistentD(2) [OF u(2)] fu(3) du by (simp add: symmetric_links_def)
  obtain r t where t: "disconnect_client_from_device E c d u = (r, t)" by fastforce
  note dis = wb_disconnect [OF assms(1) u(2) fu(3) du(1)] disconnect_keeps [OF consistentD(1) [OF u(2)] fu(3) du(1) t]
    wb_last_client [OF assms(1) u(2) fu(3) du(1) cd]
  have "process_command E (Packet a bytes) s = (0, t)"
    using client_command [OF assms(7) client_prefixes(2) assms(8)] u(3) x down_message [OF get] t dis(1) by simp
  moreover have "\<And>e. e \<noteq> d \<Longrightarrow> device_at t e = device_at s e" using dis(3) fu by (simp add: link_frame_def)
  ultimately show thesis using that [of t] dis(1,6) t fu by (simp split: if_splits)
qed

lemma force_down_request:
  assumes "well_behaved E" "consistent s" "d \<in> set (g_devices s)" "device_name (device_at s d) = Some nm"
    and "c_string (received bytes) = CLIENT_FORCE_DOWN @ nm" "length bytes < MAX_RECV_BUFFER"
  obtains t where "process_command E (Packet a bytes) s = (0, t)" "consistent t"
    "status (device_at t d) = LINK_DOWN" "clients_connected (device_at t d) = []"
    "\<forall>c \<in> set (g_clients t). d \<notin> set (devices_connected (client_at t c))"
    "\<And>e. e \<noteq> d \<Longrightarrow> device_at t e = device_at s e"
proof -
  obtain c u where u: "registered a c s u" "consistent u" "\<And>m. process_client E a m s = client_message E c m u"
    using request_registered [OF assms(1,2), of a] by blast
  have fu: "device_at u = device_at s" "g_devices u = g_devices s"
    using u(1) by (auto simp: registered_def same_devices_def)
  have d: "d \<in> set (g_devices u)" using assms(3) fu by simp
  have wu: "wf_server u" using consistentD(1) [OF u(2)] .
  have get: "get_device (g_devices u) (Some nm) u = (Some d, u)"
    by (rule named_device) (use wu d assms(4) fu in simp_all)
  define v where "v = snd (alter_device_status E d LINK_DOWN u)"
  have al: "alter_device_status E d LINK_DOWN u = (0, v)" "consistent v" "status (device_at v d) = LINK_DOWN"
    "clients_connected (device_at v d) = []"
    using wb_alter_down [OF assms(1) u(2) d] by (simp_all add: v_def prod_eq_iff)
  define t where "t = upd_device d (clients_connected_update (\<lambda>_. [])) v"
  have t: "consistent t" "device_at t = device_at v" "g_devices t = g_devices u"
    using consistent_clear_idle [OF al(2,4)] al(4) alter.keeps_lists [OF wu, of E d LINK_DOWN]
    by (simp_all add: t_def v_def fun_eq_iff)
  have "remove_all_clients_from_device d v = (0, t)"
    using al(4) by (simp add: remove_all_clients_from_device_def t_def)
  then have "process_command E (Packet a bytes) s = (0, t)"
    using client_command [OF assms(5) client_prefixes(3) assms(6)] u(3) force_down_message [OF get] al(1) by simp
  moreover have "d \<notin> set (devices_connected (client_at t c))" if "c \<in> set (g_clients t)" for c
  proof -
    have "c \<in> set (clients_connected (device_at t d)) \<longleftrightarrow> d \<in> set (devices_connected (client_at t c))"
      using consistentD(2) [OF t(1)] that d t(3) by (simp add: symmetric_links_def)
    then show ?thesis using t(2) al(4) by simp
  qed
  moreover have "device_at t e = device_at s e" if "e \<noteq> d" for e
    using alter.keeps_other_devices [OF wu that, of E LINK_DOWN] fu(1) t(2) by (simp add: v_def)
  ultimately show thesis using that [of t] t(1,2) al(3,4) by simp
qed

end
