(* ===== verification/Config_Sections.thy ===== *)
theory Config_Sections
  imports Config_Facts
begin

text \<open>
  Device sections in the documented format, from the text of the file through the copy that
  \<open>get_next_device_section\<close> makes to the device list. A section closed by an empty line is read
  back exactly if the copy is terminated, which \<open>strncpy\<close> does not see to; without the empty
  line the search for the next line leaves the copy. The last section shows that the
  static \<open>cur_pos\<close> makes the search for sections run forever on files with several short
  sections.
\<close>

section \<open>A printed device section is read back\<close>

text \<open>What an option of a device section stands for.\<close>

definition option_assign :: "string \<Rightarrow> string \<Rightarrow> device_t \<Rightarrow> device_t" where
  "option_assign nm v x =
     (if strcaseeq nm ''name'' then x\<lparr>device_name := Some v\<rparr>
      else if strcaseeq nm ''description'' then x\<lparr>device_description := Some v\<rparr>
      else if strcaseeq nm ''link_up'' then x\<lparr>link_up_command := Some v\<rparr>
      else if strcaseeq nm ''link_down'' then x\<lparr>link_down_command := Some v\<rparr>
      else if strcaseeq nm ''link_force_down'' then x\<lparr>link_force_down_command := Some v\<rparr>
      else x)"

text \<open>A section of one quoted value per line, and the same closed by an empty line.\<close>

definition open_section :: "string \<Rightarrow> (string \<times> string) list \<Rightarrow> string" where
  "open_section header opts = header @ NL @ concat (map (\<lambda>(nm, v). string_line nm v @ NL) opts)"

definition section_of :: "string \<Rightarrow> (string \<times> string) list \<Rightarrow> string" where
  "section_of header opts = open_section header opts @ NL"

definition plain_option :: "string \<times> string \<Rightarrow> bool" where
  "plain_option opt \<longleftrightarrow> plain_name (fst opt) \<and> plain_value (snd opt)
     \<and> CHR ''['' \<notin> set (fst opt) \<and> CHR ''['' \<notin> set (snd opt)"

lemma plain_optionD: "plain_option (nm, v) \<Longrightarrow> plain_name nm \<and> plain_value v"
  by (simp add: plain_option_def)

lemma set_device_option_assign:
  assumes "\<And>n. e_malloc E n"
  shows "\<exists>t. set_device_option E nm v (x, s) = (option_assign nm v x, t) \<and> same_core s t \<and> ub t = ub s"
proof -
  have "strdup E v s = (Some v, snd (malloc E s))" using assms by (simp add: strdup_def case_prod_beta fst_malloc)
  then show ?thesis by (simp add: set_device_option_def option_assign_def)
qed

lemma device_line_step:
  assumes "plain_name nm" "plain_value v" "\<And>n. e_malloc E n"
  shows "\<exists>t. device_line E (string_line nm v) p = p\<lparr>p_name := Freed, p_value := Freed,
      p_device := option_assign nm v (p_device p), p_run := t\<rparr>
    \<and> same_core (p_run p) t \<and> ub t = ub (p_run p)"
proof -
  obtain t where t: "parse_line E (string_line nm v) (p_name p) (p_value p) (p_run p) = (0, Text nm, Text v, t)"
    "same_core (p_run p) t" "ub t = ub (p_run p)"
    using parse_line_string [OF assms] by blast
  obtain u where u: "set_device_option E nm v (p_device p, t) = (option_assign nm v (p_device p), u)"
    "same_core t u" "ub u = ub t" using set_device_option_assign [OF assms(3)] by blast
  have "string_line nm v \<noteq> []" by (simp add: string_line_def)
  then have "device_line E (string_line nm v) p = p\<lparr>p_name := Freed, p_value := Freed,
      p_device := option_assign nm v (p_device p), p_run := u\<rparr>"
    using t(1) u(1) by (simp add: device_line_def free_both_def free_ptr_def Let_def)
  with t u same_core_trans show ?thesis by metis
qed

lemma line_text_string_line:
  "plain_name nm \<Longrightarrow> plain_value v \<Longrightarrow> line_text (string_line nm v)"
  by (auto simp: line_text_def string_line_def plain_name_def plain_value_def QUOTE_def NUL_def)

lemma device_lines:
  assumes "\<forall>opt \<in> set opts. plain_option opt" "\<And>n. e_malloc E n"
  shows "\<exists>q. fold (\<lambda>l p. device_line E l (p\<lparr>p_run := alloc E (p_run p)\<rparr>)) (map (\<lambda>(nm, v). string_line nm v) opts) p = q
    \<and> p_device q = fold (\<lambda>(nm, v). option_assign nm v) opts (p_device p)
    \<and> same_core (p_run p) (p_run q) \<and> ub (p_run q) = ub (p_run p)"
  using assms(1)
proof (induction opts arbitrary: p)
  case Nil
  then show ?case by simp
next
  case (Cons o1 opts)
  obtain nm v where o1: "o1 = (nm, v)" by fastforce
  let ?p = "p\<lparr>p_run := alloc E (p_run p)\<rparr>"
  have al: "same_core (p_run p) (p_run ?p)" "ub (p_run ?p) = ub (p_run p)"
    using assms(2) by (simp_all add: alloc_ub)
  obtain t where t: "device_line E (string_line nm v) ?p = ?p\<lparr>p_name := Freed, p_value := Freed,
      p_device := option_assign nm v (p_device ?p), p_run := t\<rparr>"
    "same_core (p_run ?p) t" "ub t = ub (p_run ?p)"
    using device_line_step [OF _ _ assms(2), of nm v ?p] Cons.prems plain_optionD [of nm v] o1 by auto
  let ?q = "?p\<lparr>p_name := Freed, p_value := Freed, p_device := option_assign nm v (p_device ?p), p_run := t\<rparr>"
  have "\<forall>opt \<in> set opts. plain_option opt" using Cons.prems by simp
  note ih = Cons.IH [OF this, of ?q]
  have "same_core (p_run p) t" "ub t = ub (p_run p)" using same_core_trans [OF al(1) t(2)] al(2) t(3) by auto
  with ih t(1) show ?case by (auto simp: o1 alloc_ub [OF assms(2)] intro: same_core_trans)
qed

text \<open>The loop reads the lines of the section in turn; what follows decides how it ends.\<close>

lemma parse_lines_prefix:
  assumes "\<forall>l \<in> set ls. line_text l"
  shows "parse_lines E body (pre @ concat (map (\<lambda>l. l @ NL) ls) @ rest) (length pre) p =
    parse_lines E body (pre @ concat (map (\<lambda>l. l @ NL) ls) @ rest) (length (pre @ concat (map (\<lambda>l. l @ NL) ls)))
      (fold (\<lambda>l p. body l (p\<lparr>p_run := alloc E (p_run p)\<rparr>)) ls p)"
  using assms
proof (induction ls arbitrary: pre p)
  case (Cons l ls)
  let ?rest = "concat (map (\<lambda>l. l @ NL) ls) @ rest"
  let ?p = "p\<lparr>p_run := alloc E (p_run p)\<rparr>"
  have l: "line_text l" using Cons.prems by simp
  have "parse_lines E body (pre @ l @ NL @ ?rest) (length pre) p =
      parse_lines E body ((pre @ l @ NL) @ ?rest) (length (pre @ l @ NL)) (body l ?p)"
    by (subst parse_lines.simps) (simp add: next_line [OF l, simplified] Let_def)
  also have "\<dots> = parse_lines E body ((pre @ l @ NL) @ ?rest) (length ((pre @ l @ NL) @ concat (map (\<lambda>l. l @ NL) ls)))
      (fold (\<lambda>l p. body l (p\<lparr>p_run := alloc E (p_run p)\<rparr>)) ls (body l ?p))"
    by (rule Cons.IH) (use Cons.prems in simp)
  finally show ?case by simp
qed simp

lemma parse_lines_off_end: "length buf \<le> Suc k \<Longrightarrow> parse_lines E body buf k p = fail_parser p"
  by (subst parse_lines.simps) (simp add: strpbrk_at_def)

lemma parse_lines_closed: "length pre = k \<Longrightarrow> parse_lines E body (pre @ NL @ [NUL]) k p = p"
  by (subst parse_lines.simps) (auto simp: strpbrk_at_def NL_def)

lemma parse_lines_unterminated:
  assumes "b \<noteq> NUL" "length pre = k"
  shows "\<exists>q. parse_lines E body (pre @ NL @ [b]) k p = fail_parser q"
proof (cases "b = CHR 0x0A")
  case True
  then have "strpbrk_at (pre @ NL @ [b]) (k + 1) NL = Found (Suc k)"
    using assms by (auto simp: strpbrk_at_def NL_def NUL_def)
  then have "parse_lines E body (pre @ NL @ [b]) k p =
      parse_lines E body (pre @ NL @ [b]) (Suc k + 1)
        (body (c_string (take (Suc k - k) (drop k (pre @ NL @ [b])))) (p\<lparr>p_run := alloc E (p_run p)\<rparr>))"
    by (subst parse_lines.simps) (simp add: Let_def)
  also have "\<dots> = fail_parser (body (c_string (take (Suc k - k) (drop k (pre @ NL @ [b])))) (p\<lparr>p_run := alloc E (p_run p)\<rparr>))"
    by (rule parse_lines_off_end) (use assms(2) in simp)
  finally show ?thesis by blast
next
  case False
  then have "strpbrk_at (pre @ NL @ [b]) (k + 1) NL = Out_of_bounds"
    using assms by (auto simp: strpbrk_at_def NL_def)
  then have "parse_lines E body (pre @ NL @ [b]) k p = fail_parser p"
    by (subst parse_lines.simps) simp
  then show ?thesis by blast
qed

definition option_lines :: "(string \<times> string) list \<Rightarrow> string list" where
  "option_lines opts = map (\<lambda>(nm, v). string_line nm v) opts"

lemma option_lines_text: "\<forall>opt \<in> set opts. plain_option opt \<Longrightarrow> \<forall>l \<in> set (option_lines opts). line_text l"
  using line_text_string_line plain_optionD by (fastforce simp: option_lines_def)

lemma open_section_lines: "open_section header opts = (header @ NL) @ concat (map (\<lambda>l. l @ NL) (option_lines opts))"
  by (induction opts) (auto simp: open_section_def option_lines_def)

lemma section_start:
  assumes "set header \<inter> {CHR 0x0A, NUL} = {}"
  shows "strpbrk_at (open_section header opts @ rest) 0 NL = Found (length header)"
  using scan_line [OF assms, of 0] by (simp add: strpbrk_at_def open_section_def)

text \<open>What \<open>parse_device_section\<close> does with the copy of such a section.\<close>

lemma DEVICE_SECTION_plain: "set DEVICE_SECTION \<inter> {CHR 0x0A, NUL} = {}"
  by (simp add: DEVICE_SECTION_def NUL_def)

definition parsed_section :: "env \<Rightarrow> (string \<times> string) list \<Rightarrow> char list \<Rightarrow> server \<Rightarrow> section_parser" where
  "parsed_section E opts rest s = parse_lines E (device_line E) (open_section DEVICE_SECTION opts @ rest)
     (length DEVICE_SECTION + 1) (start_device (alloc E (snd (malloc E s))))"

lemma parse_device_section_parsed:
  assumes "\<And>n. e_malloc E n"
  shows "parse_device_section E (open_section DEVICE_SECTION opts @ rest) s =
    (let p = parsed_section E opts rest s; s = p_run p
     in if device_name (p_device p) \<noteq> None
        then (case install_device (p_device p) s of (new_device, s) \<Rightarrow>
              case add_device E (g_devices s) new_device s of (_, l, s) \<Rightarrow> (0, s\<lparr>g_devices := l\<rparr>))
        else (0, s))"
  using assms section_start [OF DEVICE_SECTION_plain]
  by (simp add: parse_device_section_def case_prod_beta fst_malloc Let_def parsed_section_def)

lemma parse_device_section_ub:
  assumes "\<And>n. e_malloc E n"
  shows "ub (snd (parse_device_section E (open_section DEVICE_SECTION opts @ rest) s)) = ub (p_run (parsed_section E opts rest s))"
    "fst (parse_device_section E (open_section DEVICE_SECTION opts @ rest) s) = 0"
  using devs.add_ub
  by (simp_all add: parse_device_section_parsed [OF assms] Let_def case_prod_beta install_device_def)

lemma parsed_section_lines:
  assumes opts: "\<forall>opt \<in> set opts. plain_option opt" and E: "\<And>n. e_malloc E n"
  obtains q where "p_device q = fold (\<lambda>(nm, v). option_assign nm v) opts zero_device"
    "same_core s (p_run q)" "ub (p_run q) = ub s"
    "\<And>rest. parsed_section E opts rest s = parse_lines E (device_line E) (open_section DEVICE_SECTION opts @ rest)
      (length (open_section DEVICE_SECTION opts)) q"
proof -
  define s1 where "s1 = alloc E (snd (malloc E s))"
  have s1: "same_core s s1" "ub s1 = ub s" using E by (simp_all add: s1_def alloc_ub)
  obtain q where q: "fold (\<lambda>l p. device_line E l (p\<lparr>p_run := alloc E (p_run p)\<rparr>)) (option_lines opts) (start_device s1) = q"
    "p_device q = fold (\<lambda>(nm, v). option_assign nm v) opts zero_device" "same_core s1 (p_run q)" "ub (p_run q) = ub s1"
    using device_lines [OF opts E, of "start_device s1"] by (auto simp: option_lines_def start_device_def)
  have "parsed_section E opts rest s = parse_lines E (device_line E) (open_section DEVICE_SECTION opts @ rest)
      (length (open_section DEVICE_SECTION opts)) q" for rest
    using parse_lines_prefix [OF option_lines_text [OF opts], of E "device_line E" "DEVICE_SECTION @ NL" rest "start_device s1"]
      q(1) by (simp add: parsed_section_def open_section_lines flip: s1_def)
  with that q(2-4) s1 same_core_trans show thesis by metis
qed

lemma closed_section_parsed:
  assumes "\<forall>opt \<in> set opts. plain_option opt" "\<And>n. e_malloc E n"
  shows "p_device (parsed_section E opts (NL @ [NUL]) s) = fold (\<lambda>(nm, v). option_assign nm v) opts zero_device"
    "same_core s (p_run (parsed_section E opts (NL @ [NUL]) s))"
    "ub (p_run (parsed_section E opts (NL @ [NUL]) s)) = ub s"
proof -
  obtain q where q: "p_device q = fold (\<lambda>(nm, v). option_assign nm v) opts zero_device"
    "same_core s (p_run q)" "ub (p_run q) = ub s"
    "\<And>rest. parsed_section E opts rest s = parse_lines E (device_line E) (open_section DEVICE_SECTION opts @ rest)
      (length (open_section DEVICE_SECTION opts)) q"
    using parsed_section_lines [OF assms, of s] by blast
  have "parsed_section E opts (NL @ [NUL]) s = q" unfolding q(4) by (rule parse_lines_closed) simp
  with q show "p_device (parsed_section E opts (NL @ [NUL]) s) = fold (\<lambda>(nm, v). option_assign nm v) opts zero_device"
    "same_core s (p_run (parsed_section E opts (NL @ [NUL]) s))"
    "ub (p_run (parsed_section E opts (NL @ [NUL]) s)) = ub s" by simp_all
qed

lemma bad_section_parsed:
  assumes "\<forall>opt \<in> set opts. plain_option opt" "\<And>n. e_malloc E n"
  shows "b \<noteq> NUL \<Longrightarrow> ub (p_run (parsed_section E opts (NL @ [b]) s))" "ub (p_run (parsed_section E opts [b] s))"
proof -
  obtain q where q: "\<And>rest. parsed_section E opts rest s =
      parse_lines E (device_line E) (open_section DEVICE_SECTION opts @ rest) (length (open_section DEVICE_SECTION opts)) q"
    using parsed_section_lines [OF assms, of s] by blast
  show "ub (p_run (parsed_section E opts (NL @ [b]) s))" if "b \<noteq> NUL"
    using parse_lines_unterminated [OF that refl, of E "device_line E" "open_section DEVICE_SECTION opts" q]
    by (auto simp: q fail_parser_def)
  show "ub (p_run (parsed_section E opts [b] s))"
    unfolding q by (subst parse_lines_off_end) (simp_all add: fail_parser_def)
qed

lemma device_section_read_back:
  assumes opts: "\<forall>opt \<in> set opts. plain_option opt" and E: "\<And>n. e_malloc E n"
    and x: "x = fold (\<lambda>(nm, v). option_assign nm v) opts zero_device" "device_name x = Some nm"
    and new: "\<forall>d \<in> set (g_devices s). device_name (device_at s d) \<noteq> Some nm" and conf: "configured s"
  shows "fst (parse_device_section E (section_of DEVICE_SECTION opts @ [NUL]) s) = 0"
    "g_devices (snd (parse_device_section E (section_of DEVICE_SECTION opts @ [NUL]) s)) = g_devices s @ [next_ptr s]"
    "device_at (snd (parse_device_section E (section_of DEVICE_SECTION opts @ [NUL]) s)) = (device_at s)(next_ptr s := x)"
    "ub (snd (parse_device_section E (section_of DEVICE_SECTION opts @ [NUL]) s)) = ub s"
proof -
  let ?buf = "section_of DEVICE_SECTION opts @ [NUL]"
  have buf: "?buf = open_section DEVICE_SECTION opts @ NL @ [NUL]" by (simp add: section_of_def)
  define q where "q = parsed_section E opts (NL @ [NUL]) s"
  have q: "p_device q = x" "same_core s (p_run q)" "ub (p_run q) = ub s"
    using closed_section_parsed [OF opts E] x(1) by (simp_all add: q_def)
  note f = same_core_fields [OF q(2)]
  let ?t = "(p_run q)\<lparr>next_ptr := Suc (next_ptr (p_run q)),
    device_at := (device_at (p_run q))(next_ptr (p_run q) := x)\<rparr>"
  have fresh: "d \<in> set (g_devices s) \<Longrightarrow> d \<noteq> next_ptr s" for d using conf by (auto simp: configured_def)
  have keys: "\<And>d. d \<in> set (g_devices s) \<Longrightarrow> device_key ?t d \<noteq> device_key ?t (next_ptr s)"
    using new fresh x(2) f by auto
  have add: "add_device E (g_devices s) (next_ptr s) ?t = (0, g_devices s @ [next_ptr s], snd (malloc E (set_errno ENODEV ?t)))"
    using add_device_absent [OF keys, where E = E] E by (simp add: case_prod_beta fst_malloc)
  have "parse_device_section E ?buf s = (0, (snd (malloc E (set_errno ENODEV ?t)))\<lparr>g_devices := g_devices s @ [next_ptr s]\<rparr>)"
    unfolding buf parse_device_section_parsed [OF E] using q x(2) add f
    by (simp add: Let_def install_device_def flip: q_def)
  then show "fst (parse_device_section E ?buf s) = 0" "g_devices (snd (parse_device_section E ?buf s)) = g_devices s @ [next_ptr s]"
    "device_at (snd (parse_device_section E ?buf s)) = (device_at s)(next_ptr s := x)"
    "ub (snd (parse_device_section E ?buf s)) = ub s"
    using f q by simp_all
qed

section \<open>The copy of a section\<close>

text \<open>What one pass of the loop in \<open>read_config\<close> does with the text from a section on.\<close>

definition read_copy :: "env \<Rightarrow> string \<Rightarrow> server \<Rightarrow> int \<times> server" where
  "read_copy E start s = (case copy_section E start s of (buf, s) \<Rightarrow> parse_device_section E buf s)"

definition ends_file_or_section :: "string \<Rightarrow> bool" where
  "ends_file_or_section rest \<longleftrightarrow> rest = [] \<or> hd rest = CHR ''[''"

text \<open>The byte behind the copy.\<close>

definition copy_end :: "env \<Rightarrow> string \<Rightarrow> server \<Rightarrow> char" where
  "copy_end E rest s = (if rest = [] then NUL else e_heap E (tick s))"

lemma string_line_bracket: "plain_option (nm, v) \<Longrightarrow> CHR ''['' \<notin> set (string_line nm v)"
  by (simp add: plain_option_def string_line_def QUOTE_def)

lemma open_section_bracket:
  assumes "\<forall>opt \<in> set opts. plain_option opt"
  shows "CHR ''['' \<notin> set (tl (open_section DEVICE_SECTION opts))"
proof -
  have "CHR ''['' \<notin> set (concat (map (\<lambda>(nm, v). string_line nm v @ NL) opts))"
    using assms string_line_bracket by (auto simp: NL_def)
  then show ?thesis by (simp add: open_section_def DEVICE_SECTION_def NL_def)
qed

lemma strchr_append: "c \<notin> set xs \<Longrightarrow> strchr (xs @ ys) c = strchr ys c"
proof -
  assume "c \<notin> set xs"
  then have "dropWhile (\<lambda>x. x \<noteq> c) (xs @ ys) = dropWhile (\<lambda>x. x \<noteq> c) ys" by (induction xs) auto
  then show ?thesis by (simp add: strchr_def)
qed

lemma copy_section_text:
  assumes "t \<noteq> []" "CHR ''['' \<notin> set (tl t)" "ends_file_or_section rest"
  shows "copy_section E (t @ rest) s = (t @ [copy_end E rest s], alloc E s)"
proof (cases rest)
  case Nil
  with assms have "strchr (tl t) (CHR ''['') = None" using strchr_append [of "CHR ''[''" "tl t" "[]"]
    by (simp add: strchr_def)
  then show ?thesis using Nil assms(1) by (simp add: copy_section_def copy_end_def)
next
  case (Cons c r)
  with assms have "strchr (tl t @ rest) (CHR ''['') = Some rest"
    using strchr_append [of "CHR ''[''" "tl t" rest] by (simp add: strchr_def ends_file_or_section_def Let_def)
  then show ?thesis using Cons assms(1) by (simp add: copy_section_def copy_end_def)
qed

lemma copied_section:
  assumes "\<forall>opt \<in> set opts. plain_option opt" "ends_file_or_section rest"
  shows "copy_section E (section_of DEVICE_SECTION opts @ rest) s =
      (section_of DEVICE_SECTION opts @ [copy_end E rest s], alloc E s)"
    "copy_section E (open_section DEVICE_SECTION opts @ rest) s =
      (open_section DEVICE_SECTION opts @ [copy_end E rest s], alloc E s)"
proof -
  have ne: "open_section DEVICE_SECTION opts \<noteq> []" by (simp add: open_section_def DEVICE_SECTION_def)
  note br = open_section_bracket [OF assms(1)]
  from ne br have "CHR ''['' \<notin> set (tl (section_of DEVICE_SECTION opts))" "section_of DEVICE_SECTION opts \<noteq> []"
    by (simp_all add: section_of_def NL_def)
  from copy_section_text [OF this(2,1) assms(2)] copy_section_text [OF ne br assms(2)]
  show "copy_section E (section_of DEVICE_SECTION opts @ rest) s =
      (section_of DEVICE_SECTION opts @ [copy_end E rest s], alloc E s)"
    "copy_section E (open_section DEVICE_SECTION opts @ rest) s =
      (open_section DEVICE_SECTION opts @ [copy_end E rest s], alloc E s)" .
qed

section \<open>The search for sections can run forever\<close>

text \<open>The first passes of the loop, if none of them ends it.\<close>

fun passes :: "env \<Rightarrow> string \<Rightarrow> nat \<Rightarrow> int \<times> server \<Rightarrow> (int \<times> server) option" where
  "passes E T 0 x = Some x"
| "passes E T (Suc k) (cur, s) =
     (case get_next_device_section E T cur s of
        (None, _, _) \<Rightarrow> None
      | (Some buf, cur, s) \<Rightarrow>
          (case parse_device_section E buf s of (r, s) \<Rightarrow> if r < 0 then None else passes E T k (cur, s)))"

text \<open>
  A trap: a device section at \<open>q\<close> that another bracket follows, where every device section
  that starts at or before \<open>q\<close> ends less than \<open>q\<close> bytes after its own start. The position is
  then never set beyond \<open>q\<close>.
\<close>

definition section_at :: "string \<Rightarrow> nat \<Rightarrow> bool" where
  "section_at T p \<longleftrightarrow> starts_with DEVICE_SECTION (drop p T)"

definition next_bracket :: "string \<Rightarrow> nat \<Rightarrow> nat option" where
  "next_bracket T p = (case strchr (tl (drop p T)) (CHR ''['') of
     None \<Rightarrow> None | Some e \<Rightarrow> Some (length (drop p T) - length e))"

definition trap :: "string \<Rightarrow> nat \<Rightarrow> bool" where
  "trap T q \<longleftrightarrow> q \<le> length T \<and> section_at T q \<and> (\<forall>p \<in> set [0..<Suc q]. section_at T p \<longrightarrow>
     (case next_bracket T p of None \<Rightarrow> False | Some k \<Rightarrow> k < q))"

lemma strstr_first:
  assumes "starts_with needle (drop j s)" "needle \<noteq> []" "j \<le> length s"
  shows "\<exists>i \<le> j. strstr s needle = Some (drop i s) \<and> starts_with needle (drop i s)"
  using assms
proof (induction s arbitrary: j)
  case Nil
  then show ?case by (simp add: starts_with_def)
next
  case (Cons c s)
  show ?case
  proof (cases "starts_with needle (c # s)")
    case True
    then show ?thesis by (intro exI [of _ 0]) simp
  next
    case False
    with Cons.prems obtain k where k: "j = Suc k" by (cases j) auto
    with Cons.IH [of k] Cons.prems obtain i where "i \<le> k" "strstr s needle = Some (drop i s)"
      "starts_with needle (drop i s)" by auto
    then show ?thesis using False k by (intro exI [of _ "Suc i"]) simp
  qed
qed

lemma trapped_step:
  assumes trap: "trap T q" and cur: "0 \<le> cur" "cur \<le> int q"
  obtains p cur' where "section_at T p" "get_next_device_section E T cur s =
      (Some (fst (copy_section E (drop p T) s)), cur', snd (copy_section E (drop p T) s))"
    "0 \<le> cur'" "cur' \<le> int q"
proof -
  let ?T = "drop (nat cur) T"
  have ne: "DEVICE_SECTION \<noteq> []" by (simp add: DEVICE_SECTION_def)
  have le: "nat cur \<le> q" using cur by simp
  have "q \<le> length T" "section_at T q" using trap by (simp_all add: trap_def)
  then have "starts_with DEVICE_SECTION (drop (q - nat cur) ?T)" "q - nat cur \<le> length ?T"
    using le by (simp_all add: section_at_def diff_le_mono)
  from strstr_first [OF this(1) ne this(2)] obtain i where i: "i \<le> q - nat cur"
    "strstr ?T DEVICE_SECTION = Some (drop i ?T)" "starts_with DEVICE_SECTION (drop i ?T)" by auto
  let ?p = "i + nat cur"
  have p: "?p \<le> q" "section_at T ?p" "drop i ?T = drop ?p T" using i le by (simp_all add: section_at_def)
  from p(1) have "?p \<in> set [0..<Suc q]" by (simp only: set_upt) auto
  with trap p(2) obtain k where k: "next_bracket T ?p = Some k" "k < q"
    by (auto simp: trap_def split: option.splits)
  then obtain e where e: "strchr (tl (drop ?p T)) (CHR ''['') = Some e" "k = length (drop ?p T) - length e"
    by (auto simp: next_bracket_def split: option.splits)
  have "length e \<le> length (drop ?p T)"
    using e(1) length_dropWhile_le [of "\<lambda>x. x \<noteq> CHR ''[''" "tl (drop ?p T)"]
    by (auto simp: strchr_def Let_def split: if_splits)
  then have pos: "int (length (drop ?p T)) - int (length e) + 1 = int k + 1" using e(2) by simp
  obtain buf t where cp: "copy_section E (drop ?p T) s = (buf, t)" by fastforce
  have "get_next_device_section E T cur s = (Some buf, int k + 1, t)"
    using cur i(2) p(3) e(1) cp pos by (simp add: get_next_device_section_def Let_def)
  with that [of ?p "int k + 1"] k(2) p(2) cp show ?thesis by simp
qed

lemma parse_device_section_returns:
  "(\<And>n. e_malloc E n) \<Longrightarrow> fst (parse_device_section E buf s) = 0"
  by (simp add: parse_device_section_def case_prod_beta Let_def fst_malloc split: scan_result.splits)

lemma trapped_forever:
  assumes "trap T q" "0 \<le> cur" "cur \<le> int q" "\<And>n. e_malloc E n"
  shows "read_devices E T cur s = None"
proof (rule ccontr)
  assume "read_devices E T cur s \<noteq> None"
  then obtain y where y: "read_devices E T cur s = Some y" by auto
  have "\<not> (trap T q \<and> 0 \<le> cur \<and> cur \<le> int q \<and> (\<forall>n. e_malloc E n))"
    using y
  proof (rule read_devices.raw_induct [rotated])
    fix rec E T cur s y
    assume IH: "\<And>E T cur s y. rec E T cur s = Some y \<Longrightarrow>
        \<not> (trap T q \<and> 0 \<le> cur \<and> cur \<le> int q \<and> (\<forall>n. e_malloc E n))"
      and y: "(case get_next_device_section E T cur s of (section_data, cur_pos, s) \<Rightarrow>
        case section_data of None \<Rightarrow> Some (0, s)
        | Some buf \<Rightarrow> (case parse_device_section E buf s of (r, s) \<Rightarrow>
            if r < 0 then Some (-1, s) else rec E T cur_pos s)) = Some y"
    show "\<not> (trap T q \<and> 0 \<le> cur \<and> cur \<le> int q \<and> (\<forall>n. e_malloc E n))"
    proof
      assume a: "trap T q \<and> 0 \<le> cur \<and> cur \<le> int q \<and> (\<forall>n. e_malloc E n)"
      then obtain buf c t where g: "get_next_device_section E T cur s = (Some buf, c, t)" "0 \<le> c" "c \<le> int q"
        using trapped_step [of T q cur E s] by metis
      have "rec E T c (snd (parse_device_section E buf t)) = Some y"
        using y g(1) parse_device_section_returns [of E buf t] a by (simp add: case_prod_beta)
      from IH [OF this] a g show False by blast
    qed
  qed
  with assms show False by blast
qed

text \<open>A file of sections in the documented format, each closed by an empty line.\<close>

definition sections_text :: "(string \<times> string) list list \<Rightarrow> string" where
  "sections_text optss = concat (map (section_of DEVICE_SECTION) optss)"

lemma sections_text_end: "ends_file_or_section (sections_text optss)"
  by (cases optss) (simp_all add: sections_text_def ends_file_or_section_def section_of_def open_section_def DEVICE_SECTION_def)

lemma section_at_bracket: "section_at T p \<Longrightarrow> p < length T \<and> T ! p = CHR ''[''"
proof -
  assume a: "section_at T p"
  then have "drop p T \<noteq> []" "hd (drop p T) = CHR ''[''"
    by (cases "drop p T"; simp add: section_at_def starts_with_def DEVICE_SECTION_def)+
  then show ?thesis by (simp add: hd_drop_conv_nth)
qed

lemma section_at_start:
  assumes "\<forall>opts \<in> set optss. \<forall>opt \<in> set opts. plain_option opt" "section_at (sections_text optss) p"
  shows "\<exists>opts \<in> set optss. \<exists>rest. drop p (sections_text optss) = section_of DEVICE_SECTION opts @ rest
    \<and> ends_file_or_section rest"
  using assms
proof (induction optss arbitrary: p)
  case Nil
  then show ?case using section_at_bracket [of "[]" p] by (simp add: sections_text_def)
next
  case (Cons opts optss)
  let ?S = "section_of DEVICE_SECTION opts" and ?R = "sections_text optss"
  have T: "sections_text (opts # optss) = ?S @ ?R" by (simp add: sections_text_def)
  consider "p = 0" | "0 < p" "p < length ?S" | "length ?S \<le> p" by linarith
  then show ?case
  proof cases
    case 1
    then show ?thesis using T sections_text_end by auto
  next
    case 2
    have "(?S @ ?R) ! p = tl ?S ! (p - 1)" using 2 by (simp add: nth_append nth_tl)
    then have "(?S @ ?R) ! p \<in> set (tl ?S)" using 2 by simp
    moreover have "CHR ''['' \<notin> set (tl ?S)"
      using open_section_bracket [of opts] Cons.prems(1)
      by (simp add: section_of_def open_section_def DEVICE_SECTION_def NL_def)
    ultimately show ?thesis using section_at_bracket [OF Cons.prems(2)] T by metis
  next
    case 3
    then have d: "drop p (?S @ ?R) = drop (p - length ?S) ?R" by simp
    then have "section_at ?R (p - length ?S)" using Cons.prems(2) by (simp add: section_at_def T)
    with Cons.IH [OF _ this] Cons.prems(1) d T show ?thesis by auto
  qed
qed

text \<open>On such a file no pass of the endless loop is undefined, if the heap holds zeros.\<close>

lemma trapped_passes:
  assumes E: "\<And>n. e_malloc E n" "\<And>n. e_heap E n = NUL" and T: "T = sections_text optss"
    and opts: "\<forall>opts \<in> set optss. \<forall>opt \<in> set opts. plain_option opt" and trap: "trap T q"
  shows "0 \<le> cur \<Longrightarrow> cur \<le> int q \<Longrightarrow> \<exists>cur' t. passes E T k (cur, s) = Some (cur', t) \<and> ub t = ub s"
proof (induction k arbitrary: cur s)
  case (Suc k)
  obtain p cur' where p: "section_at T p" "get_next_device_section E T cur s =
      (Some (fst (copy_section E (drop p T) s)), cur', snd (copy_section E (drop p T) s))" "0 \<le> cur'" "cur' \<le> int q"
    by (rule trapped_step [OF trap Suc.prems])
  from section_at_start [OF opts] p(1) T obtain os rest where os: "os \<in> set optss"
    "drop p T = section_of DEVICE_SECTION os @ rest" "ends_file_or_section rest" by metis
  have "\<forall>opt \<in> set os. plain_option opt" using opts os(1) by blast
  note o = copied_section(1) [OF this os(3)] closed_section_parsed [OF this E(1)]
  have "copy_end E rest s = NUL" using E(2) by (simp add: copy_end_def)
  with o(1) os(2) have n: "get_next_device_section E T cur s = (Some (section_of DEVICE_SECTION os @ [NUL]), cur', alloc E s)"
    using p(2) by simp
  obtain u where u: "parse_device_section E (section_of DEVICE_SECTION os @ [NUL]) (alloc E s) = (0, u)" "ub u = ub s"
    using parse_device_section_ub [OF E(1), of os "NL @ [NUL]" "alloc E s"] o(4) [of "alloc E s"] E(1)
    by (metis alloc_ub append_assoc prod.collapse section_of_def)
  from Suc.IH [OF p(3,4), of u] n u show ?case by simp
qed simp

end
