(* ===== verification/Client_Threads.thy ===== *)
theory Client_Threads
  imports Client_Program
begin

text \<open>
  The two threads of the client. \<open>main\<close> prints the lists and the listener changes them; both
  use \<open>g_servers_mutex\<close>. Each thread is the sequence of its locks, unlocks and accesses to
  the shared data, in the order of the code, and the steps of the threads are interleaved.
  The listener's sequence is computed along its handler, from the datagrams it receives: as
  \<open>main\<close> never writes, nothing else decides what it does. Shown are that only the branch for
  status messages, which unlocks where it should lock, lets the threads meet in the lists,
  and that no interleaving is ever stuck.
\<close>

section \<open>What the threads do\<close>

text \<open>
  Shared are the pointer \<open>g_servers\<close> and the nodes and records behind it. Successive accesses
  of one thread to the same place are one action, a \<open>Write\<close> if one of them may write. \<open>Exit\<close>
  is the end of the process, by \<open>exit\<close> or by a wild pointer.
\<close>

datatype location = Root | Lists

datatype action = Lock | Unlock | Exit | Read location | Write location

text \<open>
  One round of \<open>main\<close>: what becomes of its search for a server (a wait of \<open>wait_for_servers\<close>
  releases the mutex and takes it again; a failing one leaves it taken) and whether there is a
  server when it prints.
\<close>

datatype waiting = Servers_known | Server_found nat | Wait_failed nat

definition wait_actions :: "nat \<Rightarrow> action list" where
  "wait_actions k = [Lock, Read Root] @ concat (replicate k [Unlock, Lock, Read Root])"

definition main_actions :: "waiting \<times> bool \<Rightarrow> action list" where
  "main_actions r = Read Root #
     (case fst r of
        Servers_known \<Rightarrow> []
      | Server_found k \<Rightarrow> wait_actions k @ [Unlock]
      | Wait_failed k \<Rightarrow> wait_actions k @ [Unlock, Lock, Exit])
     @ [Lock, Read Root] @ (if snd r then [Read Lists] else []) @ [Unlock]"

text \<open>Statuses that are stored, and those that make \<open>strchr (x_str, ' ')\<close> fail.\<close>

definition recognised :: "string \<Rightarrow> bool" where
  "recognised device_status \<longleftrightarrow> starts_with ''UP'' device_status
     \<or> device_status \<in> {''DOWN'', ''CONNECTING'', ''DISCONNECTING''}"

definition crashes :: "string \<Rightarrow> string \<Rightarrow> bool" where
  "crashes device_status rest \<longleftrightarrow> starts_with ''UP'' device_status
     \<and> strchr (if 3 \<le> length device_status then drop 3 device_status else rest) (CHR '' '') = None"

text \<open>The records of a status message, along \<open>process_status_message\<close>.\<close>

function status_actions :: "env \<Rightarrow> srv_ptr \<Rightarrow> string \<Rightarrow> link_client \<Rightarrow> action list" where
  "status_actions E server message s =
     (case strtok delims message of
        None \<Rightarrow> []
      | Some (nm, rest) \<Rightarrow>
          (case strtok delims rest of
             None \<Rightarrow> []
           | Some (st, rest) \<Rightarrow> Read Lists #
               (case find_or_add_cdevice E server nm s of
                  (None, t) \<Rightarrow> []
                | (Some device, t) \<Rightarrow>
                    (if fst (client_get_device (devices_of s server) (Some nm) s) = None
                     then [Write Lists] else [])
                    @ (if crashes st rest then [Exit]
                       else (if recognised st then [Write Lists] else [])
                         @ status_actions E server rest (read_status device st rest t)))))"
  by pat_completeness auto
termination
proof (relation "measure (\<lambda>(E, server, message, s). length message)", goal_cases)
  case (2 E server message s x nm rest y st rest' z t device)
  then show ?case using strtok_shorter [of delims message nm rest]
      strtok_shorter [of delims rest st rest'] by auto
qed simp

declare status_actions.simps [simp del]

text \<open>Storing the time, and one datagram, along \<open>client_process_command\<close>.\<close>

definition heard_from :: "env \<Rightarrow> srv_ptr \<Rightarrow> link_client \<Rightarrow> link_client" where
  "heard_from E server s = (case time_now E (lock_servers s) of (t, s) \<Rightarrow>
     unlock_servers (upd_server server (\<lambda>x. x\<lparr>srv_last_heard_from := t\<rparr>) s))"

definition branch_actions :: "env \<Rightarrow> srv_ptr \<Rightarrow> string \<Rightarrow> link_client \<Rightarrow> action list" where
  "branch_actions E server m s =
     (if starts_with BROADCAST_INIT m then [Lock, Write Lists, Unlock]
      else if starts_with BROADCAST_QUIT m then [Lock, Write Root, Write Lists, Unlock]
      else if starts_with BROADCAST_STATUS m
      then Unlock # status_actions E server (drop (length BROADCAST_STATUS) m) (unlock_servers s) @ [Unlock]
      else [])"

definition listener_actions :: "env \<Rightarrow> broadcast \<Rightarrow> link_client \<Rightarrow> action list" where
  "listener_actions E b s = (case b of
     Receive_error _ \<Rightarrow> [Exit]
   | Broadcast server_sa bytes \<Rightarrow>
       let s = undefined_if (\<not> length (take MAX_RECV_BUFFER bytes) < MAX_RECV_BUFFER) s
       in Read Root # (if g_servers s = [] then [] else [Read Lists])
          @ (case find_or_add_server E server_sa s of
               (None, t) \<Rightarrow> []
             | (Some server, t) \<Rightarrow>
                 (if fst (get_server (g_servers s) (sin_addr server_sa) s) = None
                  then [Lock, Write Root, Write Lists, Unlock] else [])
                 @ [Lock, Write Lists, Unlock]
                 @ branch_actions E server (c_string (take MAX_RECV_BUFFER bytes)) (heard_from E server t)))"

text \<open>The whole listener, along \<open>listen_for_status\<close>.\<close>

fun listener_todo :: "env \<Rightarrow> ready list \<Rightarrow> link_client \<Rightarrow> action list" where
  "listener_todo E [] s = []"
| "listener_todo E (Select_error e # rs) s = []"
| "listener_todo E (Nothing_ready # rs) s = listener_todo E rs s"
| "listener_todo E (Datagram b # rs) s = listener_actions E b s
     @ (let t = snd (client_process_command E b s) in if c_exited t then [] else listener_todo E rs t)"

section \<open>Interleaving\<close>

datatype thread = Main | Listener

record threads =
  holder :: "thread option"
  todo :: "thread \<Rightarrow> action list"

text \<open>
  Unlocking a free mutex leaves it free. What unlocking a mutex does that the other thread
  holds is not defined; \<open>U\<close> says who holds it then.
\<close>

inductive thread_step :: "(thread \<Rightarrow> thread option) \<Rightarrow> threads \<Rightarrow> threads \<Rightarrow> bool" for U where
  lock: "todo s t = Lock # as \<Longrightarrow> holder s = None \<Longrightarrow>
    thread_step U s (s\<lparr>holder := Some t, todo := (todo s)(t := as)\<rparr>)"
| unlock: "todo s t = Unlock # as \<Longrightarrow> holder s = None \<or> holder s = Some t \<Longrightarrow>
    thread_step U s (s\<lparr>holder := None, todo := (todo s)(t := as)\<rparr>)"
| foreign: "todo s t = Unlock # as \<Longrightarrow> holder s = Some u \<Longrightarrow> u \<noteq> t \<Longrightarrow>
    thread_step U s (s\<lparr>holder := U u, todo := (todo s)(t := as)\<rparr>)"
| reading: "todo s t = Read l # as \<Longrightarrow> thread_step U s (s\<lparr>todo := (todo s)(t := as)\<rparr>)"
| writing: "todo s t = Write l # as \<Longrightarrow> thread_step U s (s\<lparr>todo := (todo s)(t := as)\<rparr>)"
| exits: "todo s t = Exit # as \<Longrightarrow> thread_step U s (s\<lparr>holder := None, todo := (\<lambda>_. [])\<rparr>)"

definition threads_start :: "env \<Rightarrow> (waiting \<times> bool) list \<Rightarrow> ready list \<Rightarrow> link_client \<Rightarrow> threads" where
  "threads_start E rounds rs s = \<lparr>holder = None,
     todo = (\<lambda>t. case t of Main \<Rightarrow> concat (map main_actions rounds) | Listener \<Rightarrow> listener_todo E rs s)\<rparr>"

text \<open>Both threads are about to use the same data, and one of them may write.\<close>

fun accesses :: "location \<Rightarrow> action list \<Rightarrow> bool" where
  "accesses l (Read k # _) = (k = l)"
| "accesses l (Write k # _) = (k = l)"
| "accesses l _ = False"

fun writes :: "location \<Rightarrow> action list \<Rightarrow> bool" where
  "writes l (Write k # _) = (k = l)"
| "writes l _ = False"

definition race :: "location \<Rightarrow> threads \<Rightarrow> bool" where
  "race l s \<longleftrightarrow> accesses l (todo s Main) \<and> accesses l (todo s Listener)
     \<and> (writes l (todo s Main) \<or> writes l (todo s Listener))"

section \<open>Threads that keep to the mutex\<close>

text \<open>
  Started with or without the mutex: lock and unlock in turn; \<open>main\<close> writes nothing and reads
  the lists only with the mutex, the listener writes the lists only with it. That the listener
  looks for a server without the mutex does no harm, as nobody else writes.
\<close>

fun disciplined :: "thread \<Rightarrow> bool \<Rightarrow> action list \<Rightarrow> bool" where
  "disciplined t held [] = (\<not> held)"
| "disciplined t held (Lock # as) = (\<not> held \<and> disciplined t True as)"
| "disciplined t held (Unlock # as) = (held \<and> disciplined t False as)"
| "disciplined t held (Exit # as) = True"
| "disciplined t held (Read l # as) = ((t = Main \<and> l = Lists \<longrightarrow> held) \<and> disciplined t held as)"
| "disciplined t held (Write l # as) = (t = Listener \<and> (l = Lists \<longrightarrow> held) \<and> disciplined t held as)"

lemma disciplined_append: "disciplined t h as \<Longrightarrow> disciplined t False bs \<Longrightarrow> disciplined t h (as @ bs)"
  by (induction t h as rule: disciplined.induct) auto

lemma disciplined_concat: "(\<And>as. as \<in> set xs \<Longrightarrow> disciplined t False as) \<Longrightarrow> disciplined t False (concat xs)"
  by (induction xs) (simp_all add: disciplined_append)

lemma wait_disciplined: "disciplined Main True as \<Longrightarrow> disciplined Main False (wait_actions k @ as)"
proof -
  assume "disciplined Main True as"
  then have "disciplined Main True (concat (replicate k [Unlock, Lock, Read Root]) @ as)"
    by (induction k) simp_all
  then show ?thesis by (simp add: wait_actions_def)
qed

lemma main_disciplined: "disciplined Main False (main_actions r)"
  by (auto simp: main_actions_def wait_disciplined split: waiting.split)

definition is_status :: "string \<Rightarrow> bool" where
  "is_status m \<longleftrightarrow> starts_with BROADCAST_STATUS m \<and> \<not> starts_with BROADCAST_INIT m \<and> \<not> starts_with BROADCAST_QUIT m"

fun status_datagram :: "ready \<Rightarrow> bool" where
  "status_datagram (Datagram (Broadcast a bytes)) = is_status (c_string (take MAX_RECV_BUFFER bytes))"
| "status_datagram _ = False"

lemma listener_disciplined:
  assumes "\<not> status_datagram (Datagram b)"
  shows "disciplined Listener False (listener_actions E b s)"
proof (cases b)
  case (Broadcast a bytes)
  with assms have "disciplined Listener False (branch_actions E p (c_string (take MAX_RECV_BUFFER bytes)) u)" for p u
    by (auto simp: branch_actions_def is_status_def)
  then show ?thesis by (simp add: Broadcast listener_actions_def Let_def split: prod.split option.split)
qed (simp add: listener_actions_def)

lemma listener_todo_disciplined:
  "\<forall>r \<in> set rs. \<not> status_datagram r \<Longrightarrow> disciplined Listener False (listener_todo E rs s)"
  by (induction E rs s rule: listener_todo.induct)
    (simp_all add: Let_def listener_disciplined disciplined_append)

text \<open>A thread that has the mutex keeps the other out of the lists.\<close>

definition all_disciplined :: "threads \<Rightarrow> bool" where
  "all_disciplined s \<longleftrightarrow> (\<forall>t. disciplined t (holder s = Some t) (todo s t))"

lemma all_disciplinedD: "all_disciplined s \<Longrightarrow> todo s t = as \<Longrightarrow> disciplined t (holder s = Some t) as"
  by (auto simp: all_disciplined_def)

lemma thread_step_disciplined: "thread_step U s s' \<Longrightarrow> all_disciplined s \<Longrightarrow> all_disciplined s'"
proof (induction rule: thread_step.induct)
  case (lock s t as)
  have "disciplined u False (todo s u)" for u using all_disciplinedD [OF lock(3) refl, of u] lock(2) by simp
  with all_disciplinedD [OF lock(3,1)] lock(2) show ?case by (simp add: all_disciplined_def)
next
  case (unlock s t as)
  from all_disciplinedD [OF unlock(3,1)] have t: "holder s = Some t" "disciplined t False as" by auto
  have "disciplined u False (todo s u)" if "u \<noteq> t" for u
    using all_disciplinedD [OF unlock(3) refl, of u] t(1) that by simp
  with t(2) show ?case by (simp add: all_disciplined_def)
next
  case (foreign s t as u)
  from all_disciplinedD [OF foreign(4,1)] foreign(2,3) show ?case by simp
next
  case (reading s t l as)
  from all_disciplinedD [OF reading(2,1)] reading(2) show ?case by (simp add: all_disciplined_def)
next
  case (writing s t l as)
  from all_disciplinedD [OF writing(2,1)] writing(2) show ?case by (auto simp: all_disciplined_def)
next
  case (exits s t as)
  show ?case by (simp add: all_disciplined_def)
qed

lemma reached_disciplined: "(thread_step U)\<^sup>*\<^sup>* s s' \<Longrightarrow> all_disciplined s \<Longrightarrow> all_disciplined s'"
  by (induction rule: rtranclp_induct) (simp_all add: thread_step_disciplined)

lemma disciplined_writes: "disciplined t h as \<Longrightarrow> writes Lists as \<Longrightarrow> t = Listener \<and> h"
  by (cases "(Lists, as)" rule: writes.cases) auto

lemma disciplined_main: "disciplined Main h as \<Longrightarrow> accesses Lists as \<Longrightarrow> h"
  by (cases "(Lists, as)" rule: accesses.cases) auto

lemma disciplined_no_race:
  assumes "all_disciplined s"
  shows "\<not> race Lists s"
proof
  assume r: "race Lists s"
  note d = all_disciplinedD [OF assms refl]
  from r disciplined_main [OF d] have m: "holder s = Some Main" by (simp add: race_def)
  from r disciplined_writes [OF d, of Main] disciplined_writes [OF d, of Listener]
  have "holder s = Some Listener" by (auto simp: race_def)
  with m show False by simp
qed

lemma no_status_no_race:
  assumes "\<forall>r \<in> set rs. \<not> status_datagram r" "(thread_step U)\<^sup>*\<^sup>* (threads_start E rounds rs s) t"
  shows "\<not> race Lists t"
proof -
  have "disciplined Main False (concat (map main_actions rounds))"
    by (rule disciplined_concat) (auto simp: main_disciplined)
  then have "all_disciplined (threads_start E rounds rs s)"
    using listener_todo_disciplined [OF assms(1)]
    by (simp add: all_disciplined_def threads_start_def split: thread.split)
  from disciplined_no_race [OF reached_disciplined [OF assms(2) this]] show ?thesis .
qed

section \<open>No thread is ever stuck\<close>

text \<open>The next use of the mutex is not a second lock, and every lock has its unlock.\<close>

fun locks_ok :: "bool \<Rightarrow> action list \<Rightarrow> bool" where
  "locks_ok held [] = (\<not> held)"
| "locks_ok held (Lock # as) = (\<not> held \<and> locks_ok True as)"
| "locks_ok held (Unlock # as) = locks_ok False as"
| "locks_ok held (Exit # as) = True"
| "locks_ok held (Read l # as) = locks_ok held as"
| "locks_ok held (Write l # as) = locks_ok held as"

lemma locks_ok_append: "locks_ok h as \<Longrightarrow> locks_ok False bs \<Longrightarrow> locks_ok h (as @ bs)"
  by (induction h as rule: locks_ok.induct) auto

lemma locks_ok_concat: "(\<And>as. as \<in> set xs \<Longrightarrow> locks_ok False as) \<Longrightarrow> locks_ok False (concat xs)"
  by (induction xs) (simp_all add: locks_ok_append)

lemma locks_ok_free: "Lock \<notin> set as \<Longrightarrow> Unlock \<notin> set as \<Longrightarrow> locks_ok h bs \<Longrightarrow> locks_ok h (as @ bs)"
  by (induction h as rule: locks_ok.induct) auto

lemma disciplined_locks_ok: "disciplined t h as \<Longrightarrow> locks_ok h as"
  by (induction t h as rule: disciplined.induct) auto

text \<open>A status message touches the lists only; it ends the process only by a wild pointer.\<close>

lemma process_status_message_ub: "ub s \<Longrightarrow> ub (snd (process_status_message E p m s))"
  using process_status_message_keeps [of E p m s _ _ "{}"] by (metis prod.collapse same_servers_def)

lemma status_actions_set:
  "a \<in> set (status_actions E p m s) \<Longrightarrow>
     a = Read Lists \<or> a = Write Lists \<or> a = Exit \<and> ub (snd (process_status_message E p m s))"
proof (induction E p m s rule: status_actions.induct)
  case (1 E p m s)
  consider "status_actions E p m s = [] \<or> status_actions E p m s = [Read Lists]"
    | nm r st rest d t where "strtok delims m = Some (nm, r)" "strtok delims r = Some (st, rest)"
      "find_or_add_cdevice E p nm s = (Some d, t)"
  proof (cases "strtok delims m")
    case (Some x)
    obtain nm r where x: "x = (nm, r)" by fastforce
    obtain o' t where f: "find_or_add_cdevice E p nm s = (o', t)" by fastforce
    show ?thesis
    proof (cases "strtok delims r")
      case None
      then show ?thesis using that(1) Some x by (simp add: status_actions.simps [of E p m s])
    next
      case (Some y)
      then show ?thesis using that \<open>strtok delims m = Some x\<close> x f
        by (cases y; cases o') (simp_all add: status_actions.simps [of E p m s])
    qed
  qed (simp add: status_actions.simps [of E p m s])
  then show ?case
  proof cases
    case 1
    then show ?thesis using "1.prems" by auto
  next
    case t: (2 nm r st rest d t)
    let ?u = "read_status d st rest t"
    have p: "process_status_message E p m s = process_status_message E p rest ?u"
      using t by (subst process_status_message.simps) simp
    show ?thesis
    proof (cases "crashes st rest")
      case True
      then have "ub ?u" by (auto simp: crashes_def read_status_def read_uptime_def Let_def)
      from process_status_message_ub [OF this] show ?thesis
        using "1.prems" t True by (subst (asm) status_actions.simps) (auto simp: p split: if_splits)
    next
      case False
      have "a \<in> set (status_actions E p rest ?u) \<Longrightarrow>
          a = Read Lists \<or> a = Write Lists \<or> a = Exit \<and> ub (snd (process_status_message E p rest ?u))"
        using "1.IH" [OF t(1) refl t(2) refl t(3) [symmetric] refl False] .
      then show ?thesis
        using "1.prems" t False by (subst (asm) status_actions.simps) (auto simp: p split: if_splits)
    qed
  qed
qed

lemma listener_locks_ok: "locks_ok False (listener_actions E b s)"
proof (cases b)
  case (Broadcast a bytes)
  have "locks_ok False (status_actions E p m u @ [Unlock])" for p m u
    by (rule locks_ok_free) (auto dest: status_actions_set)
  then have "locks_ok False (branch_actions E p m u)" for p m u by (simp add: branch_actions_def)
  then show ?thesis by (simp add: Broadcast listener_actions_def Let_def split: prod.split option.split)
qed (simp add: listener_actions_def)

lemma listener_todo_locks_ok: "locks_ok False (listener_todo E rs s)"
  by (induction E rs s rule: listener_todo.induct) (simp_all add: Let_def listener_locks_ok locks_ok_append)

definition mutex_in_use :: "threads \<Rightarrow> bool" where
  "mutex_in_use s \<longleftrightarrow> (\<forall>t. \<exists>h. locks_ok h (todo s t) \<and> (holder s = Some t \<longrightarrow> h))"

lemma mutex_in_useD:
  assumes "mutex_in_use s" "todo s t = as"
  obtains h where "locks_ok h as" "holder s = Some t \<Longrightarrow> h"
  using assms unfolding mutex_in_use_def by metis

lemma mutex_in_useI:
  assumes "locks_ok h as" "who = Some t \<Longrightarrow> h"
    "\<And>u. u \<noteq> t \<Longrightarrow> \<exists>h. locks_ok h (todo s u) \<and> (who = Some u \<longrightarrow> h)"
  shows "mutex_in_use (s\<lparr>holder := who, todo := (todo s)(t := as)\<rparr>)"
  unfolding mutex_in_use_def
proof
  fix u
  show "\<exists>h. locks_ok h (todo (s\<lparr>holder := who, todo := (todo s)(t := as)\<rparr>) u)
      \<and> (holder (s\<lparr>holder := who, todo := (todo s)(t := as)\<rparr>) = Some u \<longrightarrow> h)"
    using assms by (cases "u = t") auto
qed

lemma thread_step_mutex:
  assumes U: "\<And>u. U u = None \<or> U u = Some u"
  shows "thread_step U s s' \<Longrightarrow> mutex_in_use s \<Longrightarrow> mutex_in_use s'"
proof (induction rule: thread_step.induct)
  case (lock s t as)
  from mutex_in_useD [OF lock(3,1)] have "locks_ok True as" by auto
  then show ?case by (rule mutex_in_useI) (use lock(3) in \<open>auto simp: mutex_in_use_def\<close>)
next
  case (unlock s t as)
  from mutex_in_useD [OF unlock(3,1)] have "locks_ok False as" by auto
  then show ?case by (rule mutex_in_useI) (use unlock(3) in \<open>auto simp: mutex_in_use_def\<close>)
next
  case (foreign s t as u)
  from mutex_in_useD [OF foreign(4,1)] have "locks_ok False as" by auto
  moreover have "U u = Some t \<Longrightarrow> False" using U [of u] foreign(3) by auto
  moreover have "\<exists>h. locks_ok h (todo s v) \<and> (U u = Some v \<longrightarrow> h)" for v
    using foreign(2,4) U [of u] unfolding mutex_in_use_def by (metis option.distinct(1))
  ultimately show ?case by (intro mutex_in_useI) blast+
next
  case (reading s t l as)
  from mutex_in_useD [OF reading(2,1)] obtain h where "locks_ok h as" "holder s = Some t \<Longrightarrow> h" by auto
  then have "mutex_in_use (s\<lparr>holder := holder s, todo := (todo s)(t := as)\<rparr>)"
    by (rule mutex_in_useI) (use reading(2) in \<open>auto simp: mutex_in_use_def\<close>)
  then show ?case by simp
next
  case (writing s t l as)
  from mutex_in_useD [OF writing(2,1)] obtain h where "locks_ok h as" "holder s = Some t \<Longrightarrow> h" by auto
  then have "mutex_in_use (s\<lparr>holder := holder s, todo := (todo s)(t := as)\<rparr>)"
    by (rule mutex_in_useI) (use writing(2) in \<open>auto simp: mutex_in_use_def\<close>)
  then show ?case by simp
next
  case (exits s t as)
  show ?case by (auto simp: mutex_in_use_def)
qed

definition finished :: "threads \<Rightarrow> bool" where
  "finished s \<longleftrightarrow> todo s Main = [] \<and> todo s Listener = []"

lemma finished_stuck: "finished s \<Longrightarrow> \<not> thread_step U s s'"
proof
  assume "finished s" "thread_step U s s'"
  have none: "todo s t = []" for t using \<open>finished s\<close> by (cases t) (simp_all add: finished_def)
  from \<open>thread_step U s s'\<close> show False by cases (simp_all add: none)
qed

lemma someone_steps:
  assumes m: "mutex_in_use s" and n: "\<not> finished s"
  shows "\<exists>s'. thread_step U s s'"
proof -
  have step: "\<exists>s'. thread_step U s s'" if "todo s t = a # as" "a = Lock \<Longrightarrow> holder s = None" for t a as
  proof (cases a)
    case Unlock
    show ?thesis
    proof (cases "holder s = None \<or> holder s = Some t")
      case False
      then obtain u where "holder s = Some u" "u \<noteq> t" by auto
      with thread_step.foreign [of s t as u U] that(1) Unlock show ?thesis by blast
    qed (use thread_step.unlock [of s t as U] that(1) Unlock in blast)
  next
    case Lock
    with that thread_step.lock [of s t as U] show ?thesis by blast
  next
    case Exit
    with that(1) thread_step.exits [of s t as U] show ?thesis by blast
  next
    case (Read l)
    with that(1) thread_step.reading [of s t l as U] show ?thesis by blast
  next
    case (Write l)
    with that(1) thread_step.writing [of s t l as U] show ?thesis by blast
  qed
  show ?thesis
  proof (cases "holder s")
    case None
    from n obtain t where "todo s t \<noteq> []" unfolding finished_def by blast
    then obtain a as where "todo s t = a # as" by (cases "todo s t") auto
    then show ?thesis using step None by blast
  next
    case (Some t)
    from mutex_in_useD [OF m refl, of t] Some have "locks_ok True (todo s t)" by auto
    then obtain a as where "todo s t = a # as" "a \<noteq> Lock"
      by (cases "(True, todo s t)" rule: locks_ok.cases) auto
    then show ?thesis using step by blast
  qed
qed

definition actions_left :: "threads \<Rightarrow> nat" where
  "actions_left s = length (todo s Main) + length (todo s Listener)"

lemma actions_left_todo:
  assumes "todo s t = a # as" "todo s' = (todo s)(t := as) \<or> todo s' = (\<lambda>_. [])"
  shows "actions_left s' < actions_left s"
  using assms by (cases t) (auto simp: actions_left_def)

lemma thread_step_shrinks: "thread_step U s s' \<Longrightarrow> actions_left s' < actions_left s"
  by (induction rule: thread_step.induct) (rule actions_left_todo, assumption, simp)+

lemma runs_finish:
  assumes U: "\<And>u. U u = None \<or> U u = Some u"
  shows "mutex_in_use s \<Longrightarrow> \<exists>s'. (thread_step U)\<^sup>*\<^sup>* s s' \<and> finished s'"
proof (induction "actions_left s" arbitrary: s rule: less_induct)
  case less
  show ?case
  proof (cases "finished s")
    case False
    then obtain s' where s': "thread_step U s s'" using someone_steps less.prems by blast
    then have "\<exists>t. (thread_step U)\<^sup>*\<^sup>* s' t \<and> finished t"
      using less.hyps [OF thread_step_shrinks] thread_step_mutex [OF U] less.prems by blast
    then show ?thesis using s' by (meson converse_rtranclp_into_rtranclp)
  qed blast
qed

lemma start_mutex: "mutex_in_use (threads_start E rounds rs s)"
proof -
  have "locks_ok False (concat (map main_actions rounds))"
    by (rule locks_ok_concat) (auto intro: disciplined_locks_ok main_disciplined)
  then show ?thesis
    unfolding mutex_in_use_def using listener_todo_locks_ok
    by (auto simp: threads_start_def split: thread.split)
qed

lemma reached_mutex:
  assumes U: "\<And>u. U u = None \<or> U u = Some u"
  shows "(thread_step U)\<^sup>*\<^sup>* s s' \<Longrightarrow> mutex_in_use s \<Longrightarrow> mutex_in_use s'"
  by (induction rule: rtranclp_induct) (use thread_step_mutex [OF U] in blast)+

end
