(* ===== verification/Client_Races.thy ===== *)
theory Client_Races
  imports Client_Threads
begin

text \<open>
  Interleavings of the client's threads that do meet: the listener is run alone up to its
  unprotected access and \<open>main\<close> then to its own. The last section ties the sequences of
  actions to the handler of \<open>Client_Listen\<close>, which counts the unlocks of a mutex not held.
\<close>

section \<open>One thread running alone\<close>

text \<open>Whether a thread gets through its actions alone, and whether it holds the mutex then.\<close>

fun solo_end :: "bool \<Rightarrow> action list \<Rightarrow> bool option" where
  "solo_end held [] = Some held"
| "solo_end held (Lock # as) = (if held then None else solo_end True as)"
| "solo_end held (Unlock # as) = solo_end False as"
| "solo_end held (Exit # as) = None"
| "solo_end held (Read l # as) = solo_end held as"
| "solo_end held (Write l # as) = solo_end held as"

lemma solo_append: "solo_end h as = Some k \<Longrightarrow> solo_end h (as @ bs) = solo_end k bs"
  by (induction h as rule: solo_end.induct) (auto split: if_splits)

lemma solo_free: "\<forall>a \<in> set as. a \<notin> {Lock, Unlock, Exit} \<Longrightarrow> solo_end h as = Some h"
  by (induction h as rule: solo_end.induct) auto

abbreviation has_mutex :: "thread \<Rightarrow> bool \<Rightarrow> thread option" where
  "has_mutex t h \<equiv> if h then Some t else None"

text \<open>The state after one thread has run up to \<open>rest\<close>.\<close>

abbreviation ran_to :: "thread \<Rightarrow> bool \<Rightarrow> action list \<Rightarrow> threads \<Rightarrow> threads" where
  "ran_to t h rest s \<equiv> s\<lparr>holder := has_mutex t h, todo := (todo s)(t := rest)\<rparr>"

lemma solo_run:
  assumes "solo_end h as = Some k"
  shows "holder s = has_mutex t h \<Longrightarrow> todo s t = as @ rest \<Longrightarrow> (thread_step U)\<^sup>*\<^sup>* s (ran_to t k rest s)"
  using assms
proof (induction h as arbitrary: s rule: solo_end.induct)
  case (1 h)
  then have "ran_to t k rest s = s" by (cases s) auto
  then show ?case by (simp only: rtranclp.rtrancl_refl)
next
  case (2 h as)
  then have h: "\<not> h" "solo_end True as = Some k" by (auto split: if_splits)
  let ?s = "s\<lparr>holder := Some t, todo := (todo s)(t := as @ rest)\<rparr>"
  have "thread_step U s ?s" using 2 h by (intro thread_step.lock) simp_all
  moreover have "(thread_step U)\<^sup>*\<^sup>* ?s (ran_to t k rest ?s)"
    by (rule "2.IH") (use h in simp_all)
  moreover have "ran_to t k rest ?s = ran_to t k rest s" by simp
  ultimately show ?case by (metis converse_rtranclp_into_rtranclp)
next
  case (3 h as)
  let ?s = "s\<lparr>holder := None, todo := (todo s)(t := as @ rest)\<rparr>"
  have "thread_step U s ?s" using 3 by (intro thread_step.unlock) (simp_all split: if_splits)
  moreover have "(thread_step U)\<^sup>*\<^sup>* ?s (ran_to t k rest ?s)"
    by (rule "3.IH") (use 3 in simp_all)
  moreover have "ran_to t k rest ?s = ran_to t k rest s" by simp
  ultimately show ?case by (metis converse_rtranclp_into_rtranclp)
next
  case (5 h l as)
  let ?s = "s\<lparr>todo := (todo s)(t := as @ rest)\<rparr>"
  have "thread_step U s ?s" using 5 by (intro thread_step.reading) simp
  moreover have "(thread_step U)\<^sup>*\<^sup>* ?s (ran_to t k rest ?s)"
    by (rule "5.IH") (use 5 in simp_all)
  moreover have "ran_to t k rest ?s = ran_to t k rest s" by simp
  ultimately show ?case by (metis converse_rtranclp_into_rtranclp)
next
  case (6 h l as)
  let ?s = "s\<lparr>todo := (todo s)(t := as @ rest)\<rparr>"
  have "thread_step U s ?s" using 6 by (intro thread_step.writing) simp
  moreover have "(thread_step U)\<^sup>*\<^sup>* ?s (ran_to t k rest ?s)"
    by (rule "6.IH") (use 6 in simp_all)
  moreover have "ran_to t k rest ?s = ran_to t k rest s" by simp
  ultimately show ?case by (metis converse_rtranclp_into_rtranclp)
qed simp_all

section \<open>The handler and its actions\<close>

lemma client_process_command_heard:
  "client_process_command E (Broadcast a bytes) s =
     (let s = undefined_if (\<not> length (take MAX_RECV_BUFFER bytes) < MAX_RECV_BUFFER) s
      in case find_or_add_server E a s of
           (None, t) \<Rightarrow> (-1, t)
         | (Some p, t) \<Rightarrow> server_broadcast E p (c_string (take MAX_RECV_BUFFER bytes)) (heard_from E p t))"
  by (simp add: client_process_command_def heard_from_def Let_def case_prod_beta split: option.split)

text \<open>A handler that stays within defined behaviour gets through its actions.\<close>

lemma branch_solo:
  assumes "\<not> ub (snd (server_broadcast E p m s))"
  shows "solo_end False (branch_actions E p m s) = Some False"
proof -
  let ?as = "status_actions E p (drop (length BROADCAST_STATUS) m) (unlock_servers s)"
  have "solo_end False (?as @ [Unlock]) = Some False" if "is_status m"
  proof -
    have "\<not> ub (snd (process_status_message E p (drop (length BROADCAST_STATUS) m) (unlock_servers s)))"
      using assms that by (simp add: is_status_def server_broadcast_def case_prod_beta)
    then have "\<forall>a \<in> set ?as. a \<notin> {Lock, Unlock, Exit}" by (auto dest: status_actions_set)
    from solo_append [OF solo_free [OF this]] show ?thesis by simp
  qed
  then show ?thesis by (simp add: branch_actions_def is_status_def)
qed

lemma listener_solo:
  assumes "\<not> ub (snd (client_process_command E (Broadcast a bytes) s))"
  shows "solo_end False (listener_actions E (Broadcast a bytes) s) = Some False"
proof -
  let ?s = "undefined_if (\<not> length (take MAX_RECV_BUFFER bytes) < MAX_RECV_BUFFER) s"
  obtain p t where f: "find_or_add_server E a ?s = (p, t)" by fastforce
  then have "\<not> ub (snd (server_broadcast E q (c_string (take MAX_RECV_BUFFER bytes)) (heard_from E q t)))"
    if "p = Some q" for q
    using assms that by (simp add: client_process_command_heard Let_def)
  then show ?thesis using f branch_solo
    by (simp add: listener_actions_def Let_def split: option.split)
qed

lemma rm_server_exited: "c_exited (snd (snd (rm_server l p u))) = c_exited u"
  by (simp add: rm_server_result)

lemma broadcast_keeps_running: "c_exited (snd (client_process_command E (Broadcast a bytes) s)) = c_exited s"
proof -
  have p: "c_exited (snd (process_status_message E p m u)) = c_exited u" for p m u
    using process_status_message_keeps [of E p m u _ _ "{}"] by (metis prod.collapse same_servers_def)
  have b: "c_exited (snd (server_broadcast E p m u)) = c_exited u" for p m u
    using p by (simp add: server_broadcast_def case_prod_beta drop_devices_result rm_server_exited
        lock_servers_def unlock_servers_def)
  have h: "c_exited (heard_from E p u) = c_exited u" for p u
    by (simp add: heard_from_def case_prod_beta lock_servers_def unlock_servers_def)
  have core: "same_core u (snd (snd (add_server E l q u)))" for l q u by (rule srvs.add_core)
  have "c_exited (snd (snd (add_server E l q u))) = c_exited u" for l q u
    using same_core_client_fields [OF core] by simp
  then have f: "c_exited (snd (find_or_add_server E a u)) = c_exited u" for u
    by (simp add: find_or_add_server_def get_server_find case_prod_beta new_server_def
        lock_servers_def unlock_servers_def split: option.split)
  show ?thesis
    using f [of "undefined_if (\<not> length (take MAX_RECV_BUFFER bytes) < MAX_RECV_BUFFER) s"] b h
    by (simp add: client_process_command_heard Let_def case_prod_beta split: option.split)
qed

text \<open>Up to an honest datagram the listener is still running.\<close>

fun honest_delivery :: "ready \<Rightarrow> bool" where
  "honest_delivery (Datagram (Broadcast a m)) = server_text m"
| "honest_delivery Nothing_ready = True"
| "honest_delivery _ = False"

lemma honest_delivery_from: "honest_delivery r \<Longrightarrow> from_server r"
  by (cases r rule: honest_delivery.cases) simp_all

lemma listener_after:
  assumes E: "\<And>n. e_malloc E n"
  shows "\<forall>r \<in> set ds. honest_delivery r \<Longrightarrow> client_wf s \<Longrightarrow> \<not> ub s \<Longrightarrow> \<not> c_exited s \<Longrightarrow>
    \<exists>as. solo_end False as = Some False \<and> \<not> c_exited (listen_for_status E ds s)
      \<and> (\<forall>rs. listener_todo E (ds @ rs) s = as @ listener_todo E rs (listen_for_status E ds s))"
proof (induction ds arbitrary: s)
  case (Cons r ds)
  show ?case
  proof (cases r rule: honest_delivery.cases)
    case (1 a m)
    let ?t = "snd (client_process_command E (Broadcast a m) s)"
    have t: "\<not> ub ?t" "\<not> c_exited ?t" "client_wf ?t"
      using client_process_command_honest [OF E _ Cons.prems(2), of m a] broadcast_keeps_running [of E a m s]
        client_process_command_keeps [OF Cons.prems(2), of E "Broadcast a m"] Cons.prems 1
      by (auto simp: prod_eq_iff)
    from Cons.IH [OF _ t(3,1,2)] Cons.prems(1) obtain as where as: "solo_end False as = Some False"
      "\<not> c_exited (listen_for_status E ds ?t)"
      "\<forall>rs. listener_todo E (ds @ rs) ?t = as @ listener_todo E rs (listen_for_status E ds ?t)" by auto
    show ?thesis
      by (rule exI [of _ "listener_actions E (Broadcast a m) s @ as"])
        (use 1 as t(2) solo_append [OF listener_solo [OF t(1)]] in \<open>simp add: case_prod_beta Let_def\<close>)
  qed (use Cons in simp_all)
qed (intro exI [of _ "[]"], simp)

section \<open>Where the threads meet\<close>

text \<open>Whether a status message begins with a device and a status the client stores.\<close>

definition carries_status :: "string \<Rightarrow> bool" where
  "carries_status m \<longleftrightarrow> is_status m
     \<and> (case strtok delims (drop (length BROADCAST_STATUS) m) of
          None \<Rightarrow> False
        | Some (_, rest) \<Rightarrow>
            (case strtok delims rest of
               None \<Rightarrow> False | Some (st, rest) \<Rightarrow> recognised st \<and> \<not> crashes st rest))"

lemma status_actions_first:
  assumes "carries_status m" "wf_cdevices p s" "\<And>n. e_malloc E n"
  obtains as where "status_actions E p (drop (length BROADCAST_STATUS) m) s = Read Lists # Write Lists # as"
proof -
  let ?m = "drop (length BROADCAST_STATUS) m"
  from assms(1) obtain nm r st rest where t: "strtok delims ?m = Some (nm, r)" "strtok delims r = Some (st, rest)"
    "recognised st" "\<not> crashes st rest"
    by (auto simp: carries_status_def split: option.splits)
  obtain d u where "find_or_add_cdevice E p nm s = (Some d, u)" using find_or_add_spec [OF assms(2,3)] .
  with t that show ?thesis
    by (cases "fst (client_get_device (devices_of s p) (Some nm) s) = None")
      (simp_all add: status_actions.simps [of E p ?m s])
qed

lemma find_or_add_server_found:
  assumes "\<And>n. e_malloc E n"
  obtains p t where "find_or_add_server E a s = (Some p, t)"
proof -
  have "fst (malloc E u)" for u :: link_client using assms by (simp add: malloc_def)
  then have "fst (find_or_add_server E a s) \<noteq> None"
    by (auto simp: find_or_add_server_def get_server_find new_server_def case_prod_beta split: option.split)
  with that show ?thesis by (cases "find_or_add_server E a s") auto
qed

text \<open>
  The listener comes up to its unprotected write while the mutex is free, then \<open>main\<close> takes
  it and comes up to its read.
\<close>

lemma status_races:
  assumes E: "\<And>n. e_malloc E n" and wf: "client_wf s" "\<not> ub s" "\<not> c_exited s"
    and ds: "\<forall>r \<in> set ds. honest_delivery r" and m: "carries_status (c_string (take MAX_RECV_BUFFER m))"
  shows "\<exists>t. (thread_step U)\<^sup>*\<^sup>* (threads_start E ((Servers_known, True) # rounds) (ds @ Datagram (Broadcast a m) # es) s) t
    \<and> race Lists t"
proof -
  let ?m = "c_string (take MAX_RECV_BUFFER m)"
  from listener_after [OF E ds wf] obtain as where as: "solo_end False as = Some False"
    "\<And>rs. listener_todo E (ds @ rs) s = as @ listener_todo E rs (listen_for_status E ds s)" by blast
  define s1 where "s1 = undefined_if (\<not> length (take MAX_RECV_BUFFER m) < MAX_RECV_BUFFER) (listen_for_status E ds s)"
  have "\<forall>r \<in> set ds. from_server r" using ds honest_delivery_from by blast
  then have "client_wf s1" unfolding s1_def
    using listen_for_status_honest [OF E _ wf(1,2)] alike_wf [OF alike_steps(3)] by blast
  obtain p t where f: "find_or_add_server E a s1 = (Some p, t)" by (rule find_or_add_server_found [OF E])
  then have "wf_cdevices p t"
    using find_or_add_server_keeps [OF \<open>client_wf s1\<close>] devices_wfD(2) by blast
  then have "wf_cdevices p (unlock_servers (heard_from E p t))"
    by (simp add: wf_cdevices_def heard_from_def case_prod_beta unlock_servers_def lock_servers_def)
  from status_actions_first [OF m this E] obtain more where
    more: "status_actions E p (drop (length BROADCAST_STATUS) ?m) (unlock_servers (heard_from E p t))
      = Read Lists # Write Lists # more" .
  have g: "g_servers s1 = g_servers (listen_for_status E ds s)" by (simp add: s1_def)
  define pre where "pre = Read Root # (if g_servers s1 = [] then [] else [Read Lists])
      @ (if fst (get_server (g_servers s1) (sin_addr a) s1) = None then [Lock, Write Root, Write Lists, Unlock] else [])
      @ [Lock, Write Lists, Unlock] @ [Unlock, Read Lists]"
  have "is_status ?m" using m by (simp add: carries_status_def)
  then have "branch_actions E p ?m (heard_from E p t) = Unlock # (Read Lists # Write Lists # more) @ [Unlock]"
    using more by (simp add: branch_actions_def is_status_def)
  then have "listener_actions E (Broadcast a m) (listen_for_status E ds s) = pre @ Write Lists # more @ [Unlock]"
    using f by (simp add: listener_actions_def Let_def pre_def g del: length_take flip: s1_def)
  then obtain lrest where "listener_todo E (ds @ Datagram (Broadcast a m) # es) s = (as @ pre) @ Write Lists # lrest"
    by (simp add: as(2))
  moreover have "solo_end False pre = Some False" by (simp add: pre_def)
  ultimately have l: "solo_end False (as @ pre) = Some False"
    "todo (threads_start E ((Servers_known, True) # rounds) (ds @ Datagram (Broadcast a m) # es) s) Listener
      = (as @ pre) @ Write Lists # lrest"
    using solo_append [OF as(1)] by (simp_all add: threads_start_def)
  let ?s0 = "threads_start E ((Servers_known, True) # rounds) (ds @ Datagram (Broadcast a m) # es) s"
  define s2 where "s2 = ran_to Listener False (Write Lists # lrest) ?s0"
  have r1: "(thread_step U)\<^sup>*\<^sup>* ?s0 s2"
    unfolding s2_def by (rule solo_run [OF l(1) _ l(2)]) (simp add: threads_start_def)
  let ?mrest = "[Read Lists, Unlock] @ concat (map main_actions rounds)"
  have r2: "(thread_step U)\<^sup>*\<^sup>* s2 (ran_to Main True ?mrest s2)"
    by (rule solo_run [where h = False and as = "[Read Root, Lock, Read Root]"])
      (simp_all add: s2_def threads_start_def main_actions_def)
  have "race Lists (ran_to Main True ?mrest s2)" by (simp add: race_def s2_def)
  with r1 r2 show ?thesis by (meson rtranclp_trans)
qed

text \<open>
  \<open>main\<close> looks at \<open>g_servers\<close> without the mutex at the start of each round, so a first
  datagram of a server races with it on that pointer, whatever the datagram holds.
\<close>

lemma new_server_races:
  assumes E: "\<And>n. e_malloc E n" and "\<forall>r \<in> set ds. honest_delivery r" "client_wf s" "\<not> ub s" "\<not> c_exited s"
    and new: "List.find (\<lambda>p. server_key (listen_for_status E ds s) p = sin_addr a)
      (g_servers (listen_for_status E ds s)) = None"
  shows "\<exists>t. (thread_step U)\<^sup>*\<^sup>* (threads_start E (r # rounds) (ds @ Datagram (Broadcast a m) # es) s) t \<and> race Root t"
proof -
  from listener_after [OF E assms(2-5)] obtain as where as: "solo_end False as = Some False"
    "\<And>rs. listener_todo E (ds @ rs) s = as @ listener_todo E rs (listen_for_status E ds s)" by blast
  define s1 where "s1 = undefined_if (\<not> length (take MAX_RECV_BUFFER m) < MAX_RECV_BUFFER) (listen_for_status E ds s)"
  obtain p t where f: "find_or_add_server E a s1 = (Some p, t)" by (rule find_or_add_server_found [OF E])
  have "fst (get_server (g_servers s1) (sin_addr a) s1) = None"
    using new by (simp add: s1_def get_server_find)
  have g: "g_servers s1 = g_servers (listen_for_status E ds s)" by (simp add: s1_def)
  define pre where "pre = Read Root # (if g_servers s1 = [] then [] else [Read Lists]) @ [Lock]"
  obtain lrest where "listener_todo E (ds @ Datagram (Broadcast a m) # es) s = (as @ pre) @ Write Root # lrest"
    using f \<open>fst (get_server (g_servers s1) (sin_addr a) s1) = None\<close>
    by (simp add: as(2) listener_actions_def Let_def pre_def g del: length_take flip: s1_def)
  then have l: "todo (threads_start E (r # rounds) (ds @ Datagram (Broadcast a m) # es) s) Listener
      = (as @ pre) @ Write Root # lrest" by (simp add: threads_start_def)
  have "solo_end False (as @ pre) = Some True" using solo_append [OF as(1)] by (simp add: pre_def)
  then have "(thread_step U)\<^sup>*\<^sup>* (threads_start E (r # rounds) (ds @ Datagram (Broadcast a m) # es) s)
      (ran_to Listener True (Write Root # lrest) (threads_start E (r # rounds) (ds @ Datagram (Broadcast a m) # es) s))"
    by (rule solo_run [OF _ _ l]) (simp add: threads_start_def)
  moreover have "race Root
      (ran_to Listener True (Write Root # lrest) (threads_start E (r # rounds) (ds @ Datagram (Broadcast a m) # es) s))"
    by (simp add: race_def threads_start_def main_actions_def)
  ultimately show ?thesis by blast
qed

section \<open>The same order in the model of the handler\<close>

text \<open>The unlocks of a mutex that the thread does not hold are those the handler counts.\<close>

fun unheld_unlocks :: "bool \<Rightarrow> action list \<Rightarrow> nat" where
  "unheld_unlocks held [] = 0"
| "unheld_unlocks held (Lock # as) = unheld_unlocks True as"
| "unheld_unlocks held (Unlock # as) = (if held then 0 else 1) + unheld_unlocks False as"
| "unheld_unlocks held (Exit # as) = 0"
| "unheld_unlocks held (Read l # as) = unheld_unlocks held as"
| "unheld_unlocks held (Write l # as) = unheld_unlocks held as"

lemma unheld_free: "\<forall>a \<in> set as. a \<notin> {Lock, Unlock, Exit} \<Longrightarrow> unheld_unlocks h (as @ bs) = unheld_unlocks h bs"
  by (induction h as rule: unheld_unlocks.induct) auto

lemma lock_fields [simp]:
  "servers_locked (lock_servers s)" "\<not> servers_locked (unlock_servers s)"
  "bad_unlocks (lock_servers s) = bad_unlocks s"
  "bad_unlocks (unlock_servers s) = bad_unlocks s + (if servers_locked s then 0 else 1)"
  by (simp_all add: lock_servers_def unlock_servers_def)

lemma heard_from_locks [simp]:
  "\<not> servers_locked (heard_from E p s)" "bad_unlocks (heard_from E p s) = bad_unlocks s"
  by (simp_all add: heard_from_def case_prod_beta)

lemma find_or_add_server_locks:
  assumes "\<not> servers_locked s" "find_or_add_server E a s = (p, t)"
  shows "\<not> servers_locked t" "bad_unlocks t = bad_unlocks s"
proof -
  have core: "same_core u (snd (snd (add_server E l q u)))" for l q u by (rule srvs.add_core)
  have add: "servers_locked (snd (snd (add_server E l q u))) = servers_locked u"
    "bad_unlocks (snd (snd (add_server E l q u))) = bad_unlocks u" for l q u
    using same_core_client_fields [OF core] by simp_all
  show "\<not> servers_locked t" "bad_unlocks t = bad_unlocks s"
    using assms add
    by (auto simp: find_or_add_server_def get_server_find case_prod_beta new_server_def split: option.splits if_splits)
qed

lemma server_broadcast_locks:
  assumes "\<not> servers_locked s" "server_broadcast E p m s = (r, t)"
  shows "\<not> servers_locked t" "bad_unlocks t = bad_unlocks s + (if is_status m then 2 else 0)"
proof -
  have rm: "snd (snd (rm_server l p u)) \<in> {u, set_errno ENODEV u}" for l u by (simp add: rm_server_result)
  have rm': "servers_locked (snd (snd (rm_server l p u))) = servers_locked u"
    "bad_unlocks (snd (snd (rm_server l p u))) = bad_unlocks u" for l u
    using rm [of l u] by auto
  obtain k v where m: "process_status_message E p (drop (length BROADCAST_STATUS) m) (unlock_servers s) = (k, v)"
    by fastforce
  have v: "\<not> servers_locked v" "bad_unlocks v = Suc (bad_unlocks s)"
    using process_status_message_keeps [OF m, of "{}"] assms(1) by (simp_all add: same_servers_def)
  show "\<not> servers_locked t" "bad_unlocks t = bad_unlocks s + (if is_status m then 2 else 0)"
    using assms m v rm'
    by (auto simp: server_broadcast_def drop_devices_result case_prod_beta is_status_def split: if_splits)
qed

lemma unheld_branch:
  assumes "\<not> ub (snd (server_broadcast E p m s))"
  shows "unheld_unlocks False (branch_actions E p m s) = (if is_status m then 2 else 0)"
proof -
  let ?as = "status_actions E p (drop (length BROADCAST_STATUS) m) (unlock_servers s)"
  have "unheld_unlocks False (?as @ [Unlock]) = 1" if "is_status m"
  proof -
    have "\<not> ub (snd (process_status_message E p (drop (length BROADCAST_STATUS) m) (unlock_servers s)))"
      using assms that by (simp add: is_status_def server_broadcast_def case_prod_beta)
    then have "\<forall>a \<in> set ?as. a \<notin> {Lock, Unlock, Exit}" by (auto dest: status_actions_set)
    from unheld_free [OF this] show ?thesis by simp
  qed
  then show ?thesis by (simp add: branch_actions_def is_status_def)
qed

lemma handler_follows_actions:
  assumes "\<not> servers_locked s" "client_process_command E (Broadcast a bytes) s = (r, t)" "\<not> ub t"
  shows "\<not> servers_locked t"
    "bad_unlocks t = bad_unlocks s + unheld_unlocks False (listener_actions E (Broadcast a bytes) s)"
proof -
  define s1 where "s1 = undefined_if (\<not> length (take MAX_RECV_BUFFER bytes) < MAX_RECV_BUFFER) s"
  obtain p u where f: "find_or_add_server E a s1 = (p, u)" by fastforce
  note u = find_or_add_server_locks [OF _ f]
  have s1: "\<not> servers_locked s1" "bad_unlocks s1 = bad_unlocks s" using assms(1) by (simp_all add: s1_def)
  have "\<not> servers_locked t \<and> bad_unlocks t = bad_unlocks s + unheld_unlocks False (listener_actions E (Broadcast a bytes) s)"
  proof (cases p)
    case None
    then show ?thesis using f u s1 assms(2)
      by (simp add: client_process_command_heard listener_actions_def Let_def del: length_take flip: s1_def)
  next
    case (Some q)
    let ?m = "c_string (take MAX_RECV_BUFFER bytes)"
    have b: "server_broadcast E q ?m (heard_from E q u) = (r, t)"
      using f Some assms(2) by (simp add: client_process_command_heard Let_def del: length_take flip: s1_def)
    have "\<not> ub (snd (server_broadcast E q ?m (heard_from E q u)))" using b assms(3) by simp
    from unheld_branch [OF this] server_broadcast_locks [OF _ b] u s1 f Some show ?thesis
      by (simp add: listener_actions_def Let_def del: length_take flip: s1_def)
  qed
  then show "\<not> servers_locked t"
    "bad_unlocks t = bad_unlocks s + unheld_unlocks False (listener_actions E (Broadcast a bytes) s)" by simp_all
qed

text \<open>A message whose actions hold no write leaves the client as it is.\<close>

lemma silent_status:
  "Write Lists \<notin> set (status_actions E p m s) \<Longrightarrow> Exit \<notin> set (status_actions E p m s)
     \<Longrightarrow> \<forall>n. e_malloc E n \<Longrightarrow> wf_cdevices p s \<Longrightarrow> snd (process_status_message E p m s) = s"
proof (induction E p m s rule: status_actions.induct)
  case (1 E p m s)
  show ?case
  proof (cases "\<exists>nm r st rest. strtok delims m = Some (nm, r) \<and> strtok delims r = Some (st, rest)")
    case False
    show ?thesis
    proof (cases "strtok delims m")
      case (Some x)
      with False have "strtok delims (snd x) = None" by (cases x; cases "strtok delims (snd x)") auto
      then show ?thesis using Some by (simp add: process_status_message.simps [of E p m s] case_prod_beta)
    qed (simp add: process_status_message.simps [of E p m s])
  next
    case True
    then obtain nm r st rest where t: "strtok delims m = Some (nm, r)" "strtok delims r = Some (st, rest)" by blast
    show ?thesis
    proof (cases "List.find (\<lambda>d. cdevice_key s d = Some nm) (devices_of s p)")
      case None
      have E: "\<And>n. e_malloc E n" using "1.prems"(3) by blast
      obtain d u where "find_or_add_cdevice E p nm s = (Some d, u)" using find_or_add_spec [OF "1.prems"(4) E] .
      then show ?thesis using "1.prems"(1) t None
        by (simp add: status_actions.simps [of E p m s] client_get_device_find)
    next
      case (Some d)
      then have f: "find_or_add_cdevice E p nm s = (Some d, s)"
        by (simp add: find_or_add_cdevice_def client_get_device_find)
      have a: "\<not> crashes st rest" "\<not> recognised st"
        "Write Lists \<notin> set (status_actions E p rest (read_status d st rest s))"
        "Exit \<notin> set (status_actions E p rest (read_status d st rest s))"
        using "1.prems"(1,2) t f by (auto simp: status_actions.simps [of E p m s] split: if_splits)
      have r: "read_status d st rest s = s" using a(2) by (simp add: recognised_def read_status_def)
      have "snd (process_status_message E p rest s) = s"
        by (rule "1.IH" [OF t(1) refl t(2) refl f [symmetric] refl a(1), unfolded r, OF a(3,4) [unfolded r] "1.prems"(3,4)])
      moreover have "process_status_message E p m s = process_status_message E p rest s"
        by (subst process_status_message.simps) (simp add: t f r)
      ultimately show ?thesis by simp
    qed
  qed
qed

end
