(* ===== verification/Client_Crashes.thy ===== *)
theory Client_Crashes
  imports Client_Races
begin

text \<open>
  Exactly which datagrams lead the client into undefined behaviour: those that fill the
  receive buffer, and status messages with a record \<open>UP\<close> behind which no blank follows.
\<close>

section \<open>Datagrams that crash the client\<close>

text \<open>Whether a status message holds a record that makes \<open>strchr (x_str, ' ')\<close> fail.\<close>

function crashing :: "string \<Rightarrow> bool" where
  "crashing message =
     (case strtok delims message of
        None \<Rightarrow> False
      | Some (nm, rest) \<Rightarrow>
          (case strtok delims rest of
             None \<Rightarrow> False
           | Some (st, rest) \<Rightarrow> crashes st rest \<or> crashing rest))"
  by pat_completeness auto
termination
proof (relation "measure length", goal_cases)
  case (2 message x nm rest y st rest')
  then show ?case using strtok_shorter [of delims message nm rest]
      strtok_shorter [of delims rest st rest'] by auto
qed simp

declare crashing.simps [simp del]

lemma read_status_ub: "ub (read_status d st rest s) = (ub s \<or> crashes st rest)"
  by (auto simp: read_status_def read_uptime_def crashes_def Let_def set_cdevice_def undefined_if_def split: option.split)

lemma read_status_cdevices: "wf_cdevices p s \<Longrightarrow> wf_cdevices p (read_status d st rest s)"
proof -
  assume wf: "wf_cdevices p s"
  show ?thesis
  proof (cases rule: read_status_cases [of d st rest s])
    case (3 a b c)
    have "cdevice_key (read_status d st rest s) e = cdevice_key s e" for e by (simp add: 3)
    then have "inj_on (cdevice_key (read_status d st rest s)) A = inj_on (cdevice_key s) A" for A by (rule inj_on_cong)
    moreover have "devices_of (read_status d st rest s) p = devices_of s p"
      "c_next_ptr (read_status d st rest s) = c_next_ptr s" by (simp_all add: 3)
    moreover have "cdevice_key (read_status d st rest s) e = cdevice_key s e" for e by (simp add: 3)
    ultimately show ?thesis using wf unfolding wf_cdevices_def by simp
  qed (use wf in \<open>simp_all add: wf_cdevices_def\<close>)
qed

lemma process_status_crash:
  assumes E: "\<And>n. e_malloc E n"
  shows "wf_cdevices p s \<Longrightarrow> ub (snd (process_status_message E p m s)) = (ub s \<or> crashing m)"
proof (induction m arbitrary: s rule: crashing.induct)
  case (1 m)
  show ?case
  proof (cases "strtok delims m")
    case None
    then show ?thesis by (simp add: crashing.simps [of m] process_status_message.simps [of E p m s])
  next
    case (Some x)
    obtain nm r where x: "strtok delims m = Some (nm, r)" using Some by (cases x) simp
    show ?thesis
    proof (cases "strtok delims r")
      case None
      then show ?thesis using x by (simp add: crashing.simps [of m] process_status_message.simps [of E p m s])
    next
      case (Some y)
      obtain st rest where y: "strtok delims r = Some (st, rest)" using Some by (cases y) simp
      obtain d t where f: "find_or_add_cdevice E p nm s = (Some d, t)" "wf_cdevices p t" "ub t = ub s"
        using find_or_add_spec [OF "1.prems" E, of nm] by metis
      have "ub (snd (process_status_message E p rest (read_status d st rest t))) =
          (ub (read_status d st rest t) \<or> crashing rest)"
        by (rule "1.IH" [OF x refl y refl read_status_cdevices [OF f(2)]])
      then show ?thesis
        by (simp add: crashing.simps [of m] process_status_message.simps [of E p m s] x y f read_status_ub)
    qed
  qed
qed

text \<open>The same for a datagram, from a known server or not.\<close>

lemma datagram_crash:
  assumes E: "\<And>n. e_malloc E n" and wf: "client_wf s"
  shows "ub (snd (client_process_command E (Broadcast a bytes) s)) =
    (ub s \<or> MAX_RECV_BUFFER \<le> length bytes
     \<or> is_status (c_string (take MAX_RECV_BUFFER bytes))
       \<and> crashing (drop (length BROADCAST_STATUS) (c_string (take MAX_RECV_BUFFER bytes))))"
proof -
  let ?m = "c_string (take MAX_RECV_BUFFER bytes)"
  define s1 where "s1 = undefined_if (\<not> length (take MAX_RECV_BUFFER bytes) < MAX_RECV_BUFFER) s"
  have s1: "client_wf s1" "ub s1 = (ub s \<or> MAX_RECV_BUFFER \<le> length bytes)"
    using alike_wf [OF alike_steps(3) wf] by (auto simp: s1_def undefined_if_def)
  obtain p t where f: "find_or_add_server E a s1 = (Some p, t)" by (rule find_or_add_server_found [OF E])
  have t: "ub t = ub s1" using find_or_add_server_ub [of E a s1] f by simp
  have "wf_cdevices p t" using find_or_add_server_keeps [OF s1(1) f] devices_wfD(2) by blast
  then have v: "wf_cdevices p (unlock_servers (heard_from E p t))"
    "ub (unlock_servers (heard_from E p t)) = ub t" "ub (heard_from E p t) = ub t"
    by (simp_all add: wf_cdevices_def heard_from_def case_prod_beta unlock_servers_def lock_servers_def)
  have rm: "ub (snd (snd (rm_server l p u))) = ub u" for l u by (simp add: rm_server_result)
  have "ub (snd (server_broadcast E p ?m (heard_from E p t))) =
      (ub t \<or> is_status ?m \<and> crashing (drop (length BROADCAST_STATUS) ?m))"
    using process_status_crash [OF E v(1), of "drop (length BROADCAST_STATUS) ?m"] v(2,3) rm
    by (simp add: server_broadcast_def is_status_def case_prod_beta drop_devices_result)
  then show ?thesis using f t s1(2)
    by (simp add: client_process_command_heard Let_def del: length_take flip: s1_def)
qed

end
