(* ===== verification/Multicast.thy ===== *)
theory Multicast
  imports Unix_IO
begin

text \<open>
  The library for IP multicast: \<open>common/mcast.c\<close>, as it is compiled without \<open>IPV6\<close>. The
  programs do not call it yet. \<open>if_indextoname\<close>, \<open>ioctl (SIOCGIFADDR)\<close> and \<open>setsockopt\<close>
  are parameters, and so is \<open>sockfd_to_family\<close>, which the repository does not define. The
  options a socket has got are logged in the state.
\<close>

section \<open>Sockets\<close>

datatype address_family = AF_INET | AF_OTHER

datatype socket_option =
    IP_ADD_MEMBERSHIP in_addr in_addr   \<comment> \<open>group and interface\<close>
  | IP_MULTICAST_LOOP "8 word"

record mcast_os =
  os_indextoname :: "nat \<Rightarrow> string option"
  os_if_address :: "string \<Rightarrow> errno + in_addr"
  os_setsockopt :: "int \<Rightarrow> socket_option \<Rightarrow> errno option"
  os_family :: "int \<Rightarrow> address_family"

record mcast_state = io +
  options :: "(int \<times> socket_option) list"

definition put_option :: "mcast_os \<Rightarrow> int \<Rightarrow> socket_option \<Rightarrow> mcast_state \<Rightarrow> int \<times> mcast_state" where
  "put_option N sock_fd opt s = (case os_setsockopt N sock_fd opt of
     None \<Rightarrow> (0, s\<lparr>options := options s @ [(sock_fd, opt)]\<rparr>)
   | Some e \<Rightarrow> (-1, set_errno e s))"

section \<open>The operations\<close>

definition IFNAMSIZ :: nat where
  "IFNAMSIZ = 16"

text \<open>The code behind the label \<open>doioctl\<close>.\<close>

definition join_on :: "mcast_os \<Rightarrow> int \<Rightarrow> in_addr \<Rightarrow> string \<Rightarrow> mcast_state \<Rightarrow> int \<times> mcast_state" where
  "join_on N sock_fd grp ifr_name s = (case os_if_address N ifr_name of
     Inl e \<Rightarrow> (-1, set_errno e s)
   | Inr interface \<Rightarrow> put_option N sock_fd (IP_ADD_MEMBERSHIP grp interface) s)"

definition mcast_join ::
  "mcast_os \<Rightarrow> int \<Rightarrow> address_family \<Rightarrow> in_addr \<Rightarrow> string option \<Rightarrow> nat \<Rightarrow> mcast_state \<Rightarrow> int \<times> mcast_state" where
  "mcast_join N sock_fd family grp ifname ifindex s = (case family of
     AF_INET \<Rightarrow>
       if ifindex > 0
       then (case os_indextoname N ifindex of
               None \<Rightarrow> (-1, set_errno ENXIO s)
             | Some nm \<Rightarrow> join_on N sock_fd grp nm s)
       else (case ifname of
               Some nm \<Rightarrow> join_on N sock_fd grp (take IFNAMSIZ nm) s
             | None \<Rightarrow> put_option N sock_fd (IP_ADD_MEMBERSHIP grp 0) s)
   | AF_OTHER \<Rightarrow> (-1, set_errno EPROTONOSUPPORT s))"

text \<open>The flag is a \<open>u_char\<close>.\<close>

definition mcast_set_loop :: "mcast_os \<Rightarrow> int \<Rightarrow> int \<Rightarrow> mcast_state \<Rightarrow> int \<times> mcast_state" where
  "mcast_set_loop N sock_fd onoff s = (case os_family N sock_fd of
     AF_INET \<Rightarrow> put_option N sock_fd (IP_MULTICAST_LOOP (word_of_int onoff)) s
   | AF_OTHER \<Rightarrow> (-1, set_errno EPROTONOSUPPORT s))"

text \<open>The rest is not written yet.\<close>

definition mcast_leave :: "int \<Rightarrow> in_addr \<Rightarrow> mcast_state \<Rightarrow> int \<times> mcast_state" where
  "mcast_leave sock_fd grp s = (-1, set_errno ENOTSUP s)"

definition mcast_set_if :: "int \<Rightarrow> string option \<Rightarrow> nat \<Rightarrow> mcast_state \<Rightarrow> int \<times> mcast_state" where
  "mcast_set_if sock_fd ifname ifindex s = (-1, set_errno ENOTSUP s)"

definition mcast_set_ttl :: "int \<Rightarrow> int \<Rightarrow> mcast_state \<Rightarrow> int \<times> mcast_state" where
  "mcast_set_ttl sock_fd ttl s = (-1, set_errno ENOTSUP s)"

definition mcast_get_if :: "int \<Rightarrow> mcast_state \<Rightarrow> int \<times> mcast_state" where
  "mcast_get_if sock_fd s = (-1, set_errno ENOTSUP s)"

definition mcast_get_loop :: "int \<Rightarrow> mcast_state \<Rightarrow> int \<times> mcast_state" where
  "mcast_get_loop sock_fd s = (-1, set_errno ENOTSUP s)"

definition mcast_get_ttl :: "int \<Rightarrow> mcast_state \<Rightarrow> int \<times> mcast_state" where
  "mcast_get_ttl sock_fd s = (-1, set_errno ENOTSUP s)"

section \<open>Which interface is joined\<close>

text \<open>The index wins over the name, the name over any interface.\<close>

definition chosen_interface :: "mcast_os \<Rightarrow> string option \<Rightarrow> nat \<Rightarrow> errno + in_addr" where
  "chosen_interface N ifname ifindex =
     (if ifindex > 0
      then (case os_indextoname N ifindex of None \<Rightarrow> Inl ENXIO | Some nm \<Rightarrow> os_if_address N nm)
      else (case ifname of None \<Rightarrow> Inr 0 | Some nm \<Rightarrow> os_if_address N (take IFNAMSIZ nm)))"

lemma mcast_join_result:
  "mcast_join N fd AF_INET grp ifname ifindex s = (case chosen_interface N ifname ifindex of
     Inl e \<Rightarrow> (-1, set_errno e s)
   | Inr interface \<Rightarrow> put_option N fd (IP_ADD_MEMBERSHIP grp interface) s)"
  by (simp add: mcast_join_def chosen_interface_def join_on_def split: option.split sum.split)

end
