(* ===== verification/Spec2Isabelle.thy ===== *)
theory Spec2Isabelle
  imports Status_Machine Linked_List Debug_Dumps Requests Config_Sections Client_Crashes Multicast
begin

text \<open>
  The link controller: a server (\<open>server/\<close>) that brings dial-up links up and down on behalf
  of clients on the local network, a Linux client (\<open>linux_client/\<close>) that shows the status
  the server broadcasts, a peer (\<open>peer/\<close>) that tells the server from the \<open>ip-up\<close> and
  \<open>ip-down\<close> scripts that a link has changed, and a multicast library (\<open>common/\<close>). They talk
  in single UDP datagrams whose texts are in \<open>include/protocol.h\<close>.

  \<^bold>\<open>How the programs are modelled.\<close> The state of a program is a record that extends \<open>io\<close> of
  \<open>Unix_IO\<close> (\<open>errno\<close>, the number of external calls made, the commands run and datagrams sent,
  and the flag \<open>ub\<close>, set where the C code leaves what the standard defines) by the program's
  global variables: \<open>server\<close>, \<open>link_client\<close>, \<open>peer\<close>, \<open>mcast_state\<close>. Objects on the heap are stores
  from addresses to records (\<open>device_at\<close>, \<open>client_at\<close>, \<open>server_at\<close>, \<open>cdevice_at\<close>). A C function
  becomes a function from state to result and state; its parameters of type pointer to list
  become the list passed and returned. What the operating system answers is the parameter
  \<open>E\<close> of type \<open>env\<close>, indexed by the call's number; nothing is assumed of it unless a theorem
  says so (\<open>well_behaved\<close>: memory suffices and commands succeed). A run ends where \<open>ub\<close> is
  set: the theorems either show that it is not, or say exactly when it is.

  \<^bold>\<open>Foundations.\<close> \<open>Prelude\<close>: C types, status and buffer sizes (\<open>include/cliserv.h\<close>), lemmas on
  lists. \<open>C_String\<close>: the functions of the C library on strings and numbers. \<open>Unix_IO\<close>: the
  external calls and what they leave alone (\<open>same_core\<close>, \<open>progress\<close>). \<open>Protocol\<close>: the texts of
  \<open>include/protocol.h\<close> and that the tested prefixes exclude each other. \<open>Pointer_List\<close>: the
  contract of the linked lists as two locales. \<open>Linked_List\<close>: the nodes in memory, the loops
  of \<open>list_fns.c\<close> over them, and that they implement lists.

  \<^bold>\<open>The server.\<close> \<open>Server_State\<close>: \<open>server.h\<close> and the well-formedness of the stores
  (\<open>wf_server\<close>). \<open>Server_Lists\<close>: \<open>get_\<close>, \<open>add_\<close>, \<open>rm_\<close> of \<open>list_fns.c\<close>, interpretations of
  \<open>pointer_list\<close>. \<open>Device_Control\<close>: \<open>link_up\<close>, \<open>link_down\<close>, \<open>link_force_down\<close>, dropping all links,
  \<open>alter_device_status\<close>. \<open>Device_Machine\<close>, \<open>Retries\<close>, \<open>Status_Machine\<close>: its status table and
  commands, the transition relation \<open>status_step\<close> and the one documented in
  \<open>doc/README.states\<close>, the bound on dialling. \<open>Connections\<close>, \<open>Timeouts\<close>: tying clients to
  devices, the two sweeps. \<open>Send_Message\<close>, \<open>Send_Buffers\<close>: \<open>send_message.c\<close> and
  \<open>poll_clients.c\<close>, their texts and buffer sizes. \<open>Commands\<close>: \<open>process_client.c\<close>,
  \<open>process_peer.c\<close>, \<open>process_command\<close>. \<open>Requests\<close>: a client's request from the datagram to
  its effect. \<open>Server_Loop\<close>, \<open>Server_Program\<close>: the loop and \<open>main\<close> of
  \<open>server.c\<close>. \<open>Config_File\<close>, \<open>Config\<close>, \<open>Config_Facts\<close>: \<open>read_config.c\<close>. \<open>Config_Sections\<close>: device
  sections in the documented format, read back or not, and files on which the search for them
  does not end. Invariants over all runs:
  \<open>Consistency\<close> (lists mirror each other, devices are up exactly on demand), \<open>Server_Clock\<close>
  (times shown by the clock), \<open>Server_Safety\<close> (no undefined behaviour).

  \<^bold>\<open>The other programs.\<close> \<open>Client_Lists\<close>: \<open>linux_client/list_fns.c\<close>. \<open>Client_Listen\<close>: the
  listener thread of \<open>listen_status.c\<close>, \<open>wait_for_servers\<close>, \<open>read_config.c\<close>. \<open>Client_Facts\<close>: a
  server's devices as a map from names to reports. \<open>Client_Safety\<close>: the invariant of the
  client's lists. \<open>Client_Program\<close>: \<open>main\<close> and the screen. \<open>Client_Threads\<close>, \<open>Client_Races\<close>: both threads
  interleaved, where they meet and that they never deadlock. \<open>Client_Crashes\<close>: the datagrams
  that lead the client into undefined behaviour. \<open>Peer\<close>: the whole of \<open>peer/\<close>.
  \<open>Multicast\<close>: \<open>common/mcast.c\<close>. \<open>Debug_Dumps\<close>: the debug output of server and client.
  \<open>System\<close>: messages from one program to another. \<open>Samples\<close>: concrete states for the witnesses.

  \<^bold>\<open>How they interact.\<close> A client's request goes through \<open>process_command\<close> and \<open>process_client\<close>
  to the connections and to \<open>alter_device_status\<close> (C13 to C15). The peer's \<open>notify\<close> sends what
  \<open>process_peer\<close> of the server reads (C26). The server's \<open>broadcast_status_message\<close> (C17) prints
  what \<open>process_status_message\<close> of the client reads (C25) and \<open>main\<close> of the client shows (C37).

  \<^bold>\<open>The properties.\<close> Safety and invariants of the server: C1 to C3. The state machine: C4 to
  C8, C12. Connections and sweeps: C9 to C11. Requests and messages: C13 to C19, C24 to C26.
  Configuration: C20, C21, C31, C32. Lists: C22, C33 to C35. End of the program: C23. The
  client: its threads C27 to C30 and C38, its lists and screen C36, C37, C39, C40. A hypothesis
  excludes what makes a claim false in the code; the exact behaviour there is a property of
  its own (C18, C19, C20, C21, C24, C27, C30, C35, C39).

  \<^bold>\<open>Loops and bounds.\<close> Loops over lists and strings are structural recursion or recursion with
  a length as measure. The search for device sections and the loops over nodes may not end in
  C and are partial functions into \<open>option\<close>; C21 shows that the first does not end on certain
  files, C33 that the others end on well-formed chains. The endless loops of the two \<open>main\<close>
  functions take the list of wake-ups, or of rounds, as an argument, and say whether the
  program still runs when it is used up. \<open>time_t\<close> is an unbounded integer, narrowed where the
  code narrows it; addresses, ports and user counts are words.

  \<^bold>\<open>Not modelled.\<close> The texts on \<open>stderr\<close>, signal registration, what a race of the client's
  threads does to the data (\<open>Client_Threads\<close> says where they meet; in \<open>Client_Program\<close> the
  listener acts between two steps of \<open>main\<close>), the branches for IPv6 of \<open>mcast.c\<close>, which are
  not compiled, the unreachable end of the client's \<open>main\<close>, and the Java client.
\<close>

section \<open>The properties\<close>

text \<open>
  C1: memory safety of the running server. From any configured state whose devices have
  descriptions, with a clock that never steps back and moves by less than 10^8 seconds,
  fewer than 10^4 sending hosts and datagrams shorter than the receive buffer, no sequence
  of wake-ups makes the server write outside an object or follow a NULL pointer, whatever
  memory, commands and sockets do.
\<close>

theorem server_memory_safety:
  assumes "configured s" "described s" "\<not> ub s" "steady_clock E" "few_hosts A"
    and "\<forall>w \<in> set ws. safe_input A w"
  shows "\<not> ub (serve E ws s)"
proof -
  have "safe E A s"
    using assms(1-3) configured_wf configured_clocked
    by (auto simp: safe_def known_hosts_def configured_def)
  from safe_serve [OF this assms(5,4,6)] show ?thesis by (simp add: safe_def)
qed

theorem server_memory_safety_witness:
  "\<not> ub (serve here [Readable (Packet (host 10) (CLIENT_UP @ ''ppp0'')), Timed_out,
     Signalled (Readable (Recv_error EINTR))] idle_server)"
  by (rule server_memory_safety [where A = "{10}"])
     (simp_all add: few_hosts_def sender_in_def short_packet_def host_def protocol_defs MAX_RECV_BUFFER_def)

text \<open>
  C2: every run of the program, from the command line on and with any configuration file,
  keeps the stores well formed: device names and client addresses are unique, every list
  entry is listed globally and no freed client is reachable. \<open>None\<close> is the run that never
  leaves the configuration parser.
\<close>

theorem program_keeps_stores_well_formed:
  "case main_program E F P argv ws of None \<Rightarrow> True | Some (_, t) \<Rightarrow> wf_server t"
  by (simp add: main_program_wf split: option.split prod.split)

text \<open>
  C3: when the commands the server runs succeed, every state the main loop reaches from a
  configured one has mirrored lists and a device is up or dialling exactly when some
  client wants it.
\<close>

theorem links_match_demand:
  assumes "reachable E s0 s" "well_behaved E" "configured s0" "0 \<le> g_retries (conf s0)"
  shows "\<forall>d \<in> set (g_devices s).
      (clients_connected (device_at s d) \<noteq> []) = (status (device_at s d) \<in> {LINK_UP, LINK_CONNECTING})
    \<and> (\<forall>c \<in> set (g_clients s).
         (c \<in> set (clients_connected (device_at s d))) = (d \<in> set (devices_connected (client_at s c))))"
proof -
  have "consistent s0" using assms(3,4) configured_wf configured_symmetric by (simp add: consistent_def)
  from reachable_consistent [OF assms(1,2) this] show ?thesis
    by (simp add: consistent_def symmetric_links_def demand_matches_def)
qed

theorem links_match_demand_witness:
  "\<exists>s. reachable here idle_server s \<and> s = serve here [Readable (Packet (host 10) (CLIENT_UP @ ''ppp0''))] idle_server \<and>
   (\<forall>d \<in> set (g_devices s).
      (clients_connected (device_at s d) \<noteq> []) = (status (device_at s d) \<in> {LINK_UP, LINK_CONNECTING})
    \<and> (\<forall>c \<in> set (g_clients s).
         (c \<in> set (clients_connected (device_at s d))) = (d \<in> set (devices_connected (client_at s c)))))"
  by (rule exI [of _ "serve here [Readable (Packet (host 10) (CLIENT_UP @ ''ppp0''))] idle_server"],
      intro conjI serve_reachable refl links_match_demand [OF serve_reachable]) simp_all

text \<open>
  C4: the outcome of a requested status change in every environment. Either it is accepted
  and the device is in the status of the table, or it fails and the device is in the status
  it had; nothing else happens to the other devices.
\<close>

theorem alter_device_status_outcome:
  assumes "wf_server s"
  shows "(fst (alter_device_status E d new s) = 0
       \<and> status (device_at (snd (alter_device_status E d new s)) d) = next_status d new s
       \<and> \<not> refused new (status (device_at s d))
     \<or> fst (alter_device_status E d new s) = -1
       \<and> status (device_at (snd (alter_device_status E d new s)) d) = status (device_at s d))
     \<and> (\<forall>e. e \<noteq> d \<longrightarrow> device_at (snd (alter_device_status E d new s)) e = device_at s e)"
  using alter_outcome [OF assms] alter.keeps_other_devices [OF assms] by blast

theorem alter_device_status_outcome_witness:
  "status (device_at (snd (alter_device_status here 1 LINK_DISCONNECTING busy_server)) 1) \<in> {LINK_DISCONNECTING, LINK_UP}
   \<and> device_at (snd (alter_device_status here 1 LINK_DISCONNECTING busy_server)) 2 = modem ''ppp1''"
  using alter_device_status_outcome [of busy_server here 1 LINK_DISCONNECTING]
  by (auto simp: next_status_def)

text \<open>
  C5: the shell commands and pauses of an accepted change, in order, and what becomes of the
  device's clients, when the commands succeed.
\<close>

theorem alter_device_status_commands:
  assumes "well_behaved E" "wf_server s" "\<not> refused new (status (device_at s d))"
  shows "trace (snd (alter_device_status E d new s)) = trace s @ alter_events d new s
    \<and> clients_connected (device_at (snd (alter_device_status E d new s)) d) =
        (if drops_links d new s then [] else clients_connected (device_at s d))"
  using wb_alter [OF assms] by blast

theorem alter_device_status_commands_witness:
  "trace (snd (alter_device_status here 1 LINK_DISCONNECTING busy_server)) = [Ran (Some ''poff ppp0'') 0]
   \<and> clients_connected (device_at (snd (alter_device_status here 1 LINK_DISCONNECTING busy_server)) 1) = [3]"
  using alter_device_status_commands [of here busy_server LINK_DISCONNECTING 1]
  by (simp add: alter_events_def drops_links_def)

text \<open>
  C6: the refused pairs of requested and current status are answered with
  \<open>EINVAL\<close> and change nothing but \<open>errno\<close>, in every environment.
\<close>

theorem alter_device_status_refuses:
  assumes "refused new (status (device_at s d))"
  shows "alter_device_status E d new s = (-1, set_errno EINVAL s)"
  by (rule alter_refused [OF assms])

theorem alter_device_status_refuses_witness:
  "alter_device_status here 1 LINK_CONNECTING busy_server = (-1, set_errno EINVAL busy_server)"
  by (rule alter_device_status_refuses) simp

text \<open>
  C7: the transition relation is exact: a status change is one of its steps if and only if
  some accepted request, in some well-formed state and environment, makes it.
\<close>

theorem status_machine_exact: "status_step x y \<longleftrightarrow> accepted_change x y"
  using status_step_accepted accepted_status_step by blast

text \<open>
  C8: where the code and \<open>doc/README.states\<close> part: requests make the code go from up to down
  when forced and accept connecting and down again, and no request makes it go from
  disconnecting to up or from down to disconnecting, which the document allows.
\<close>

theorem documented_states_differ:
  "{(x, y). accepted_change x y \<and> \<not> documented_step x y} =
     {(LINK_UP, LINK_DOWN), (LINK_CONNECTING, LINK_CONNECTING), (LINK_DOWN, LINK_DOWN)}
   \<and> {(x, y). documented_step x y \<and> \<not> accepted_change x y} =
     {(LINK_DISCONNECTING, LINK_UP), (LINK_DOWN, LINK_DISCONNECTING)}"
proof -
  have eq: "accepted_change x y = status_step x y" for x y
    using status_step_accepted accepted_status_step by blast
  have "(accepted_change x y \<and> \<not> documented_step x y) =
      ((x, y) \<in> {(LINK_UP, LINK_DOWN), (LINK_CONNECTING, LINK_CONNECTING), (LINK_DOWN, LINK_DOWN)})"
    "(documented_step x y \<and> \<not> accepted_change x y) =
      ((x, y) \<in> {(LINK_DISCONNECTING, LINK_UP), (LINK_DOWN, LINK_DISCONNECTING)})" for x y
    unfolding eq by (cases x; cases y; simp add: status_step_simps documented_step_simps)+
  then show ?thesis by auto
qed

text \<open>
  C9: a client that asks for a device is connected to it: both lists hold the other, the
  device is up or dialling, and every invariant is kept.
\<close>

theorem connecting_client_gets_link:
  assumes "well_behaved E" "consistent s" "c \<in> set (g_clients s)" "d \<in> set (g_devices s)"
  shows "fst (connect_client_to_device E c d s) = 0 \<and> consistent (snd (connect_client_to_device E c d s))
    \<and> set (clients_connected (device_at (snd (connect_client_to_device E c d s)) d)) =
        insert c (set (clients_connected (device_at s d)))
    \<and> status (device_at (snd (connect_client_to_device E c d s)) d) \<in> {LINK_UP, LINK_CONNECTING}"
  by (rule wb_connect [OF assms])

theorem connecting_client_gets_link_witness:
  "fst (connect_client_to_device here 3 2 busy_server) = 0
   \<and> set (clients_connected (device_at (snd (connect_client_to_device here 3 2 busy_server)) 2)) = {3}"
  using connecting_client_gets_link [of here busy_server 3 2] by simp

text \<open>
  C10: the last client to leave hangs the device up, with the link-down command if it was up
  and the force-down command if it was still dialling; any other client leaves quietly.
\<close>

theorem last_client_hangs_up:
  assumes "well_behaved E" "consistent s" "c \<in> set (g_clients s)" "d \<in> set (g_devices s)"
    and "c \<in> set (clients_connected (device_at s d))"
  shows "if clients_connected (device_at s d) = [c]
    then status (device_at (snd (disconnect_client_from_device E c d s)) d) = LINK_DISCONNECTING
      \<and> trace (snd (disconnect_client_from_device E c d s)) = trace s @
          [if status (device_at s d) = LINK_UP then Ran (link_down_command (device_at s d)) 0
           else forced_down (device_at s d)]
    else status (device_at (snd (disconnect_client_from_device E c d s)) d) = status (device_at s d)
      \<and> trace (snd (disconnect_client_from_device E c d s)) = trace s"
  by (rule wb_last_client [OF assms])

theorem last_client_hangs_up_witness:
  "status (device_at (snd (disconnect_client_from_device here 3 1 busy_server)) 1) = LINK_DISCONNECTING
   \<and> trace (snd (disconnect_client_from_device here 3 1 busy_server)) = [Ran (Some ''poff ppp0'') 0]"
  using last_client_hangs_up [of here busy_server 3 1] by simp

text \<open>
  C11: a sweep of the clients that succeeds while the clock stands still drops exactly the
  clients that have been silent for longer than the timeout.
\<close>

theorem client_sweep_drops_silent:
  assumes "wf_server s" "\<forall>n. e_time E n = now" "fst (timeout_old_clients E s) = 0"
  shows "g_clients (snd (timeout_old_clients E s)) =
    filter (\<lambda>c. now \<le> last_heard_from (client_at s c) + g_client_timeout (conf s)) (g_clients s)"
proof -
  obtain u where u: "timeout_old_clients E s = (0, u)" using assms(3) by (metis prod.collapse)
  have "distinct (g_clients s)" using assms(1) by (simp add: wf_defs)
  from expire_clients_filter [OF assms(1) this order_refl, of E now u] assms(2) u
  show ?thesis by (auto simp: timeout_old_clients_def silent_def not_less intro!: filter_cong)
qed

theorem client_sweep_drops_silent_witness:
  "g_clients (snd (timeout_old_clients (calm_env (\<lambda>_. 9000)) busy_server)) = []"
proof -
  let ?E = "calm_env (\<lambda>_. 9000)"
  have "fst (timeout_old_clients ?E busy_server) = 0"
    using wb_client_sweep [OF well_behaved_calm busy_server_consistent] by blast
  from client_sweep_drops_silent [OF busy_server_wf _ this, of 9000] show ?thesis
    by (simp add: calm_env_def)
qed

text \<open>
  C12: dialling is bounded. A connecting device whose counter stands at \<open>n\<close> is dialled
  \<open>n + 1\<close> more times by repeated requests; the next request forces it down and drops its
  clients. (The comment in \<open>timeout_old_devices\<close> says that a counter of 0 forces it down: the
  code tests the counter before it decrements it, so it dials once more.)
\<close>

theorem dialling_is_bounded:
  assumes "well_behaved E" "wf_server s" "status (device_at s d) = LINK_CONNECTING"
    and "retries (device_at s d) = int n"
  shows "trace ((redial E d ^^ Suc n) s) = trace s @ replicate (Suc n) (Ran (link_up_command (device_at s d)) 0)
    \<and> status (device_at ((redial E d ^^ Suc n) s) d) = LINK_CONNECTING
    \<and> status (device_at ((redial E d ^^ Suc (Suc n)) s) d) = LINK_DOWN
    \<and> clients_connected (device_at ((redial E d ^^ Suc (Suc n)) s) d) = []"
proof -
  let ?t = "(redial E d ^^ Suc n) s"
  have k: "int (Suc n) \<le> retries (device_at s d) + 1" using assms(4) by simp
  note r = redial_series [OF assms(1-3) k]
  have "retries (device_at ?t d) < 0" using r assms(4) by simp
  with r redial_exhausted [OF assms(1), of ?t d] show ?thesis by simp
qed

theorem dialling_is_bounded_witness:
  "status (device_at ((redial here 1 ^^ 4) (dialled LINK_CONNECTING 2)) 1) = LINK_DOWN"
  using dialling_is_bounded [of here "dialled LINK_CONNECTING 2" 1 2] by (simp add: numeral_eq_Suc)

text \<open>
  C13: a request to bring a device up, from the datagram to the effect: whoever sends it is
  registered and linked with the device, which ends up or dialling; other devices are
  untouched and every invariant is kept. Bytes behind a NUL in the datagram do not matter.
\<close>

theorem up_request_connects_sender:
  assumes "well_behaved E" "consistent s" "d \<in> set (g_devices s)" "device_name (device_at s d) = Some nm"
    and "c_string (received bytes) = CLIENT_UP @ nm" "length bytes < MAX_RECV_BUFFER"
  shows "\<exists>c t. process_command E (Packet a bytes) s = (0, t) \<and> consistent t
    \<and> c \<in> set (g_clients t) \<and> client_key t c = sin_addr a
    \<and> set (clients_connected (device_at t d)) = insert c (set (clients_connected (device_at s d)))
    \<and> d \<in> set (devices_connected (client_at t c))
    \<and> status (device_at t d) \<in> {LINK_UP, LINK_CONNECTING}
    \<and> (\<forall>e. e \<noteq> d \<longrightarrow> device_at t e = device_at s e)"
  by (rule up_request [OF assms, of a]) blast

theorem up_request_connects_sender_witness:
  "\<exists>c t. process_command here (Packet (host 10) (CLIENT_UP @ ''ppp1'' @ NUL # ''junk'')) busy_server = (0, t)
     \<and> client_key t c = 10 \<and> c \<in> set (clients_connected (device_at t 2))"
proof -
  have "c_string (received (CLIENT_UP @ ''ppp1'' @ NUL # ''junk'')) = CLIENT_UP @ ''ppp1''"
    "length (CLIENT_UP @ ''ppp1'' @ NUL # ''junk'') < MAX_RECV_BUFFER" by code_simp+
  from up_request_connects_sender [of here busy_server 2, OF _ _ _ _ this, of "host 10"] obtain c t where
    "process_command here (Packet (host 10) (CLIENT_UP @ ''ppp1'' @ NUL # ''junk'')) busy_server = (0, t)"
    "client_key t c = 10" "set (clients_connected (device_at t 2)) = insert c (set (clients_connected (device_at busy_server 2)))"
    by (auto simp: host_def)
  then show ?thesis by blast
qed

text \<open>
  C14: a request to take a device down from a client that is linked with it unlinks the two;
  the device is hung up if no other client is left, and otherwise keeps its status with no
  command run.
\<close>

theorem down_request_unlinks_sender:
  assumes "well_behaved E" "consistent s" "c \<in> set (g_clients s)" "client_key s c = sin_addr a"
    and "d \<in> set (devices_connected (client_at s c))" "device_name (device_at s d) = Some nm"
    and "c_string (received bytes) = CLIENT_DOWN @ nm" "length bytes < MAX_RECV_BUFFER"
  shows "\<exists>t. process_command E (Packet a bytes) s = (0, t) \<and> consistent t
    \<and> clients_connected (device_at t d) = remove1 c (clients_connected (device_at s d))
    \<and> d \<notin> set (devices_connected (client_at t c)) \<and> (\<forall>e. e \<noteq> d \<longrightarrow> device_at t e = device_at s e)
    \<and> (if clients_connected (device_at s d) = [c] then status (device_at t d) = LINK_DISCONNECTING
       else status (device_at t d) = status (device_at s d) \<and> trace t = trace s)"
  by (rule down_request [OF assms]) blast

theorem down_request_unlinks_sender_witness:
  "\<exists>t. process_command here (Packet (host 10) (CLIENT_DOWN @ ''ppp0'')) busy_server = (0, t)
     \<and> status (device_at t 1) = LINK_DISCONNECTING \<and> clients_connected (device_at t 1) = []"
proof -
  have "c_string (received (CLIENT_DOWN @ ''ppp0'')) = CLIENT_DOWN @ ''ppp0''"
    "length (CLIENT_DOWN @ ''ppp0'') < MAX_RECV_BUFFER" by code_simp+
  from down_request_unlinks_sender [of here busy_server 3 "host 10" 1, OF _ _ _ _ _ _ this] show ?thesis
    by (simp add: host_def) metis
qed

text \<open>
  C15: a request to force a device down does so whatever its status and whoever uses it:
  no client is linked with it afterwards, and no other device is touched.
\<close>

theorem force_down_request_clears_device:
  assumes "well_behaved E" "consistent s" "d \<in> set (g_devices s)" "device_name (device_at s d) = Some nm"
    and "c_string (received bytes) = CLIENT_FORCE_DOWN @ nm" "length bytes < MAX_RECV_BUFFER"
  shows "\<exists>t. process_command E (Packet a bytes) s = (0, t) \<and> consistent t
    \<and> status (device_at t d) = LINK_DOWN \<and> clients_connected (device_at t d) = []
    \<and> (\<forall>c \<in> set (g_clients t). d \<notin> set (devices_connected (client_at t c)))
    \<and> (\<forall>e. e \<noteq> d \<longrightarrow> device_at t e = device_at s e)"
  by (rule force_down_request [OF assms, of a]) blast

theorem force_down_request_clears_device_witness:
  "\<exists>t. process_command here (Packet (host 99) (CLIENT_FORCE_DOWN @ ''ppp0'')) busy_server = (0, t)
     \<and> status (device_at t 1) = LINK_DOWN \<and> clients_connected (device_at t 1) = []"
proof -
  have "c_string (received (CLIENT_FORCE_DOWN @ ''ppp0'')) = CLIENT_FORCE_DOWN @ ''ppp0''"
    "length (CLIENT_FORCE_DOWN @ ''ppp0'') < MAX_RECV_BUFFER" by code_simp+
  from force_down_request_clears_device [of here busy_server 1, OF _ _ _ _ this, of "host 99"] show ?thesis
    by auto
qed

text \<open>
  C16: a datagram that holds no known command is answered with \<open>ENOTSUP\<close>; the devices are
  untouched, and no device is dialled or dropped.
\<close>

theorem unknown_commands_change_no_device:
  assumes "wf_server s" "\<forall>p \<in> set (client_commands @ peer_commands). \<not> starts_with p (c_string (received bytes))"
    and "\<forall>n. e_malloc E n"
  shows "fst (process_command E (Packet a bytes) s) = -1
    \<and> errno (snd (process_command E (Packet a bytes) s)) = ENOTSUP
    \<and> g_devices (snd (process_command E (Packet a bytes) s)) = g_devices s
    \<and> device_at (snd (process_command E (Packet a bytes) s)) = device_at s"
proof -
  let ?m = "c_string (received bytes)"
  define s1 where "s1 = undefined_if (\<not> length (received bytes) < MAX_RECV_BUFFER) s"
  have s1: "wf_server s1" "device_at s1 = device_at s" "g_devices s1 = g_devices s"
    using assms(1) by (simp_all add: s1_def)
  have msg: "client_message E c ?m t = (-1, set_errno ENOTSUP t)" for c t
    using assms(2) by (simp add: client_message_def client_commands_def)
  have cl: "fst (process_client E a ?m s1) = -1 \<and> errno (snd (process_client E a ?m s1)) = ENOTSUP
      \<and> g_devices (snd (process_client E a ?m s1)) = g_devices s \<and> device_at (snd (process_client E a ?m s1)) = device_at s"
    using s1(1)
  proof (cases rule: process_client_cases [where E = E and cli = a])
    case (no_memory t)
    with assms(3) show ?thesis by blast
  next
    case (ready c t)
    then have "device_at t = device_at s" "g_devices t = g_devices s"
      using s1 by (simp_all add: registered_def same_devices_def)
    with ready(3) msg show ?thesis by simp
  qed
  have "process_peer E ?m s1 = (-1, set_errno ENOTSUP s1)"
    using assms(2) by (simp add: process_peer_def peer_commands_def)
  then show ?thesis using cl s1 by (simp add: process_command_def Let_def flip: s1_def)
qed

theorem unknown_commands_change_no_device_witness:
  "errno (snd (process_command here (Packet (host 10) ''CLIENT HELLO'') idle_server)) = ENOTSUP"
  using unknown_commands_change_no_device [of idle_server "''CLIENT HELLO''" here "host 10"]
  by (simp add: client_commands_def peer_commands_def protocol_defs received_def MAX_RECV_BUFFER_def
      c_string_def NUL_def starts_with_def)

text \<open>
  C17: polling sends exactly one datagram, to the configured group, with one line per device:
  its name, its status and, for a device that is up, its uptime and number of users.
\<close>

theorem status_is_broadcast:
  assumes "well_behaved E" "\<forall>n. e_time E n = now" "inet_aton (g_multicast_group (conf s)) = Some a"
  shows "trace (snd (broadcast_status_message E s)) = trace s @
    [Sent \<lparr>sin_addr = a, sin_port = g_multicast_port (conf s)\<rparr> (status_broadcast_text s now)
      (int (length (status_broadcast_text s now)))]"
  using broadcast_status_sends(2) [OF assms(1) _ assms(3)] assms(2) by blast

theorem status_is_broadcast_witness:
  "trace (snd (broadcast_status_message here busy_server)) =
     [Sent \<lparr>sin_addr = 0xEFFF2A2A, sin_port = 6789\<rparr>
       (''BROADCAST STATUS ppp0'' @ TAB @ ''UP 300 1'' @ NL @ ''ppp1'' @ TAB @ ''DOWN'' @ NL) 41]"
proof -
  have a: "inet_aton (g_multicast_group (conf busy_server)) = Some 0xEFFF2A2A"
    by (simp, code_simp)
  have t: "status_broadcast_text busy_server 1000 =
      ''BROADCAST STATUS ppp0'' @ TAB @ ''UP 300 1'' @ NL @ ''ppp1'' @ TAB @ ''DOWN'' @ NL"
  proof -
    have "print_int (c_int 300) = ''300''" "print_int 1 = ''1''" by code_simp+
    then show ?thesis
      by (simp add: status_broadcast_text_def status_text_def uptime_text_def protocol_defs)
  qed
  show ?thesis
    using status_is_broadcast [OF here_simps(5) _ a, of 1000] by (simp add: t) (simp add: TAB_def NL_def)
qed

text \<open>
  C18: the reply to a status request overruns its buffer exactly when the device is up and
  the text of its uptime and user count is longer than the thirteen characters that
  ``DISCONNECTING'' leaves room for.
\<close>

theorem status_reply_overflow:
  assumes "wf_server s" "few_clients s" "d \<in> set (g_devices s)" "\<forall>n. e_malloc E n" "\<not> ub s"
  shows "ub (snd (send_device_status E c d s)) \<longleftrightarrow> status (device_at s d) = LINK_UP
     \<and> 13 < length (uptime_text (e_time E (Suc (Suc (tick s))) - connect_time (device_at s d))
                      (int (length (clients_connected (device_at s d)))))"
  using ub_send_device_status [OF assms(1-3), of E c] assms(4,5) by blast

theorem status_reply_overflow_witness: "ub (snd (send_device_status here 10 1 crowded_server))"
proof -
  have "13 < length (uptime_text (-2000000000) 10)" by code_simp
  then show ?thesis
    using status_reply_overflow [OF crowded_server_wf, of 1 here 10] by (simp add: few_clients_def)
qed

text \<open>
  C19: a datagram as long as the receive buffer makes the server write the terminator one
  byte behind it, whatever the datagram holds.
\<close>

theorem full_datagram_overruns:
  assumes "wf_server s" "MAX_RECV_BUFFER \<le> length bytes"
  shows "ub (snd (process_command E (Packet a bytes) s))"
proof -
  let ?s = "undefined_if True s" and ?m = "c_string (received bytes)"
  have "\<not> length (received bytes) < MAX_RECV_BUFFER" using assms(2) by (simp add: received_def)
  then have e: "process_command E (Packet a bytes) s =
      (if starts_with CLIENT_PREFIX ?m then process_client E a ?m ?s
       else if starts_with NOTIFY_PREFIX ?m then process_peer E ?m ?s else (-1, set_errno ENOTSUP ?s))"
    by (simp add: process_command_def Let_def)
  have "wf_server ?s" "ub ?s" using assms(1) by simp_all
  with process_client_keeps [of ?s E a ?m] process_peer_keeps [of ?s E ?m] show ?thesis
    unfolding e by (simp add: fixed_setup_def)
qed

theorem full_datagram_overruns_witness:
  "ub (snd (process_command here (Packet (host 10) (replicate 400 (CHR ''x''))) idle_server))"
  by (rule full_datagram_overruns) (simp_all add: MAX_RECV_BUFFER_def)

text \<open>
  C20: a device section in the documented format, one quoted value per line, as the copy made
  of it is parsed. Closed by an empty line it is read back exactly and appended to the device
  list, if it is the last section of the file or the heap behind the copy happens to hold a
  NUL, which \<open>strncpy\<close> does not write; otherwise the parser reads behind the copy. Without the
  empty line, as in the last section of the sample file, it always does.
\<close>

theorem device_section_round_trip:
  assumes "\<forall>opt \<in> set opts. plain_option opt" "\<forall>n. e_malloc E n" "ends_file_or_section rest"
    and "x = fold (\<lambda>(nm, v). option_assign nm v) opts zero_device" "device_name x = Some nm"
    and "\<forall>d \<in> set (g_devices s). device_name (device_at s d) \<noteq> Some nm" "configured s" "\<not> ub s"
  shows "(if rest = [] \<or> e_heap E (tick s) = NUL
      then \<exists>t. read_copy E (section_of DEVICE_SECTION opts @ rest) s = (0, t)
        \<and> g_devices t = g_devices s @ [next_ptr s] \<and> device_at t = (device_at s)(next_ptr s := x) \<and> \<not> ub t
      else ub (snd (read_copy E (section_of DEVICE_SECTION opts @ rest) s)))
    \<and> ub (snd (read_copy E (open_section DEVICE_SECTION opts @ rest) s))"
proof -
  have E: "\<And>n. e_malloc E n" using assms(2) by blast
  define b where "b = copy_end E rest s"
  define u where "u = alloc E s"
  have c: "read_copy E (section_of DEVICE_SECTION opts @ rest) s = parse_device_section E (open_section DEVICE_SECTION opts @ NL @ [b]) u"
    "read_copy E (open_section DEVICE_SECTION opts @ rest) s = parse_device_section E (open_section DEVICE_SECTION opts @ [b]) u"
    using copied_section [OF assms(1,3)] by (simp_all add: read_copy_def b_def u_def section_of_def)
  have c': "read_copy E (section_of DEVICE_SECTION opts @ rest) s = parse_device_section E (section_of DEVICE_SECTION opts @ [b]) u"
    using c(1) by (simp add: section_of_def)
  note bad = bad_section_parsed [OF assms(1) E]
  have open_bad: "ub (snd (read_copy E (open_section DEVICE_SECTION opts @ rest) s))"
    using bad(2) by (simp add: c parse_device_section_ub [OF E])
  have core: "same_core s u" "ub u = ub s" by (simp_all add: u_def alloc_ub [OF E])
  note f = same_core_fields [OF core(1)]
  have u: "configured u" "\<forall>d \<in> set (g_devices u). device_name (device_at u d) \<noteq> Some nm"
    using configured_only_conf [OF only_conf_io [OF core(1)]] assms(6,7) f by simp_all
  note read = device_section_read_back [OF assms(1) E assms(4,5) u(2,1)]
  show ?thesis
  proof (cases "b = NUL")
    case True
    then have "\<exists>t. read_copy E (section_of DEVICE_SECTION opts @ rest) s = (0, t)
        \<and> g_devices t = g_devices s @ [next_ptr s] \<and> device_at t = (device_at s)(next_ptr s := x) \<and> \<not> ub t"
      unfolding c' using read core(2) f assms(8)
      by (intro exI [of _ "snd (parse_device_section E (section_of DEVICE_SECTION opts @ [NUL]) u)"])
        (simp add: prod_eq_iff)
    then show ?thesis
      using True open_bad by (auto simp: b_def copy_end_def split: if_splits)
  next
    case False
    then have "ub (snd (read_copy E (section_of DEVICE_SECTION opts @ rest) s))"
      using bad(1) by (simp add: c parse_device_section_ub [OF E])
    then show ?thesis using False open_bad by (simp add: b_def copy_end_def split: if_splits)
  qed
qed

theorem device_section_round_trip_witness:
  "(\<exists>t. read_copy here (section_of DEVICE_SECTION [(''name'', ''isdn0'')]) idle_server = (0, t) \<and> g_devices t = [1, 2, 3] \<and> \<not> ub t)
   \<and> ub (snd (read_copy here (open_section DEVICE_SECTION [(''name'', ''isdn0'')]) idle_server))"
proof -
  have "strcaseeq ''name'' ''name''" by (simp add: strcaseeq_def)
  then show ?thesis
    using device_section_round_trip [of "[(''name'', ''isdn0'')]" here "[]"
      "zero_device\<lparr>device_name := Some ''isdn0''\<rparr>" "''isdn0''" idle_server]
    by (auto simp: option_assign_def plain_option_def plain_name_def plain_value_def TAB_def NUL_def QUOTE_def
        ends_file_or_section_def)
qed

text \<open>
  C21: the search for device sections need not end, on sound files and within defined
  behaviour. Take a file of device sections in the documented format, each closed by an empty
  line, and a heap of zeros. Where a section that another follows starts at \<open>q\<close> and every
  section up to it is shorter than \<open>q\<close>, the position, which the code sets relative to the
  section instead of the file, never gets past \<open>q\<close>: as long as memory lasts there is always
  one more pass, none of them is undefined, and the loop does not return.
\<close>

theorem device_sections_read_forever:
  assumes "\<forall>opts \<in> set optss. \<forall>opt \<in> set opts. plain_option opt" "trap (sections_text optss) q"
    and "\<forall>n. e_malloc E n" "\<forall>n. e_heap E n = NUL" "\<not> ub s"
  shows "(\<forall>k. \<exists>cur t. passes E (sections_text optss) k (0, s) = Some (cur, t) \<and> \<not> ub t)
    \<and> read_devices E (sections_text optss) 0 s = None"
proof -
  have E: "\<And>n. e_malloc E n" "\<And>n. e_heap E n = NUL" using assms(3,4) by simp_all
  show ?thesis
    using trapped_passes [OF E refl assms(1,2), of 0 _ s] trapped_forever [OF assms(2), of 0 E s] E assms(5)
    by auto
qed

theorem device_sections_read_forever_witness: "read_devices here (sections_text four_sections) 0 idle_server = None"
proof -
  have "trap (sections_text four_sections) 42" by code_simp
  moreover have "\<forall>opts \<in> set four_sections. \<forall>opt \<in> set opts. plain_option opt"
    by (simp add: four_sections_def plain_option_def plain_name_def plain_value_def TAB_def NUL_def QUOTE_def)
  moreover have "\<forall>n. e_heap here n = NUL" by (simp add: here_def calm_env_def)
  ultimately show ?thesis using device_sections_read_forever [of four_sections 42 here idle_server] by simp
qed

text \<open>
  C22: the device list as a map from names. In a list of distinct names a device of a new
  name is added behind the others and found under its name, with the others still found; a
  listed name is refused with \<open>EALREADY\<close>. Unlinking any listed device leaves the others in
  their order and still found, and its name not; one that is not listed is answered with
  \<open>ENODEV\<close> and no change.
\<close>

theorem device_list_is_a_map:
  assumes "distinct xs" "inj_on (device_key s) (set xs)" "\<forall>n. e_malloc E n"
  shows "(if device_key s d \<in> device_key s ` set xs
      then add_device E xs d s = (-1, xs, set_errno EALREADY s)
      else \<exists>t. add_device E xs d s = (0, xs @ [d], t)
        \<and> (\<forall>p \<in> insert d (set xs). fst (get_device (xs @ [d]) (device_key s p) t) = Some p))
    \<and> (if p \<in> set xs
       then \<exists>ys. rm_device xs p s = (0, ys, s) \<and> ys = filter (\<lambda>q. q \<noteq> p) xs
         \<and> fst (get_device ys (device_key s p) s) = None
         \<and> (\<forall>q \<in> set xs - {p}. fst (get_device ys (device_key s q) s) = Some q)
       else rm_device xs p s = (-1, xs, set_errno ENODEV s))"
proof -
  have "if device_key s d \<in> device_key s ` set xs
      then add_device E xs d s = (-1, xs, set_errno EALREADY s)
      else \<exists>t. add_device E xs d s = (0, xs @ [d], t)
        \<and> (\<forall>p \<in> insert d (set xs). fst (get_device (xs @ [d]) (device_key s p) t) = Some p)"
  proof (cases rule: devs.add_cases [of xs s d E])
    case (appended t)
    then have k: "device_key t p = device_key s p" for p using devs.key_core by metis
    have new: "device_key s d \<notin> device_key s ` set xs" using appended(1) by force
    have "inj_on (device_key s) (set (xs @ [d]))" using assms(2) new by (auto simp: inj_on_insert)
    then have "inj_on (device_key t) (set (xs @ [d]))"
      using inj_on_cong [of "set (xs @ [d])" "device_key t" "device_key s"] k by blast
    then have "fst (get_device (xs @ [d]) (device_key s p) t) = Some p" if "p \<in> insert d (set xs)" for p
      using devs.get_Some_iff [of t "xs @ [d]" "device_key s p" p] that by (auto simp: k)
    with new appended(5) show ?thesis by auto
  next
    case (present p)
    then have "device_key s d \<in> device_key s ` set xs" by (metis image_eqI)
    with present(3) show ?thesis by simp
  qed (use assms(3) in blast)
  moreover have "fst (get_device (remove1 p xs) (device_key s p) s) = None"
    "\<forall>q \<in> set xs - {p}. fst (get_device (remove1 p xs) (device_key s q) s) = Some q" if "p \<in> set xs"
    using devs.get_after_rm [OF assms(1,2) that] by simp_all
  ultimately show ?thesis
    using assms(1) by (auto simp: devs.rm_result distinct_remove1_removeAll removeAll_filter_not_eq neq_commute)
qed

theorem device_list_is_a_map_witness:
  "fst (snd (rm_device [1, 2] 1 idle_server)) = [2] \<and> fst (snd (add_device here [1] 2 idle_server)) = [1, 2]"
proof -
  have "device_key idle_server 2 \<notin> device_key idle_server ` set [1]" by simp
  then show ?thesis
    using device_list_is_a_map [of "[1, 2]" idle_server here 1 1] device_list_is_a_map [of "[1]" idle_server here 2 1]
    by auto
qed

text \<open>
  C23: a signal ends the program whenever it comes: after any number of iterations, in an
  iteration of any kind that does not fail, it stops the loop at the end of that iteration;
  what would wake the server up later is never looked at, and \<open>main\<close> takes leave of the group
  and exits with success.
\<close>

theorem signal_ends_program:
  assumes "well_behaved E" "wf_server s" "inet_aton (g_multicast_group (conf s)) = Some a"
    and "running (serve E us (snd (broadcast_init_message E s)))"
    and "\<not> exited (iteration E w (serve E us (snd (broadcast_init_message E s))))"
  shows "\<exists>t. serve_clients E (us @ Signalled w # vs) s = (Exit_success, t)
    \<and> trace t = trace (iteration E w (serve E us (snd (broadcast_init_message E s))))
        @ [Sent \<lparr>sin_addr = a, sin_port = g_multicast_port (conf s)\<rparr> BROADCAST_QUIT (int (length BROADCAST_QUIT))]"
proof -
  let ?i = "snd (broadcast_init_message E s)"
  let ?j = "serve E us ?i"
  let ?u = "iteration E (Signalled w) ?j"
  have i: "wf_server ?i" "conf ?i = conf s"
    using assms(2) init_broadcast.keeps_wf init_broadcast.keeps_fields by simp_all
  have j: "wf_server ?j" "conf ?j = conf s"
    using reachable_keeps [OF serve_reachable i(1), of E us] i(2) by (simp_all add: same_system_def)
  have "conf ?u = conf s" using iteration_keeps [OF j(1), of E "Signalled w"] j(2) by (simp add: same_system_def)
  moreover have "\<not> running ?u" "\<not> exited ?u" "\<not> g_keep_going ?u"
    using assms(5) by (simp_all add: running_def termination_handler_def)
  moreover from this have "serve E (us @ Signalled w # vs) ?i = ?u"
    using assms(4) serve_stopped by (simp add: serve_append)
  ultimately have "serve_clients E (us @ Signalled w # vs) s = (Exit_success, snd (broadcast_quit_message E ?u))"
    "trace (snd (broadcast_quit_message E ?u)) = trace ?u @
       [Sent \<lparr>sin_addr = a, sin_port = g_multicast_port (conf s)\<rparr> BROADCAST_QUIT (int (length BROADCAST_QUIT))]"
    using farewell_sent(1) [OF assms(1), of ?u a] assms(3)
    by (simp_all add: serve_clients_def case_prod_beta Let_def)
  then show ?thesis by (simp add: termination_handler_def)
qed

theorem signal_ends_program_witness:
  "fst (serve_clients here [Timed_out, Signalled Timed_out, Timed_out] idle_server) = Exit_success"
proof -
  let ?i = "snd (broadcast_init_message here idle_server)"
  have i: "wf_server ?i" "running ?i" by (simp_all add: init_broadcast.keeps_wf running_def) (simp_all add: idle_server_def boot_def)
  have j: "serve here [Timed_out] ?i = poll_and_sweep here ?i" using i(2) by simp
  have "wf_server (poll_and_sweep here ?i)" using poll_and_sweep_keeps [OF i(1)] by blast
  moreover have "running (poll_and_sweep here ?i)" using poll_keeps_flag [OF i(1)] i(2) by (simp add: running_def)
  ultimately have "running (serve here [Timed_out] ?i)" "\<not> exited (iteration here Timed_out (serve here [Timed_out] ?i))"
    using poll_keeps_flag [of "poll_and_sweep here ?i" here] unfolding j by (simp_all add: running_def)
  moreover have "inet_aton (g_multicast_group (conf idle_server)) = Some 0xEFFF2A2A" by (simp, code_simp)
  ultimately obtain t where "serve_clients here ([Timed_out] @ Signalled Timed_out # [Timed_out]) idle_server = (Exit_success, t)"
    using signal_ends_program [of here idle_server "0xEFFF2A2A" "[Timed_out]" Timed_out "[Timed_out]"] by auto
  then show ?thesis by simp
qed

text \<open>
  C24: the result of \<open>system\<close> is compared with 127, but a shell that cannot run a command
  makes \<open>system\<close> return 127 * 256. So a missing dial command counts as a successful dial:
  the device goes to connecting although nothing was run.
\<close>

theorem missing_command_counts_as_success:
  assumes "status (device_at s d) = LINK_DOWN" "0 \<le> g_retries (conf s)"
    and "\<forall>n c. e_system E n c = 127 * 256"
  shows "fst (alter_device_status E d LINK_CONNECTING s) = 0
    \<and> status (device_at (snd (alter_device_status E d LINK_CONNECTING s)) d) = LINK_CONNECTING"
  using assms
  by (simp add: alter_device_status_def alter_to_connecting_def attempt_connect_def link_up_def
      case_prod_beta Let_def fst_system_call)

theorem missing_command_counts_as_success_witness:
  "status (device_at (snd (alter_device_status (here\<lparr>e_system := \<lambda>_ _. 127 * 256\<rparr>) 1 LINK_CONNECTING idle_server)) 1)
     = LINK_CONNECTING"
  using missing_command_counts_as_success [of idle_server 1 "here\<lparr>e_system := \<lambda>_ _. 127 * 256\<rparr>"] by simp

text \<open>
  C25: what the server broadcasts, the client reads. A status message shorter than the
  receive buffer, about devices with plain names, leaves a client that knows the server
  with exactly the reports of the message on top of what it knew: name, status, uptime and
  number of users. (The two unlocks of a mutex that is not held are in the count.)
\<close>

theorem client_reads_broadcast:
  assumes "\<forall>n. e_malloc E n" "\<forall>x \<in> set xs. wire_device x"
    and "length (status_message xs now) < MAX_RECV_BUFFER"
    and "List.find (\<lambda>p. server_key s p = sin_addr a) (g_servers s) = Some p"
    and "wf_cdevices p s" "\<not> servers_locked s"
  shows "\<exists>t. client_process_command E (Broadcast a (status_message xs now)) s = (0, t)
    \<and> cview p t = cview p s ++ map_of (rev (reports xs now)) \<and> wf_cdevices p t
    \<and> ub t = ub s \<and> bad_unlocks t = bad_unlocks s + 2"
proof -
  have "\<And>n. e_malloc E n" using assms(1) by blast
  from status_broadcast_read [OF this assms(2-6)] show ?thesis by metis
qed

theorem client_reads_broadcast_witness:
  "\<exists>t. client_process_command here (Broadcast (host 7) (status_broadcast_text busy_server 1000)) acquainted_client = (0, t)
     \<and> cview 1 t ''ppp0'' = Some (LINK_UP, 300, 1) \<and> cview 1 t ''ppp1'' = Some (LINK_DOWN, 0, 0)"
proof -
  let ?xs = "map (device_at busy_server) (g_devices busy_server)"
  have known: "List.find (\<lambda>p. server_key acquainted_client p = sin_addr (host 7)) (g_servers acquainted_client) = Some 1"
    by (simp add: acquainted_client_def client_boot_def host_def zero_server_def)
  have wf: "wf_cdevices 1 acquainted_client" "\<not> servers_locked acquainted_client"
    by (simp_all add: acquainted_client_def client_boot_def wf_cdevices_def zero_server_def)
  have xs: "\<forall>x \<in> set ?xs. wire_device x"
    by (simp add: wire_device_def countable_users_def delims_def NL_def TAB_def NUL_def)
  have "print_int (c_int 300) = ''300''" "print_int 1 = ''1''" by code_simp+
  then have len: "length (status_message ?xs 1000) < MAX_RECV_BUFFER"
    by (simp add: status_message_def status_text_def uptime_text_def protocol_defs MAX_RECV_BUFFER_def)
  from client_reads_broadcast [OF _ xs len known wf, of here] obtain t where
    t: "client_process_command here (Broadcast (host 7) (status_message ?xs 1000)) acquainted_client = (0, t)"
      "cview 1 t = cview 1 acquainted_client ++ map_of (rev (reports ?xs 1000))" by auto
  have "c_int 300 = 300" by code_simp
  then have "cview 1 t ''ppp0'' = Some (LINK_UP, 300, 1) \<and> cview 1 t ''ppp1'' = Some (LINK_DOWN, 0, 0)"
    unfolding t(2) by (simp add: reports_def status_report_def)
  with t(1) show ?thesis by (auto simp: status_message_is_broadcast)
qed

text \<open>
  C26: a notification selects the device it names (which the document of the protocol says is
  ignored) and requests its new status. A datagram that is shorter than the receive buffer and
  begins with the peer's text and a NUL, or ends with it, does so within defined behaviour.
  The peer's own datagram, for every content of the stack behind its text, makes the same
  request but fills the buffer, so the terminator is written outside.
\<close>

theorem notification_reaches_device:
  assumes "g_device q = Some nm" "length nm < 300" "NUL \<notin> set nm"
    and "wf_server s" "d \<in> set (g_devices s)" "device_name (device_at s d) = Some nm"
  shows "(c_string bytes = notify_text q \<and> length bytes < MAX_RECV_BUFFER \<longrightarrow>
      process_command E (Packet a bytes) s =
        (if g_command q = UP then (0, snd (alter_device_status E d LINK_UP s)) else alter_device_status E d LINK_DOWN s))
    \<and> (length stack = MAX_SEND_BUFFER \<longrightarrow>
      process_command E (Packet a (send_buffer stack q)) s =
        (if g_command q = UP then (0, snd (alter_device_status E d LINK_UP (undefined_if True s)))
         else alter_device_status E d LINK_DOWN (undefined_if True s)))"
proof -
  have short: "length (notify_text q) < MAX_SEND_BUFFER" "NUL \<notin> set (notify_text q)"
    using assms(1-3) by (auto simp: notify_text_def protocol_defs MAX_SEND_BUFFER_def NUL_def)
  have peer: "process_peer E (notify_text q) t =
      (if g_command q = UP then (0, snd (alter_device_status E d LINK_UP t)) else alter_device_status E d LINK_DOWN t)"
    if "wf_server t" "d \<in> set (g_devices t)" "device_name (device_at t d) = Some nm" for t
    by (rule notification_handled [OF assms(1) named_device [OF that(1,2) subset_refl that(3)]])
  have "\<not> starts_with CLIENT_PREFIX (notify_text q)" "starts_with NOTIFY_PREFIX (notify_text q)"
    by (cases "g_command q"; simp add: notify_text_def starts_with_def protocol_defs)+
  then have "process_command E (Packet a bytes) s = process_peer E (notify_text q) s"
    if "c_string bytes = notify_text q" "length bytes < MAX_RECV_BUFFER"
    using that by (simp add: process_command_def received_def undefined_if_def Let_def)
  then show ?thesis
    using peer [OF assms(4-6)] peer [of "undefined_if True s"] assms(4-6)
      notification_delivered [OF _ short, of stack E a s] by simp
qed

theorem notification_reaches_device_witness:
  "process_command here (Packet (host 3) (notify_text notifier @ NUL # ''rest'')) busy_server =
     alter_device_status here 1 LINK_DOWN busy_server
   \<and> process_command here (Packet (host 3) (send_buffer (replicate 400 (CHR ''?'')) notifier)) busy_server =
     alter_device_status here 1 LINK_DOWN (undefined_if True busy_server)"
proof -
  have q: "g_device notifier = Some ''ppp0''" "g_command notifier = DOWN" by (simp_all add: notifier_def)
  have "c_string (notify_text notifier @ NUL # ''rest'') = notify_text notifier"
    "length (notify_text notifier @ NUL # ''rest'') < MAX_RECV_BUFFER" by code_simp+
  then show ?thesis
    using notification_reaches_device [of notifier "''ppp0''" busy_server 1 "notify_text notifier @ NUL # ''rest''" here "host 3"
        "replicate 400 (CHR ''?'')"] q
    by (simp add: MAX_SEND_BUFFER_def NUL_def)
qed

text \<open>
  C27: the client's threads meet in the lists only because of the status messages. Without one
  no interleaving brings \<open>main\<close> to the lists while the listener may write them, although the
  listener walks them without the mutex. After any honest datagrams, a status message from
  whatever host whose first record has a status the client stores can meet \<open>main\<close> there,
  whatever unlocking another thread's mutex does.
\<close>

theorem only_status_messages_race:
  "((\<forall>r \<in> set rs. \<not> status_datagram r) \<and> (thread_step U)\<^sup>*\<^sup>* (threads_start E rounds rs s) t \<longrightarrow> \<not> race Lists t)
    \<and> ((\<forall>n. e_malloc E n) \<and> client_wf s \<and> \<not> ub s \<and> \<not> c_exited s \<and> (\<forall>r \<in> set ds. honest_delivery r)
        \<and> carries_status (c_string (take MAX_RECV_BUFFER m)) \<longrightarrow>
      (\<exists>t. (thread_step U)\<^sup>*\<^sup>* (threads_start E ((Servers_known, True) # rounds) (ds @ Datagram (Broadcast a m) # es) s) t
         \<and> race Lists t))"
proof (intro conjI impI)
  assume "(\<forall>r \<in> set rs. \<not> status_datagram r) \<and> (thread_step U)\<^sup>*\<^sup>* (threads_start E rounds rs s) t"
  then show "\<not> race Lists t" using no_status_no_race by blast
next
  assume *: "(\<forall>n. e_malloc E n) \<and> client_wf s \<and> \<not> ub s \<and> \<not> c_exited s \<and> (\<forall>r \<in> set ds. honest_delivery r)
        \<and> carries_status (c_string (take MAX_RECV_BUFFER m))"
  then have "\<And>n. e_malloc E n" by simp
  from status_races [OF this] * show "\<exists>t. (thread_step U)\<^sup>*\<^sup>* (threads_start E ((Servers_known, True) # rounds)
      (ds @ Datagram (Broadcast a m) # es) s) t \<and> race Lists t" by simp
qed

theorem only_status_messages_race_witness:
  "\<exists>t. (thread_step Some)\<^sup>*\<^sup>* (threads_start here [(Servers_known, True)]
     [Datagram (Broadcast (host 7) BROADCAST_INIT), Datagram (Broadcast (host 7) (BROADCAST_STATUS @ ''ppp0'' @ TAB @ ''DOWN''))] client_boot) t
     \<and> race Lists t"
proof -
  have "carries_status (c_string (take MAX_RECV_BUFFER (BROADCAST_STATUS @ ''ppp0'' @ TAB @ ''DOWN'')))" by code_simp
  moreover have "\<forall>r \<in> set [Datagram (Broadcast (host 7) BROADCAST_INIT)]. honest_delivery r" by (simp add: server_text_def)
  moreover have "\<not> ub client_boot" "\<not> c_exited client_boot" by (simp_all add: client_boot_def)
  ultimately show ?thesis
    using only_status_messages_race [of "[]" Some here "[]" client_boot undefined "[Datagram (Broadcast (host 7) BROADCAST_INIT)]"
        "BROADCAST_STATUS @ ''ppp0'' @ TAB @ ''DOWN''" "host 7" "[]"] client_boot_wf
    by simp
qed





text \<open>
  C30: exactly when \<open>wait_for_servers\<close> gives up: at the first wait that does not return 0, such
  as the first to time out, unless a server has appeared by its start; as the wait's result is
  an error number that never reaches \<open>errno\<close>, the cases for \<open>ETIMEDOUT\<close> and \<open>EINTR\<close> do not
  apply (\<open>undisturbed\<close>: \<open>errno\<close> of \<open>main\<close> is neither). A server that appears in that wait or a
  later one is not seen, and the mutex stays locked.
\<close>

theorem first_timeout_ends_waiting:
  assumes "undisturbed ws s"
  shows "(fst (wait_for_servers ws False s) = Some (-1)) =
      (\<exists>k < length ws. fst (ws ! k) \<noteq> 0 \<and> (\<forall>j < k. fst (ws ! j) = 0)
         \<and> (\<forall>j < Suc k. g_servers (after_waits ws j s) = []))
    \<and> (fst (wait_for_servers ws False s) = Some 0) =
      (\<exists>k < Suc (length ws). g_servers (after_waits ws k s) \<noteq> []
         \<and> (\<forall>j < k. fst (ws ! j) = 0 \<and> g_servers (after_waits ws j s) = []))
    \<and> (fst (snd (wait_for_servers ws False s)) \<longleftrightarrow> fst (wait_for_servers ws False s) = Some (-1))"
proof -
  have "fst (wait_for_servers ws False s) = fst (wait_loop ws s)
      \<and> (fst (snd (wait_for_servers ws False s)) \<longleftrightarrow> fst (wait_loop ws s) = Some (-1))"
    using wait_loop_results [of ws s]
    by (cases "wait_loop ws s"; cases "fst (wait_loop ws s)") (auto simp: wait_for_servers_def)
  then show ?thesis using wait_loop_failed [OF assms] wait_loop_found [OF assms] by simp
qed

theorem first_timeout_ends_waiting_witness:
  "fst (wait_for_servers [(0, \<lambda>s. s), (110, \<lambda>s. s\<lparr>g_servers := [1]\<rparr>)] False client_boot) = Some (-1)"
proof -
  let ?ws = "[(0, \<lambda>s. s), (110 :: int, \<lambda>s. s\<lparr>g_servers := [1]\<rparr>)]"
  have "undisturbed ?ws client_boot"
    by (simp add: undisturbed_def All_less_Suc2 client_boot_def)
  moreover have "\<exists>k < length ?ws. fst (?ws ! k) \<noteq> 0 \<and> (\<forall>j < k. fst (?ws ! j) = 0)
      \<and> (\<forall>j < Suc k. g_servers (after_waits ?ws j client_boot) = [])"
    by (rule exI [of _ 1]) (simp add: All_less_Suc2 client_boot_def)
  ultimately show ?thesis using first_timeout_ends_waiting by blast
qed

text \<open>
  C31: whatever the configuration file holds, reading it leaves a server without clients,
  whose devices have distinct names and are all down and idle.
\<close>

theorem configuration_is_sound:
  "case read_config E F boot of None \<Rightarrow> True | Some (_, t) \<Rightarrow> configured t"
  using read_config_configured [OF _ configured_boot] by (auto split: option.split)



text \<open>
  C33: the nodes of the C code implement the lists the rest of the development works on. On
  a well-formed chain of nodes, look-up, append and unlink of the server's device list
  follow no dangling pointer, end, give the result, the error and the list of the model,
  change no node outside the chain and leave no node behind.
\<close>

theorem device_nodes_implement_list:
  assumes "chain h root xs"
    and "entry \<noteq> Some 0" "\<forall>e. entry = Some e \<longrightarrow> h e = None"
    and "entry = None \<longleftrightarrow> \<not> e_malloc E (tick s)"
  shows "node_lookup h (\<lambda>p. device_key s p = nm) root = Some (fst (get_device (map snd xs) nm s))
    \<and> implements h (fst ` set xs \<union> set_option entry)
        (node_add h (\<lambda>p. device_key s p = device_key s d) root d entry) (add_device E (map snd xs) d s)
    \<and> implements h (fst ` set xs) (node_rm h root d) (rm_device (map snd xs) d s)"
proof -
  have "e \<noteq> 0 \<and> h e = None" if "entry = Some e" for e using that assms(2,3) by auto
  from devs.lookup_implemented [OF assms(1)] devs.add_implemented [OF assms(1) this assms(4)]
    devs.rm_implemented [OF assms(1)] show ?thesis by blast
qed

theorem device_nodes_implement_list_witness:
  "implements [8 \<mapsto> \<lparr>n_next = 16, n_data = 1\<rparr>, 16 \<mapsto> \<lparr>n_next = 0, n_data = 2\<rparr>] {8, 16}
     (node_rm [8 \<mapsto> \<lparr>n_next = 16, n_data = 1\<rparr>, 16 \<mapsto> \<lparr>n_next = 0, n_data = 2\<rparr>] 8 (2 :: dev_ptr)) (0, [1], idle_server)"
  using device_nodes_implement_list [of "[8 \<mapsto> \<lparr>n_next = 16, n_data = 1\<rparr>, 16 \<mapsto> \<lparr>n_next = 0, n_data = 2\<rparr>]"
      8 "[(8, 1), (16, 2)]" "Some 24" here idle_server _ 2] by simp

text \<open>
  C34: an operation on one list of nodes keeps every list that shares no node with it, so
  the lists of the devices, of the clients and inside each of them do not interfere.
  Dropping a whole list frees exactly its nodes.
\<close>

theorem list_operations_do_not_interfere:
  fixes E :: env
  assumes "chain h root xs" "chain h q zs" "fst ` set zs \<inter> fst ` set xs = {}"
    and "entry \<noteq> Some 0" "\<forall>e. entry = Some e \<longrightarrow> h e = None" "entry = None \<longleftrightarrow> \<not> e_malloc E (tick s)"
  shows "(\<exists>err h' r. node_add h (\<lambda>p. client_key s p = client_key s c) root c entry = Some (err, h', r) \<and> chain h' q zs)
    \<and> (\<exists>err h' r. node_rm h root c = Some (err, h', r) \<and> chain h' q zs)
    \<and> node_drop_all h root = Some (0, h |` (- fst ` set xs)) \<and> chain (h |` (- fst ` set xs)) q zs"
proof (intro conjI)
  have fresh: "e \<noteq> 0 \<and> h e = None" if "entry = Some e" for e using that assms(4,5) by auto
  have "fst ` set zs \<inter> (fst ` set xs \<union> set_option entry) = {}"
    using assms(3,5) chain_allocated [OF assms(2)] by (auto simp: subset_iff)
  then show "\<exists>err h' r. node_add h (\<lambda>p. client_key s p = client_key s c) root c entry = Some (err, h', r) \<and> chain h' q zs"
    using implements_frame [OF clis.add_implemented [OF assms(1) fresh assms(6), of c] assms(2)] by metis
  show "\<exists>err h' r. node_rm h root c = Some (err, h', r) \<and> chain h' q zs"
    using implements_frame [OF clis.rm_implemented [OF assms(1), of c s] assms(2,3)] by metis
  show "node_drop_all h root = Some (0, h |` (- fst ` set xs))" by (rule node_drop_all_result [OF assms(1)])
  have "\<forall>a \<in> fst ` set zs. (h |` (- fst ` set xs)) a = h a" using assms(3) by (auto simp: restrict_map_def)
  then show "chain (h |` (- fst ` set xs)) q zs" using chain_frame assms(2) by blast
qed

theorem list_operations_do_not_interfere_witness:
  "\<exists>err h' r. node_rm [8 \<mapsto> \<lparr>n_next = 0, n_data = 3\<rparr>, 16 \<mapsto> \<lparr>n_next = 0, n_data = 3\<rparr>] 8 (3 :: cli_ptr) = Some (err, h', r)
     \<and> chain h' 16 [(16, 3)]"
  using list_operations_do_not_interfere [of "[8 \<mapsto> \<lparr>n_next = 0, n_data = 3\<rparr>, 16 \<mapsto> \<lparr>n_next = 0, n_data = 3\<rparr>]"
      8 "[(8, 3)]" 16 "[(16, 3)]" "Some 24" here busy_server 3, THEN conjunct2, THEN conjunct1] by simp

text \<open>
  C35: the client's \<open>rm_server\<close> implements its list function on every server but the first;
  removing the first empties the list and leaves the nodes behind it allocated with no
  pointer to them.
\<close>

theorem first_server_leaks_the_rest:
  assumes "chain h root ((a, p) # xs)"
  shows "(\<exists>h'. node_rm_server h root p = Some (None, h', 0) \<and> h' a = None \<and> (\<forall>b \<in> fst ` set xs. h' b \<noteq> None))
    \<and> rm_server (p # map snd xs) p s = (0, [], s)
    \<and> (q \<noteq> p \<longrightarrow> implements h (insert a (fst ` set xs)) (node_rm_server h root q) (rm_server (p # map snd xs) q s))"
proof (intro conjI impI)
  obtain r where "node_rm_server h root p = Some (None, h(a := None), 0)" "chain (h(a := None)) r xs"
    using node_rm_head [OF assms] by metis
  then show "\<exists>h'. node_rm_server h root p = Some (None, h', 0) \<and> h' a = None \<and> (\<forall>b \<in> fst ` set xs. h' b \<noteq> None)"
    using chain_allocated by fastforce
  show "rm_server (p # map snd xs) p s = (0, [], s)" by (simp add: rm_server_def)
  show "implements h (insert a (fst ` set xs)) (node_rm_server h root q) (rm_server (p # map snd xs) q s)" if "q \<noteq> p"
    using rm_server_implemented [OF assms, of q s] that by simp
qed

theorem first_server_leaks_the_rest_witness:
  "\<exists>h'. node_rm_server [8 \<mapsto> \<lparr>n_next = 16, n_data = 1\<rparr>, 16 \<mapsto> \<lparr>n_next = 0, n_data = 2\<rparr>] 8 (1 :: srv_ptr) = Some (None, h', 0)
     \<and> h' 16 \<noteq> None"
  using first_server_leaks_the_rest [of "[8 \<mapsto> \<lparr>n_next = 16, n_data = 1\<rparr>, 16 \<mapsto> \<lparr>n_next = 0, n_data = 2\<rparr>]"
      8 8 1 "[(16, 2)]" client_boot 1, THEN conjunct1] by auto

text \<open>
  C36: whatever arrives, in whatever order, and whether or not memory runs out: unless it has
  run into undefined behaviour, the listener leaves each server listed once, each with
  devices of distinct names of its own, and no device shared between servers. With enough
  memory, messages that link servers send never lead to undefined behaviour.
\<close>

theorem client_lists_stay_well_formed:
  fixes E :: env and rs :: "ready list" and c :: client_conf
  defines "t \<equiv> listen_for_status E rs (client_boot\<lparr>c_conf := c\<rparr>)"
  shows "(ub t \<or> client_wf t)
    \<and> ((\<forall>n. e_malloc E n) \<and> (\<forall>r \<in> set rs. from_server r) \<longrightarrow> \<not> ub t \<and> client_wf t)"
proof -
  have wf: "client_wf (client_boot\<lparr>c_conf := c\<rparr>)" by (rule alike_wf [OF alike_conf client_boot_wf])
  have "\<not> ub (client_boot\<lparr>c_conf := c\<rparr>)" by (simp add: client_boot_def)
  then show ?thesis unfolding t_def using listen_for_status_keeps wf listen_for_status_honest by blast
qed

theorem client_lists_stay_well_formed_witness:
  "\<not> ub (listen_for_status here [Nothing_ready, Datagram (Broadcast (host 7) BROADCAST_INIT),
     Datagram (Broadcast (host 7) (status_message [device_at busy_server 1] 1000))] (client_boot\<lparr>c_conf := client_defaults\<rparr>))"
proof -
  let ?m = "status_message [device_at busy_server 1] 1000"
  have n: "print_int (c_int 300) = ''300''" "print_int 1 = ''1''" by code_simp+
  then have "length ?m < MAX_RECV_BUFFER"
    by (simp add: status_message_def status_text_def uptime_text_def protocol_defs MAX_RECV_BUFFER_def NL_def TAB_def)
  moreover have "\<forall>x \<in> set [device_at busy_server 1]. wire_device x"
    by (simp add: wire_device_def countable_users_def delims_def NL_def TAB_def NUL_def)
  ultimately have "server_text ?m" "server_text BROADCAST_INIT" unfolding server_text_def by blast+
  then have "\<forall>r \<in> set [Nothing_ready, Datagram (Broadcast (host 7) BROADCAST_INIT), Datagram (Broadcast (host 7) ?m)]. from_server r"
    by simp
  moreover have "\<forall>n. e_malloc here n" by simp
  ultimately show ?thesis using client_lists_stay_well_formed [of here] by blast
qed

text \<open>
  C37: from the server to the screen: after a status message of a known server about
  devices with distinct plain names, the client's screen has a row for every device, with
  the status, the uptime and the number of users it has in the server.
\<close>

theorem screen_shows_status:
  assumes "\<forall>n. e_malloc E n" "\<forall>x \<in> set xs. wire_device x" "distinct (map device_name xs)"
    and "length (status_message xs now) < MAX_RECV_BUFFER" "client_wf s" "\<not> servers_locked s"
    and "List.find (\<lambda>p. server_key s p = sin_addr a) (g_servers s) = Some p" and x: "x \<in> set xs"
  shows "sublist (report_row (c_text (device_name x)) (status_report x now))
    (fst (show_status (snd (client_process_command E (Broadcast a (status_message xs now)) s))))"
proof -
  have E: "\<And>n. e_malloc E n" using assms(1) by blast
  have p: "p \<in> set (g_servers s)" using find_Some_set [OF assms(7)] by simp
  have "wf_cdevices p s" using devices_wfD(2) [OF client_wfD(3) [OF assms(5)] p] .
  from status_broadcast_read [OF E assms(2,4,7) this assms(6)] obtain t where
    t: "client_process_command E (Broadcast a (status_message xs now)) s = (0, t)"
      "cview p t = cview p s ++ map_of (rev (reports xs now))" "g_servers t = g_servers s" by metis
  have "cview p t (c_text (device_name x)) = Some (status_report x now)"
    using reports_of_distinct [OF assms(3) x assms(2)] by (simp add: t(2))
  then show ?thesis using screen_shows_view [of p t] p t by (simp add: show_status_def)
qed

theorem screen_shows_status_witness:
  "sublist (report_row ''ppp0'' (LINK_UP, 300, 1)) (fst (show_status (snd (client_process_command here
     (Broadcast (host 7) (status_message [device_at busy_server 1, device_at busy_server 2] 1000)) acquainted_client))))"
proof -
  let ?xs = "[device_at busy_server 1, device_at busy_server 2]"
  have known: "List.find (\<lambda>p. server_key acquainted_client p = sin_addr (host 7)) (g_servers acquainted_client) = Some 1"
    by (simp add: acquainted_client_def client_boot_def host_def zero_server_def)
  have wf: "client_wf acquainted_client" "\<not> servers_locked acquainted_client"
    by (simp_all add: acquainted_client_def client_boot_def client_wf_def devices_wf_def wf_cdevices_def zero_server_def)
  have xs: "\<forall>x \<in> set ?xs. wire_device x" "distinct (map device_name ?xs)"
    by (simp_all add: wire_device_def countable_users_def delims_def NL_def TAB_def NUL_def)
  have n: "print_int (c_int 300) = ''300''" "print_int 1 = ''1''" "c_int 300 = 300" by code_simp+
  then have len: "length (status_message ?xs 1000) < MAX_RECV_BUFFER"
    by (simp add: status_message_def status_text_def uptime_text_def protocol_defs MAX_RECV_BUFFER_def NL_def TAB_def)
  have x: "device_at busy_server 1 \<in> set ?xs" by simp
  have "\<forall>n. e_malloc here n" by simp
  from screen_shows_status [OF this xs len wf known x] n(3) show ?thesis
    by (simp add: status_report_def)
qed





text \<open>
  C40: a server that starts empties what the client knew of it, and of no other server; a
  server that ends is taken off the list (C35 says what happens to the others).
\<close>

theorem init_and_quit_forget:
  assumes "List.find (\<lambda>p. server_key s p = sin_addr a) (g_servers s) = Some p" "distinct (g_servers s)"
  shows "(\<exists>t. client_process_command E (Broadcast a BROADCAST_INIT) s = (0, t) \<and> cview p t = Map.empty
      \<and> (\<forall>q. q \<noteq> p \<longrightarrow> cview q t = cview q s) \<and> g_servers t = g_servers s)
    \<and> (\<exists>t. client_process_command E (Broadcast a BROADCAST_QUIT) s = (0, t) \<and> p \<notin> set (g_servers t))"
proof -
  define u where "u = unlock_servers (upd_server p
      (\<lambda>x. x\<lparr>srv_last_heard_from := fst (time_now E (lock_servers s))\<rparr>) (snd (time_now E (lock_servers s))))"
  have u: "devices_of u q = devices_of s q" "cdevice_at u = cdevice_at s" "g_servers u = g_servers s" for q
    by (simp_all add: u_def unlock_servers_def lock_servers_def)
  have run: "client_process_command E (Broadcast a m) s = server_broadcast E p m u"
    if "c_string m = m" "length m < MAX_RECV_BUFFER" for m
    using assms(1) that
    by (simp add: client_process_command_def find_or_add_server_def get_server_find case_prod_beta
        undefined_if_def Let_def u_def)
  have i: "c_string BROADCAST_INIT = BROADCAST_INIT" "length BROADCAST_INIT < MAX_RECV_BUFFER"
    "starts_with BROADCAST_INIT BROADCAST_INIT" by code_simp+
  let ?t = "unlock_servers (upd_server p (\<lambda>x. x\<lparr>devices_controlled := []\<rparr>) (lock_servers u))"
  have "client_process_command E (Broadcast a BROADCAST_INIT) s = (0, ?t)"
    using run [OF i(1,2)] i(3) by (simp add: server_broadcast_def drop_devices_result)
  moreover have at: "devices_of ?t q = (if q = p then [] else devices_of s q)" "cdevice_at ?t = cdevice_at s"
    "g_servers ?t = g_servers s" for q
    using u by (simp_all add: unlock_servers_def lock_servers_def)
  have "cview q ?t = cview q s" if "q \<noteq> p" for q
    by (rule cview_cong) (simp_all add: at that)
  moreover have "cview p ?t = Map.empty" by (rule ext) (simp only: cview_def at, simp)
  ultimately have init: "\<exists>t. client_process_command E (Broadcast a BROADCAST_INIT) s = (0, t) \<and> cview p t = Map.empty
      \<and> (\<forall>q. q \<noteq> p \<longrightarrow> cview q t = cview q s) \<and> g_servers t = g_servers s"
    using at(3) by blast
  have q: "c_string BROADCAST_QUIT = BROADCAST_QUIT" "length BROADCAST_QUIT < MAX_RECV_BUFFER"
    "starts_with BROADCAST_QUIT BROADCAST_QUIT" "\<not> starts_with BROADCAST_INIT BROADCAST_QUIT" by code_simp+
  have p: "p \<in> set (g_servers s)" using find_Some_set [OF assms(1)] by simp
  have ne: "g_servers s \<noteq> []" using p by auto
  define l where "l = (if hd (g_servers s) = p then [] else remove1 p (g_servers s))"
  define v where "v = lock_servers u"
  have rm: "rm_server (g_servers s) p v = (0, l, v)" "p \<notin> set l"
    using p ne assms(2) by (simp_all add: rm_server_result l_def)
  have "g_servers (lock_servers u) = g_servers s" using u(3) by (simp add: lock_servers_def)
  with rm(1) have "client_process_command E (Broadcast a BROADCAST_QUIT) s = (0, unlock_servers (v\<lparr>g_servers := l\<rparr>))"
    using run [OF q(1,2)] q(3,4) u(3) by (simp add: server_broadcast_def v_def)
  moreover have "p \<notin> set (g_servers (unlock_servers (v\<lparr>g_servers := l\<rparr>)))"
    using rm(2) by (simp add: unlock_servers_def)
  ultimately show ?thesis by (intro conjI init) (rule exI, rule conjI)
qed

theorem init_and_quit_forget_witness:
  "\<exists>t. client_process_command here (Broadcast (host 7) BROADCAST_QUIT) acquainted_client = (0, t) \<and> 1 \<notin> set (g_servers t)"
proof -
  have "List.find (\<lambda>p. server_key acquainted_client p = sin_addr (host 7)) (g_servers acquainted_client) = Some 1"
    "distinct (g_servers acquainted_client)"
    by (simp_all add: acquainted_client_def client_boot_def host_def zero_server_def)
  from init_and_quit_forget [OF this, of here] show ?thesis by simp
qed

end
